(* ===== verification/Cad_Prelude.thy ===== *)
theory Cad_Prelude
  imports Main "HOL-Library.Word" "HOL-Library.Monad_Syntax" "HOL-Library.Multiset"
begin

unbundle bit_operations_syntax

text \<open>
  Prelude of the development: the C types the components share, the memory accesses
  that may fault, and the collections of facts the component proofs use.

  A result of type \<open>'a option\<close> is the outcome of a C call: \<open>Some r\<close> when the call
  returns with \<open>r\<close>, \<open>None\<close> when it has no defined result, that is when it does not
  return or when it has undefined behaviour (an access outside an object, an \<open>int\<close>
  overflow, a second \<open>free\<close> of the same object). A C pointer that may be \<open>NULL\<close> is a
  value of type \<open>'a ptr\<close>, with \<open>None\<close> for \<open>NULL\<close>.
\<close>

section \<open>Types\<close>

type_synonym u32 = "32 word"
type_synonym 'a ptr = "'a option"

abbreviation NULL :: "'a ptr" where
  "NULL \<equiv> None"

text \<open>A C string is the list of its bytes, without the terminating NUL.\<close>

type_synonym cstring = "char list"

abbreviation NUL :: char where
  "NUL \<equiv> CHR 0x00"

definition valid_cstring :: "cstring \<Rightarrow> bool" where
  "valid_cstring s \<longleftrightarrow> NUL \<notin> set s"

text \<open>
  The value of a \<open>char\<close> promoted to \<open>int\<close>. Plain \<open>char\<close> is signed on the platforms the
  library is packaged for (x86 Debian), so the bytes from 0x80 are negative, and 0xFF is
  \<open>EOF\<close>.
\<close>

definition char_int :: "char \<Rightarrow> int" where
  "char_int c = (let n = of_char c :: int in if n < 128 then n else n - 256)"

text \<open>The conversion of an \<open>int\<close> to \<open>char\<close> keeps its low eight bits.\<close>

definition int_char :: "int \<Rightarrow> char" where
  "int_char i = char_of (i mod 256)"

lemma of_char_bounds: "0 \<le> (of_char c :: int)" "(of_char c :: int) < 256"
  using nat_of_char_less_256 [of c]
  by (metis of_nat_0_le_iff of_nat_of_char, metis of_nat_less_numeral_iff of_nat_of_char)

lemma int_char_int: "int_char (char_int c) = c"
proof -
  have "(of_char c - 256) mod 256 = (of_char c :: int)" "of_char c mod 256 = (of_char c :: int)"
    using of_char_bounds [of c] by (simp_all only: minus_mod_self2 mod_pos_pos_trivial)
  then show ?thesis
    by (simp only: int_char_def char_int_def Let_def if_distrib [of "\<lambda>i. char_of (i mod 256)"]) simp
qed

definition INT_MAX :: nat where
  "INT_MAX = 2147483647"

text \<open>\<open>c_int n\<close> is the \<open>int\<close> with the (never negative) value \<open>n\<close>; overflow is undefined.\<close>

definition c_int :: "nat \<Rightarrow> nat option" where
  "c_int n = (if n \<le> INT_MAX then Some n else None)"

text \<open>An array access, undefined outside the bounds.\<close>

definition nth_opt :: "'a list \<Rightarrow> nat \<Rightarrow> 'a option" where
  "nth_opt xs i = (if i < length xs then Some (xs ! i) else None)"

definition upd_opt :: "'a list \<Rightarrow> nat \<Rightarrow> 'a \<Rightarrow> 'a list option" where
  "upd_opt xs i x = (if i < length xs then Some (xs[i := x]) else None)"

text \<open>A store at an \<open>int\<close> index; a negative one is out of bounds too.\<close>

definition upd_at :: "'a list \<Rightarrow> int \<Rightarrow> 'a \<Rightarrow> 'a list option" where
  "upd_at xs i x = (if i < 0 then None else upd_opt xs (nat i) x)"

section \<open>Shared facts\<close>

named_theorems c_access \<open>evaluation of memory accesses and int arithmetic that are in range\<close>

lemma nth_opt_in [c_access]: "i < length xs \<Longrightarrow> nth_opt xs i = Some (xs ! i)"
  by (simp add: nth_opt_def)

lemma upd_opt_in [c_access]: "i < length xs \<Longrightarrow> upd_opt xs i x = Some (xs[i := x])"
  by (simp add: upd_opt_def)

lemma c_int_in [c_access]: "n \<le> INT_MAX \<Longrightarrow> c_int n = Some n"
  by (simp add: c_int_def)

lemma c_int_Some_iff [simp]: "c_int n = Some m \<longleftrightarrow> m = n \<and> n \<le> INT_MAX"
  by (auto simp: c_int_def)

lemma nth_opt_Some_iff [simp]: "nth_opt xs i = Some x \<longleftrightarrow> i < length xs \<and> x = xs ! i"
  by (auto simp: nth_opt_def)

lemma upd_opt_Some_iff [simp]: "upd_opt xs i x = Some ys \<longleftrightarrow> i < length xs \<and> ys = xs[i := x]"
  by (auto simp: upd_opt_def)

lemma valid_cstring_simps [simp]:
  "valid_cstring []"
  "valid_cstring (c # s) \<longleftrightarrow> c \<noteq> NUL \<and> valid_cstring s"
  "valid_cstring (s @ t) \<longleftrightarrow> valid_cstring s \<and> valid_cstring t"
  by (auto simp: valid_cstring_def)

section \<open>Doubling\<close>

text \<open>Several buffers start with a capacity of \<open>base\<close> and double when they are full. \<open>doubled base n
  cap\<close>: \<open>cap\<close> is the capacity that \<open>n\<close> elements put one by one need.\<close>

definition doubled :: "nat \<Rightarrow> nat \<Rightarrow> nat \<Rightarrow> bool" where
  "doubled base n cap \<longleftrightarrow> (\<exists>j. cap = base * 2 ^ j \<and> n \<le> cap \<and> (j = 0 \<or> cap < 2 * n))"

lemma doubled_start: "n \<le> base \<Longrightarrow> doubled base n base"
  by (auto simp: doubled_def intro: exI [of _ 0])

lemma doubled_Suc:
  assumes "doubled base n cap" "0 < base"
  shows "doubled base (Suc n) (if cap = n then cap * 2 else cap)"
proof -
  obtain j where j: "cap = base * 2 ^ j" "n \<le> cap" "j = 0 \<or> cap < 2 * n" using assms(1) by (auto simp: doubled_def)
  show ?thesis
  proof (cases "cap = n")
    case True
    have "0 < cap" using j(1) assms(2) by simp
    then show ?thesis using True j(1) by (auto simp: doubled_def intro!: exI [of _ "Suc j"])
  next
    case False
    then show ?thesis using j by (auto simp: doubled_def intro!: exI [of _ j])
  qed
qed

lemma doubled_bound: "doubled base n cap \<Longrightarrow> cap \<le> max base (2 * n)"
  by (auto simp: doubled_def)

text \<open>The capacity is reached exactly at the sizes where it has just doubled.\<close>

lemma doubled_full:
  assumes "doubled base n cap" "0 < base"
  shows "n = cap \<longleftrightarrow> (\<exists>j. n = base * 2 ^ j)"
proof (rule iffI)
  obtain j where j: "cap = base * 2 ^ j" "n \<le> cap" "j = 0 \<or> cap < 2 * n" using assms(1) by (auto simp: doubled_def)
  assume "\<exists>i. n = base * 2 ^ i"
  then obtain i where i: "n = base * 2 ^ i" ..
  have "(2::nat) ^ i \<le> 2 ^ j" using i j(1,2) assms(2) by simp
  then have "i \<le> j" by (simp add: power_increasing_iff)
  moreover have "j \<le> i"
  proof (cases "j = 0")
    case False
    then have "(2::nat) ^ j < 2 ^ Suc i" using i j(1,3) assms(2) by simp
    then have "j < Suc i" by (simp only: power_strict_increasing_iff one_less_numeral_iff semiring_norm)
    then show ?thesis by simp
  qed simp
  ultimately show "n = cap" using i j(1) by simp
qed (use assms(1) in \<open>auto simp: doubled_def\<close>)

end
