(* ===== verification/Cad_Probe.thy ===== *)
theory Cad_Probe
  imports Cad_Prelude
begin

text \<open>
  The probe sequence of the hash table (\<open>next_index_of\<close> in src/cad_hash.c) and its
  coverage: after the perturbation has been shifted out, the sequence is the linear
  congruential generator \<open>x := 5 * x + 1\<close>, which has full period modulo every power of
  two. The capacities of the table are powers of two, so the sequence reaches every slot.
\<close>

section \<open>The generator 5 x + 1 modulo a power of two\<close>

fun geo5 :: "nat \<Rightarrow> nat" where
  "geo5 0 = 0"
| "geo5 (Suc n) = 5 * geo5 n + 1"

lemma geo5_add: "geo5 (m + n) = 5 ^ n * geo5 m + geo5 n"
  by (induction n) (auto simp: algebra_simps)

lemma pow5_geo5: "5 ^ n = 4 * geo5 n + 1"
  by (induction n) auto

lemma geo5_double: "geo5 (2 * m) = geo5 m * (2 * (2 * geo5 m + 1))"
  using geo5_add [of m m] by (simp add: pow5_geo5 algebra_simps flip: mult_2_right)

lemma geo5_even_iff: "even (geo5 n) \<longleftrightarrow> even n"
  by (induction n) auto

lemma pow2_dvd_geo5_iff: "2 ^ k dvd geo5 n \<longleftrightarrow> 2 ^ k dvd n"
proof (induction k arbitrary: n)
  case 0
  then show ?case by simp
next
  case (Suc k)
  show ?case
  proof (cases "even n")
    case False
    then show ?thesis using geo5_even_iff [of n] by (meson dvd_power dvd_trans zero_less_Suc)
  next
    case True
    then obtain m where m: "n = 2 * m" by blast
    have cop: "coprime (2 ^ k) (2 * geo5 m + 1)" by simp
    have "2 ^ Suc k dvd geo5 n \<longleftrightarrow> 2 ^ k dvd geo5 m * (2 * geo5 m + 1)"
      unfolding m geo5_double by (simp only: mult.left_commute [of _ 2] power_Suc nat_mult_dvd_cancel_disj) simp
    also have "\<dots> \<longleftrightarrow> 2 ^ k dvd geo5 m"
      by (rule coprime_dvd_mult_left_iff [OF cop])
    also have "\<dots> \<longleftrightarrow> 2 ^ k dvd m" by (rule Suc.IH)
    finally show ?thesis by (simp add: m)
  qed
qed
lemma lcg5_iterate: "((\<lambda>x. 5 * x + 1) ^^ n) (x::nat) = x + geo5 n * (4 * x + 1)"
  by (induction n) (auto simp: algebra_simps)

lemma lcg5_cycle:
  assumes "((\<lambda>x. 5 * x + 1) ^^ m) (x::nat) mod 2 ^ k = x mod 2 ^ k"
  shows "2 ^ k dvd m"
proof -
  have "2 ^ k dvd geo5 m * (4 * x + 1)"
    using assms unfolding lcg5_iterate by (metis add_diff_cancel_left' le_add1 mod_eq_dvd_iff_nat)
  moreover have "coprime (2 ^ k) (4 * x + 1)" by simp
  ultimately show ?thesis
    using coprime_dvd_mult_left_iff pow2_dvd_geo5_iff by blast
qed

lemma lcg5_inj: "inj_on (\<lambda>n. ((\<lambda>x. 5 * x + 1) ^^ n) (x::nat) mod 2 ^ k) {..<2 ^ k}"
proof (rule linorder_inj_onI')
  fix i j :: nat
  assume ij: "i \<in> {..<2 ^ k}" "j \<in> {..<2 ^ k}" "i < j"
  show "((\<lambda>x. 5 * x + 1) ^^ i) x mod 2 ^ k \<noteq> ((\<lambda>x. 5 * x + 1) ^^ j) x mod 2 ^ k"
  proof
    assume eq: "((\<lambda>x. 5 * x + 1) ^^ i) x mod 2 ^ k = ((\<lambda>x. 5 * x + 1) ^^ j) x mod 2 ^ k"
    have "((\<lambda>x. 5 * x + 1) ^^ j) x = ((\<lambda>x. 5 * x + 1) ^^ (j - i)) (((\<lambda>x. 5 * x + 1) ^^ i) x)"
      using ij(3) by (metis comp_apply funpow_add le_add_diff_inverse2 less_imp_le_nat)
    with eq have "2 ^ k dvd j - i" using lcg5_cycle by metis
    with ij show False by (auto dest: dvd_imp_le)
  qed
qed

lemma lcg5_surj:
  assumes "s < 2 ^ k"
  shows "\<exists>n < 2 ^ k. ((\<lambda>x. 5 * x + 1) ^^ n) (x::nat) mod 2 ^ k = s"
proof -
  let ?f = "\<lambda>n. ((\<lambda>x. 5 * x + 1) ^^ n) x mod 2 ^ k"
  have "?f ` {..<2 ^ k} = {..<2 ^ k}"
    by (rule endo_inj_surj) (use lcg5_inj in auto)
  then show ?thesis using assms by (metis (no_types, lifting) imageE lessThan_iff)
qed

section \<open>The probe sequence\<close>

definition PERTURB_SHIFT :: nat where
  "PERTURB_SHIFT = 5"

record index_context =
  index :: u32
  perturb :: u32

definition next_index_of :: "index_context \<Rightarrow> index_context" where
  "next_index_of c =
     (let c1 = c\<lparr>index := 5 * index c + 1 + perturb c\<rparr>
      in c1\<lparr>perturb := drop_bit PERTURB_SHIFT (perturb c1)\<rparr>)"

text \<open>The context \<open>n\<close> steps after the start at hash \<open>h\<close>, and the slot it designates.\<close>

definition probe :: "u32 \<Rightarrow> nat \<Rightarrow> index_context" where
  "probe h n = (next_index_of ^^ n) \<lparr>index = h, perturb = h\<rparr>"

definition slot :: "nat \<Rightarrow> u32 \<Rightarrow> nat \<Rightarrow> nat" where
  "slot cap h n = unat (index (probe h n)) mod cap"

lemma probe_0 [simp]: "probe h 0 = \<lparr>index = h, perturb = h\<rparr>"
  by (simp add: probe_def)

lemma probe_Suc: "probe h (Suc n) = next_index_of (probe h n)"
  by (simp add: probe_def)

lemma slot_less [simp]: "0 < cap \<Longrightarrow> slot cap h n < cap"
  by (simp add: slot_def)

lemma perturb_probe: "perturb (probe h n) = drop_bit (5 * n) h"
  by (induction n) (auto simp: probe_Suc next_index_of_def Let_def PERTURB_SHIFT_def algebra_simps)

lemma perturb_probe_0: "7 \<le> n \<Longrightarrow> perturb (probe h n) = 0"
proof -
  assume "7 \<le> n"
  then have "5 * n = (5 * n - 35) + 35" by simp
  then have "drop_bit (5 * n) h = drop_bit (5 * n - 35) (drop_bit 35 h)"
    by (metis drop_bit_drop_bit)
  moreover have "drop_bit 35 h = 0"
    by (rule bit_word_eqI) (auto simp: bit_drop_bit_eq dest: bit_imp_le_length)
  ultimately show ?thesis by (simp add: perturb_probe)
qed

lemma lcg5_mod: "(5 * (a mod m) + 1) mod m = (5 * a + 1) mod (m::nat)"
  by (metis mod_add_left_eq mod_mult_right_eq)

text \<open>Once the perturbation is zero a step is \<open>5 * x + 1\<close>, up to a multiple of \<open>2 ^ 32\<close>.\<close>

lemma unat_lcg5_mod:
  fixes x :: u32
  assumes "k \<le> 32"
  shows "unat (5 * x + 1) mod 2 ^ k = (5 * (unat x mod 2 ^ k) + 1) mod 2 ^ k"
proof -
  have "unat (5 * x + 1) = (5 * unat x + 1) mod 2 ^ 32"
    by (simp add: unat_word_ariths mod_simps)
  moreover have "(2::nat) ^ k dvd 2 ^ 32" by (rule le_imp_power_dvd [OF assms])
  ultimately have "unat (5 * x + 1) mod 2 ^ k = (5 * unat x + 1) mod 2 ^ k"
    by (simp add: mod_mod_cancel)
  then show ?thesis by (simp only: lcg5_mod)
qed

lemma slot_after_perturb:
  assumes "k \<le> 32"
  shows "slot (2 ^ k) h (7 + n) = ((\<lambda>x. 5 * x + 1) ^^ n) (unat (index (probe h 7))) mod 2 ^ k"
proof (induction n)
  case 0
  then show ?case by (simp add: slot_def)
next
  case (Suc n)
  let ?f = "\<lambda>x::nat. 5 * x + 1"
  have "index (probe h (Suc (7 + n))) = 5 * index (probe h (7 + n)) + 1"
    using perturb_probe_0 [of "7 + n" h] unfolding probe_Suc
    by (simp add: next_index_of_def Let_def)
  then have "slot (2 ^ k) h (7 + Suc n) = (5 * slot (2 ^ k) h (7 + n) + 1) mod 2 ^ k"
    using unat_lcg5_mod [OF assms] by (simp add: slot_def)
  also have "\<dots> = (?f ^^ Suc n) (unat (index (probe h 7))) mod 2 ^ k"
    unfolding Suc.IH lcg5_mod by simp
  finally show ?case .
qed

theorem probe_covers:
  assumes "k \<le> 32" "s < 2 ^ k"
  shows "\<exists>n < 7 + 2 ^ k. slot (2 ^ k) h n = s"
proof -
  obtain n where "n < 2 ^ k" "((\<lambda>x. 5 * x + 1) ^^ n) (unat (index (probe h 7))) mod 2 ^ k = s"
    using lcg5_surj [OF assms(2)] by blast
  then have "slot (2 ^ k) h (7 + n) = s" "7 + n < 7 + 2 ^ k"
    using slot_after_perturb [OF assms(1)] by simp_all
  then show ?thesis by blast
qed

end
