(* ===== verification/Cad_Hash.thy ===== *)
theory Cad_Hash
  imports Cad_Probe
begin

text \<open>
  The hash table (src/cad_hash.c, include/cad_hash.h): open addressing with the probe
  sequence of \<open>Cad_Probe\<close>, growth at a load of two thirds, and a deletion that repairs
  the collision chains it breaks. This theory holds the data and the operations.

  Allocations of the table itself are assumed to succeed (the code does not test them).
  The copies of the keys are accounted for: the ghost field \<open>hi_live\<close> is the multiset of
  the copies that \<open>keys.clone\<close> has made and \<open>keys.free\<close> has not released, and releasing a
  copy that is not in it is undefined.
\<close>

section \<open>Data\<close>

record 'k cad_hash_keys =
  keys_hash :: "'k \<Rightarrow> u32"
  keys_compare :: "'k \<Rightarrow> 'k \<Rightarrow> int"
  keys_clone :: "'k \<Rightarrow> 'k"

record 'k cad_hash_key =
  hk_key :: "'k ptr"
  hk_hash :: u32

record ('k, 'v) cad_hash_entry =
  he_key :: "'k cad_hash_key"
  he_value :: "'v ptr"

record ('k, 'v) cad_hash_impl =
  hi_keys :: "'k cad_hash_keys"
  hi_capacity :: nat
  hi_count :: nat
  hi_salt :: u32
  hi_entries :: "('k, 'v) cad_hash_entry list"
  hi_live :: "'k multiset"

abbreviation ekey :: "('k, 'v) cad_hash_entry \<Rightarrow> 'k ptr" where
  "ekey e \<equiv> hk_key (he_key e)"

abbreviation ehash :: "('k, 'v) cad_hash_entry \<Rightarrow> u32" where
  "ehash e \<equiv> hk_hash (he_key e)"

text \<open>An entry after \<open>memset\<close> to zero.\<close>

definition empty_entry :: "('k, 'v) cad_hash_entry" where
  "empty_entry = \<lparr>he_key = \<lparr>hk_key = NULL, hk_hash = 0\<rparr>, he_value = NULL\<rparr>"

definition free_key :: "'k \<Rightarrow> 'k multiset \<Rightarrow> 'k multiset option" where
  "free_key k live = (if k \<in># live then Some (live - {#k#}) else None)"

section \<open>The keys manager for C strings\<close>

fun string_hash_from :: "u32 \<Rightarrow> cstring \<Rightarrow> u32" where
  "string_hash_from result [] = result"
| "string_hash_from result (c # s) = string_hash_from (result * 92821 + word_of_int (char_int c)) s"

definition string_hash :: "cstring \<Rightarrow> u32" where
  "string_hash key = string_hash_from 0 key"

text \<open>\<open>strcmp\<close> compares the bytes as \<open>unsigned char\<close>.\<close>

fun strcmp :: "cstring \<Rightarrow> cstring \<Rightarrow> int" where
  "strcmp [] [] = 0"
| "strcmp [] (d # t) = -1"
| "strcmp (c # s) [] = 1"
| "strcmp (c # s) (d # t) =
     (if c = d then strcmp s t
      else if (of_char c :: nat) < of_char d then -1 else 1)"

definition cad_hash_strings :: "cstring cad_hash_keys" where
  "cad_hash_strings = \<lparr>keys_hash = string_hash, keys_compare = strcmp, keys_clone = (\<lambda>s. s)\<rparr>"

section \<open>Probing\<close>

definition hash_key :: "'k \<Rightarrow> 'k cad_hash_keys \<Rightarrow> u32 \<Rightarrow> 'k cad_hash_key" where
  "hash_key key keys salt = \<lparr>hk_key = Some key, hk_hash = keys_hash keys key + salt\<rparr>"

text \<open>
  The loop of \<open>index_of\<close>: it stops at the first slot of the probe sequence that is empty
  or holds an equal key, and does not return if there is none.
\<close>

partial_function (option) index_of_loop ::
  "('k, 'v) cad_hash_entry list \<Rightarrow> 'k cad_hash_keys \<Rightarrow> nat \<Rightarrow> 'k ptr \<Rightarrow> index_context
    \<Rightarrow> (nat \<times> 'k ptr \<times> index_context) option" where
  "index_of_loop entries keys capacity key context =
     (let result = unat (index context) mod capacity in
      do {
        e \<leftarrow> nth_opt entries result;
        (case ekey e of
           None \<Rightarrow> Some (result, None, context)
         | Some k \<Rightarrow> do {
             key' \<leftarrow> key;
             if keys_compare keys key' k = 0 then Some (result, Some k, context)
             else index_of_loop entries keys capacity key (next_index_of context)
           })
      })"

definition index_of ::
  "('k, 'v) cad_hash_entry list \<Rightarrow> 'k cad_hash_keys \<Rightarrow> nat \<Rightarrow> 'k cad_hash_key
    \<Rightarrow> (int \<times> index_context) option" where
  "index_of entries keys capacity key = do {
     (result, k, context) \<leftarrow>
       index_of_loop entries keys capacity (hk_key key) \<lparr>index = hk_hash key, perturb = hk_hash key\<rparr>;
     Some (if k = None then - int result - 1 else int result, context)
   }"

section \<open>Rehashing and growth\<close>

text \<open>
  \<open>rehash\<close> looks for an entry whose chain is broken, moves it to the empty slot its probe
  sequence finds, and starts again.
\<close>

definition move_entry ::
  "('k, 'v) cad_hash_entry list \<Rightarrow> nat \<Rightarrow> nat \<Rightarrow> ('k, 'v) cad_hash_entry list" where
  "move_entry es i j =
     (let e = es ! i; es1 = es[j := (es ! j)\<lparr>he_key := he_key e, he_value := he_value e\<rparr>]
      in es1[i := (es1 ! i)\<lparr>he_key := (he_key (es1 ! i))\<lparr>hk_key := NULL\<rparr>, he_value := NULL\<rparr>])"

partial_function (option) rehash_from ::
  "nat \<Rightarrow> ('k, 'v) cad_hash_impl \<Rightarrow> ('k, 'v) cad_hash_impl option" where
  "rehash_from i this =
     (if i < hi_capacity this then do {
        e \<leftarrow> nth_opt (hi_entries this) i;
        (case ekey e of
           None \<Rightarrow> rehash_from (Suc i) this
         | Some k \<Rightarrow> do {
             (index, _) \<leftarrow> index_of (hi_entries this) (hi_keys this) (hi_capacity this) (he_key e);
             if index < 0 then
               rehash_from 0 (this\<lparr>hi_entries := move_entry (hi_entries this) i (nat (- index - 1))\<rparr>)
             else rehash_from (Suc i) this
           })
      } else Some this)"

definition rehash :: "('k, 'v) cad_hash_impl \<Rightarrow> ('k, 'v) cad_hash_impl option" where
  "rehash this = rehash_from 0 this"

text \<open>The copy loop of \<open>grow\<close>: each occupied entry goes to the slot found in the new table.\<close>

fun grow_copy ::
  "'k cad_hash_keys \<Rightarrow> nat \<Rightarrow> ('k, 'v) cad_hash_entry list \<Rightarrow> ('k, 'v) cad_hash_entry list
    \<Rightarrow> ('k, 'v) cad_hash_entry list option" where
  "grow_copy keys new_capacity [] new_entries = Some new_entries"
| "grow_copy keys new_capacity (old # olds) new_entries =
     (if ekey old = None then grow_copy keys new_capacity olds new_entries
      else do {
        (i, _) \<leftarrow> index_of new_entries keys new_capacity (he_key old);
        new_entries' \<leftarrow> upd_at new_entries (- i - 1) old;
        grow_copy keys new_capacity olds new_entries'
      })"

definition hash_grow :: "('k, 'v) cad_hash_impl \<Rightarrow> nat \<Rightarrow> ('k, 'v) cad_hash_impl option" where
  "hash_grow this grow_factor =
     (if hi_capacity this = 0 then do {
        new_capacity \<leftarrow> c_int (grow_factor * grow_factor);
        Some (this\<lparr>hi_entries := replicate new_capacity empty_entry, hi_capacity := new_capacity\<rparr>)
      } else do {
        new_capacity \<leftarrow> c_int (hi_capacity this * grow_factor);
        new_entries \<leftarrow> grow_copy (hi_keys this) new_capacity (hi_entries this)
                         (replicate new_capacity empty_entry);
        Some (this\<lparr>hi_entries := new_entries, hi_capacity := new_capacity\<rparr>)
      })"

section \<open>Operations\<close>

definition hash_count :: "('k, 'v) cad_hash_impl \<Rightarrow> nat" where
  "hash_count this = hi_count this"

definition hash_get :: "('k, 'v) cad_hash_impl \<Rightarrow> 'k \<Rightarrow> 'v ptr option" where
  "hash_get this key =
     (if hi_count this \<noteq> 0 then do {
        (index, _) \<leftarrow> index_of (hi_entries this) (hi_keys this) (hi_capacity this)
                        (hash_key key (hi_keys this) (hi_salt this));
        if 0 \<le> index then do {
          e \<leftarrow> nth_opt (hi_entries this) (nat index);
          Some (he_value e)
        } else Some NULL
      } else Some NULL)"

text \<open>The branch of \<open>set\<close> for a key that is not in the table yet.\<close>

definition hash_set_new ::
  "('k, 'v) cad_hash_impl \<Rightarrow> 'k \<Rightarrow> 'k cad_hash_key \<Rightarrow> int \<Rightarrow> (('k, 'v) cad_hash_impl \<times> int) option" where
  "hash_set_new this key hkey idx = do {
     count3 \<leftarrow> c_int (hi_count this * 3);
     capacity2 \<leftarrow> c_int (hi_capacity this * 2);
     (this1, index1) \<leftarrow>
       (if capacity2 \<le> count3 then do {
          grown \<leftarrow> hash_grow this 2;
          (i, _) \<leftarrow> index_of (hi_entries grown) (hi_keys grown) (hi_capacity grown) hkey;
          Some (grown, i)
        } else Some (this, idx));
     let index2 = - index1 - 1;
     let copy = keys_clone (hi_keys this1) key;
     e \<leftarrow> nth_opt (hi_entries this1) (nat index2);
     entries \<leftarrow> upd_at (hi_entries this1) index2 (e\<lparr>he_key := hkey\<lparr>hk_key := Some copy\<rparr>\<rparr>);
     Some (this1\<lparr>hi_entries := entries, hi_count := hi_count this1 + 1,
                 hi_live := add_mset copy (hi_live this1)\<rparr>, index2)
   }"

definition hash_set ::
  "('k, 'v) cad_hash_impl \<Rightarrow> 'k \<Rightarrow> 'v ptr \<Rightarrow> ('v ptr \<times> ('k, 'v) cad_hash_impl) option" where
  "hash_set this key value = do {
     let hkey = hash_key key (hi_keys this) (hi_salt this);
     this0 \<leftarrow> (if hi_capacity this = 0 then hash_grow this 2 else Some this);
     (idx, _) \<leftarrow> index_of (hi_entries this0) (hi_keys this0) (hi_capacity this0) hkey;
     (result, this1, index1) \<leftarrow>
       (if 0 \<le> idx then do {
          e \<leftarrow> nth_opt (hi_entries this0) (nat idx);
          Some (he_value e, this0, idx)
        } else do {
          (this1, index1) \<leftarrow> hash_set_new this0 key hkey idx;
          Some (NULL, this1, index1)
        });
     e \<leftarrow> nth_opt (hi_entries this1) (nat index1);
     entries \<leftarrow> upd_at (hi_entries this1) index1 (e\<lparr>he_value := value\<rparr>);
     Some (result, this1\<lparr>hi_entries := entries\<rparr>)
   }"

definition hash_del ::
  "('k, 'v) cad_hash_impl \<Rightarrow> 'k \<Rightarrow> ('v ptr \<times> ('k, 'v) cad_hash_impl) option" where
  "hash_del this key =
     (if hi_count this \<noteq> 0 then do {
        let hkey = hash_key key (hi_keys this) (hi_salt this);
        (idx, _) \<leftarrow> index_of (hi_entries this) (hi_keys this) (hi_capacity this) hkey;
        if 0 \<le> idx then do {
          e \<leftarrow> nth_opt (hi_entries this) (nat idx);
          k \<leftarrow> ekey e;
          live \<leftarrow> free_key k (hi_live this);
          entries \<leftarrow> upd_at (hi_entries this) idx
                       (e\<lparr>he_key := (he_key e)\<lparr>hk_key := NULL\<rparr>, he_value := NULL\<rparr>);
          this' \<leftarrow> rehash (this\<lparr>hi_entries := entries, hi_count := hi_count this - 1, hi_live := live\<rparr>);
          Some (he_value e, this')
        } else Some (NULL, this)
      } else Some (NULL, this))"

text \<open>
  \<open>iterate_\<close>: the iterator gets the position of the entry among the occupied ones, its key
  and its value, and updates the caller's data; \<open>clean\<close> releases the keys on the way. The
  loop runs until it has seen \<open>count\<close> entries and is not bounded by the capacity.
\<close>

type_synonym ('k, 'v, 's) hash_iterator = "nat \<Rightarrow> 'k \<Rightarrow> 'v ptr \<Rightarrow> 's \<Rightarrow> 's"

function iterate_loop ::
  "('k, 'v) cad_hash_impl \<Rightarrow> ('k, 'v, 's) hash_iterator \<Rightarrow> bool \<Rightarrow> nat \<Rightarrow> nat
    \<Rightarrow> 'k multiset \<Rightarrow> 's \<Rightarrow> ('k multiset \<times> 's) option" where
  "iterate_loop this iterator clean i idx live data =
     (if idx < hi_count this then
        (case nth_opt (hi_entries this) i of
           None \<Rightarrow> None
         | Some entry \<Rightarrow>
             (case ekey entry of
                None \<Rightarrow> iterate_loop this iterator clean (Suc i) idx live data
              | Some k \<Rightarrow>
                  (case (if clean then free_key k live else Some live) of
                     None \<Rightarrow> None
                   | Some live' \<Rightarrow>
                       iterate_loop this iterator clean (Suc i) (Suc idx) live'
                         (iterator idx k (he_value entry) data))))
      else Some (live, data))"
  by pat_completeness auto
termination
  by (relation "measure (\<lambda>(this, _, _, i, _, _, _). length (hi_entries this) - i)") auto

declare iterate_loop.simps [simp del]

definition hash_iterate ::
  "('k, 'v) cad_hash_impl \<Rightarrow> ('k, 'v, 's) hash_iterator \<Rightarrow> 's \<Rightarrow> 's option" where
  "hash_iterate this iterator data =
     map_option snd (iterate_loop this iterator False 0 0 (hi_live this) data)"

definition hash_clean ::
  "('k, 'v) cad_hash_impl \<Rightarrow> ('k, 'v, 's) hash_iterator \<Rightarrow> 's \<Rightarrow> ('s \<times> ('k, 'v) cad_hash_impl) option" where
  "hash_clean this iterator data = do {
     (live, data') \<leftarrow> iterate_loop this iterator True 0 0 (hi_live this) data;
     Some (data', this\<lparr>hi_live := live, hi_count := 0,
                       hi_entries := replicate (hi_capacity this) empty_entry\<rparr>)
   }"

text \<open>\<open>free_\<close> releases the keys and the table; what it returns is the copies still allocated.\<close>

function free_loop :: "('k, 'v) cad_hash_impl \<Rightarrow> nat \<Rightarrow> nat \<Rightarrow> 'k multiset \<Rightarrow> 'k multiset option" where
  "free_loop this i idx live =
     (if idx < hi_count this then
        (case nth_opt (hi_entries this) i of
           None \<Rightarrow> None
         | Some entry \<Rightarrow>
             (case ekey entry of
                None \<Rightarrow> free_loop this (Suc i) idx live
              | Some k \<Rightarrow>
                  (case free_key k live of
                     None \<Rightarrow> None
                   | Some live' \<Rightarrow> free_loop this (Suc i) (Suc idx) live')))
      else Some live)"
  by pat_completeness auto
termination
  by (relation "measure (\<lambda>(this, i, _, _). length (hi_entries this) - i)") auto

declare free_loop.simps [simp del]

definition hash_free :: "('k, 'v) cad_hash_impl \<Rightarrow> 'k multiset option" where
  "hash_free this = free_loop this 0 0 (hi_live this)"

section \<open>Creation and salt\<close>

text \<open>
  The pseudo-random generator of the C library is a parameter: \<open>srand\<close> gives its state for
  a seed and \<open>rand\<close> draws from it. \<open>dev_random\<close> is what reading /dev/random gives: \<open>None\<close>
  when it cannot be opened, \<open>Some None\<close> when nothing is read.
\<close>

definition init_rand :: "(int \<Rightarrow> 'r) \<Rightarrow> int option option \<Rightarrow> int \<Rightarrow> 'r" where
  "init_rand srand dev_random now =
     (case dev_random of
        None \<Rightarrow> srand now
      | Some None \<Rightarrow> srand now
      | Some (Some seed) \<Rightarrow> srand seed)"

text \<open>The state is \<open>None\<close> until the first call has initialised the generator.\<close>

definition default_hash_salt ::
  "(int \<Rightarrow> 'r) \<Rightarrow> ('r \<Rightarrow> int \<times> 'r) \<Rightarrow> int option option \<Rightarrow> int \<Rightarrow> 'r option \<Rightarrow> int \<times> 'r option" where
  "default_hash_salt srand rand dev_random now init =
     (let r = (case init of None \<Rightarrow> init_rand srand dev_random now | Some r \<Rightarrow> r);
          (salt, r') = rand r
      in (salt, Some r'))"

text \<open>\<open>set_hash_salt\<close> selects the salt function: the given one, or the default for \<open>NULL\<close>.\<close>

definition set_hash_salt :: "('w \<Rightarrow> int \<times> 'w) \<Rightarrow> ('w \<Rightarrow> int \<times> 'w) ptr \<Rightarrow> ('w \<Rightarrow> int \<times> 'w)" where
  "set_hash_salt default_salt new_salt = (case new_salt of None \<Rightarrow> default_salt | Some f \<Rightarrow> f)"

text \<open>\<open>malloc_ok\<close> tells whether the allocation of the table succeeds.\<close>

definition cad_new_hash ::
  "bool \<Rightarrow> ('w \<Rightarrow> int \<times> 'w) \<Rightarrow> 'w \<Rightarrow> 'k cad_hash_keys \<Rightarrow> ('k, 'v) cad_hash_impl ptr \<times> 'w" where
  "cad_new_hash malloc_ok hash_salt w keys =
     (if \<not> malloc_ok then (NULL, w)
      else let (salt, w') = hash_salt w in
        (Some \<lparr>hi_keys = keys, hi_capacity = 0, hi_count = 0, hi_salt = word_of_int salt,
               hi_entries = [], hi_live = {#}\<rparr>, w'))"

section \<open>The interface\<close>

text \<open>\<open>struct cad_hash_s\<close>, the functions that a client calls through, in the order of their slots.\<close>

record ('k, 'v, 's) cad_hash =
  hash_free_slot :: "('k, 'v) cad_hash_impl \<Rightarrow> 'k multiset option"
  hash_count_slot :: "('k, 'v) cad_hash_impl \<Rightarrow> nat"
  hash_iterate_slot :: "('k, 'v) cad_hash_impl \<Rightarrow> ('k, 'v, 's) hash_iterator \<Rightarrow> 's \<Rightarrow> 's option"
  hash_get_slot :: "('k, 'v) cad_hash_impl \<Rightarrow> 'k \<Rightarrow> 'v ptr option"
  hash_set_slot :: "('k, 'v) cad_hash_impl \<Rightarrow> 'k \<Rightarrow> 'v ptr \<Rightarrow> ('v ptr \<times> ('k, 'v) cad_hash_impl) option"
  hash_del_slot :: "('k, 'v) cad_hash_impl \<Rightarrow> 'k \<Rightarrow> ('v ptr \<times> ('k, 'v) cad_hash_impl) option"
  hash_clean_slot :: "('k, 'v) cad_hash_impl \<Rightarrow> ('k, 'v, 's) hash_iterator \<Rightarrow> 's \<Rightarrow> ('s \<times> ('k, 'v) cad_hash_impl) option"

definition hash_fn :: "('k, 'v, 's) cad_hash" where
  "hash_fn =
     \<lparr>hash_free_slot = hash_free,
      hash_count_slot = hash_count,
      hash_iterate_slot = hash_iterate,
      hash_get_slot = hash_get,
      hash_set_slot = hash_set,
      hash_del_slot = hash_del,
      hash_clean_slot = hash_clean\<rparr>"

end
