(* ===== verification/Cad_Hash_Laws.thy ===== *)
theory Cad_Hash_Laws
  imports Cad_Hash
begin

text \<open>
  The laws of the hash table. The table is seen through two views: \<open>contents\<close>, the
  multiset of its occupied entries, and \<open>all_reach\<close>, which says that the probe sequence of
  every entry meets only occupied slots before it reaches the entry. Lookups depend on the
  contents as long as every entry is reachable; deletion breaks reachability and \<open>rehash\<close>
  restores it without changing the contents.

  The locale \<open>hash_keys\<close> is the contract of the keys manager (include/cad_hash.h); the
  laws are proved inside it and hold for the C string keys by interpretation.
\<close>

section \<open>Views of the table\<close>

definition contents :: "('k, 'v) cad_hash_entry list \<Rightarrow> ('k cad_hash_key \<times> 'v ptr) multiset" where
  "contents es = image_mset (\<lambda>e. (he_key e, he_value e)) (filter_mset (\<lambda>e. ekey e \<noteq> None) (mset es))"

definition key_of :: "'k cad_hash_key \<times> 'v ptr \<Rightarrow> 'k" where
  "key_of x = the (hk_key (fst x))"

lemma key_of_hash_key [simp]: "key_of (hash_key k ks salt, v) = k"
  by (simp add: key_of_def hash_key_def)

definition reach :: "('k, 'v) cad_hash_entry list \<Rightarrow> u32 \<Rightarrow> nat \<Rightarrow> bool" where
  "reach es h i \<longleftrightarrow>
     (\<exists>n. slot (length es) h n = i \<and> (\<forall>m < n. ekey (es ! slot (length es) h m) \<noteq> None))"

definition all_reach :: "('k, 'v) cad_hash_entry list \<Rightarrow> bool" where
  "all_reach es \<longleftrightarrow> (\<forall>i < length es. ekey (es ! i) \<noteq> None \<longrightarrow> reach es (ehash (es ! i)) i)"

definition keys_ok ::
  "'k cad_hash_keys \<Rightarrow> u32 \<Rightarrow> ('k cad_hash_key \<times> 'v ptr) multiset \<Rightarrow> bool" where
  "keys_ok ks salt M \<longleftrightarrow>
     (\<forall>x \<in># M. fst x = hash_key (key_of x) ks salt) \<and>
     (\<forall>x y. {#x, y#} \<subseteq># M \<longrightarrow> keys_compare ks (key_of x) (key_of y) \<noteq> 0)"

definition pow2_capacity :: "nat \<Rightarrow> bool" where
  "pow2_capacity cap \<longleftrightarrow> (\<exists>k. 2 \<le> k \<and> k \<le> 30 \<and> cap = 2 ^ k)"

text \<open>Where the loop of \<open>index_of\<close> stops.\<close>

definition stops ::
  "'k cad_hash_keys \<Rightarrow> ('k, 'v) cad_hash_entry list \<Rightarrow> 'k \<Rightarrow> u32 \<Rightarrow> nat \<Rightarrow> bool" where
  "stops ks es key h n \<longleftrightarrow>
     (case ekey (es ! slot (length es) h n) of
        None \<Rightarrow> True
      | Some k \<Rightarrow> keys_compare ks key k = 0)"

section \<open>Contents of an updated table\<close>

lemma contents_empty [simp]: "contents (replicate n empty_entry) = {#}"
  by (induction n) (auto simp: contents_def empty_entry_def)

lemma contents_Nil [simp]: "contents [] = {#}"
  by (simp add: contents_def)

lemma contents_Cons:
  "contents (e # es) =
     (if ekey e = None then contents es else add_mset (he_key e, he_value e) (contents es))"
  by (simp add: contents_def)

lemma in_contents_iff:
  "x \<in># contents es \<longleftrightarrow>
     (\<exists>i < length es. ekey (es ! i) \<noteq> None \<and> x = (he_key (es ! i), he_value (es ! i)))"
  by (auto simp: contents_def in_set_conv_nth)

lemma contents_fill:
  "j < length es \<Longrightarrow> ekey (es ! j) = None \<Longrightarrow> ekey x \<noteq> None \<Longrightarrow>
   contents (es[j := x]) = add_mset (he_key x, he_value x) (contents es)"
  by (simp add: contents_def mset_update)

lemma contents_clear:
  "i < length es \<Longrightarrow> ekey (es ! i) \<noteq> None \<Longrightarrow> ekey y = None \<Longrightarrow>
   contents es = add_mset (he_key (es ! i), he_value (es ! i)) (contents (es[i := y]))"
proof -
  assume *: "i < length es" "ekey (es ! i) \<noteq> None" "ekey y = None"
  have "contents ((es[i := y])[i := es ! i]) =
      add_mset (he_key (es ! i), he_value (es ! i)) (contents (es[i := y]))"
    by (rule contents_fill) (use * in auto)
  then show ?thesis by simp
qed

lemma contents_pair:
  assumes "i < length es" "j < length es" "i \<noteq> j" "ekey (es ! i) \<noteq> None" "ekey (es ! j) \<noteq> None"
  shows "{#(he_key (es ! i), he_value (es ! i)), (he_key (es ! j), he_value (es ! j))#} \<subseteq># contents es"
proof -
  have "contents es =
      add_mset (he_key (es ! i), he_value (es ! i)) (contents (es[i := empty_entry]))"
    by (rule contents_clear) (use assms in \<open>auto simp: empty_entry_def\<close>)
  moreover have "(he_key (es ! j), he_value (es ! j)) \<in># contents (es[i := empty_entry])"
    unfolding in_contents_iff using assms by (intro exI [of _ j]) auto
  ultimately show ?thesis by simp
qed

lemma size_contents: "size (contents es) = length (filter (\<lambda>e. ekey e \<noteq> None) es)"
  by (simp add: contents_def flip: mset_filter)

lemma empty_slot_exists:
  assumes "size (contents es) < length es"
  shows "\<exists>i < length es. ekey (es ! i) = None"
proof (rule ccontr)
  assume "\<not> ?thesis"
  then have "filter (\<lambda>e. ekey e \<noteq> None) es = es"
    by (auto simp: filter_id_conv in_set_conv_nth)
  with assms show False by (simp add: size_contents)
qed

section \<open>Probing\<close>

lemma pow2_capacity_pos: "pow2_capacity cap \<Longrightarrow> 4 \<le> cap"
  unfolding pow2_capacity_def using power_increasing [of 2 _ "2::nat"] by fastforce

lemma pow2_capacity_le: "pow2_capacity cap \<Longrightarrow> cap \<le> 2 ^ 30"
  unfolding pow2_capacity_def using power_increasing [of _ 30 "2::nat"] by fastforce

lemma pow2_capacity_double: "pow2_capacity cap \<Longrightarrow> cap \<le> 2 ^ 29 \<Longrightarrow> pow2_capacity (cap * 2)"
proof -
  assume "pow2_capacity cap" "cap \<le> 2 ^ 29"
  then obtain k where k: "2 \<le> k" "cap = 2 ^ k" "(2::nat) ^ k \<le> 2 ^ 29"
    by (auto simp: pow2_capacity_def)
  then have "k \<le> 29" by (metis one_less_numeral_iff power_le_imp_le_exp semiring_norm(76))
  with k have "2 \<le> Suc k \<and> Suc k \<le> 30 \<and> cap * 2 = 2 ^ Suc k" by simp
  then show ?thesis unfolding pow2_capacity_def by blast
qed

lemma pow2_capacity_4: "pow2_capacity 4"
  unfolding pow2_capacity_def by (rule exI [of _ 2]) simp

lemma pow2_covers:
  assumes "pow2_capacity cap" "s < cap"
  shows "\<exists>n. slot cap h n = s"
proof -
  from assms obtain k where "k \<le> 32" "cap = 2 ^ k" by (auto simp: pow2_capacity_def)
  with assms(2) show ?thesis using probe_covers by blast
qed

lemma index_of_loop_first:
  assumes len: "length es = cap" "0 < cap"
    and N: "stops ks es key h N" and before: "\<And>m. m < N \<Longrightarrow> \<not> stops ks es key h m"
    and m: "m \<le> N"
  shows "index_of_loop es ks cap (Some key) (probe h m) =
    Some (slot cap h N, ekey (es ! slot cap h N), probe h N)"
  using m
proof (induction "N - m" arbitrary: m)
  case 0
  with N len show ?case
    by (subst index_of_loop.simps) (auto simp: stops_def slot_def nth_opt_def Let_def split: option.splits)
next
  case (Suc d)
  then have "m < N" by simp
  with before len obtain k where k: "ekey (es ! slot cap h m) = Some k" "keys_compare ks key k \<noteq> 0"
    by (fastforce simp: stops_def split: option.splits)
  have "index_of_loop es ks cap (Some key) (probe h m) =
      index_of_loop es ks cap (Some key) (probe h (Suc m))"
    using k len by (subst index_of_loop.simps) (simp add: slot_def nth_opt_def Let_def probe_Suc)
  with Suc show ?case by simp
qed

lemma index_of_first:
  assumes "length es = cap" "0 < cap" "stops ks es key h N" "\<And>m. m < N \<Longrightarrow> \<not> stops ks es key h m"
  shows "index_of es ks cap \<lparr>hk_key = Some key, hk_hash = h\<rparr> =
    Some (if ekey (es ! slot cap h N) = None then - int (slot cap h N) - 1 else int (slot cap h N), probe h N)"
  using index_of_loop_first [OF assms, of 0] by (simp add: index_of_def)

text \<open>\<open>index_of\<close> returns as soon as the table has a slot that is empty or holds an equal key.\<close>

definition stop_cell :: "'k cad_hash_keys \<Rightarrow> 'k \<Rightarrow> ('k, 'v) cad_hash_entry \<Rightarrow> bool" where
  "stop_cell ks key e \<longleftrightarrow> (case ekey e of None \<Rightarrow> True | Some k \<Rightarrow> keys_compare ks key k = 0)"

lemma index_of_stops:
  assumes "length es = cap" "pow2_capacity cap" "s < cap" "stop_cell ks key (es ! s)"
  obtains N where "stops ks es key h N" "\<And>m. m < N \<Longrightarrow> \<not> stops ks es key h m"
    "index_of es ks cap \<lparr>hk_key = Some key, hk_hash = h\<rparr> =
     Some (if ekey (es ! slot cap h N) = None then - int (slot cap h N) - 1 else int (slot cap h N), probe h N)"
proof -
  obtain n where "slot cap h n = s" using pow2_covers assms(2,3) by blast
  then have "stops ks es key h n" using assms(1,4) by (simp add: stops_def stop_cell_def)
  then have L: "stops ks es key h (LEAST n. stops ks es key h n)" by (rule LeastI)
  have B: "\<And>m. m < (LEAST n. stops ks es key h n) \<Longrightarrow> \<not> stops ks es key h m" by (rule not_less_Least)
  have "0 < cap" using pow2_capacity_pos assms(2) by force
  from that [OF L B index_of_first [OF assms(1) this L B]] show ?thesis by blast
qed

lemma index_of_total:
  assumes "length es = cap" "pow2_capacity cap" "size (contents es) < cap"
  obtains N where "stops ks es key h N" "\<And>m. m < N \<Longrightarrow> \<not> stops ks es key h m"
    "index_of es ks cap \<lparr>hk_key = Some key, hk_hash = h\<rparr> =
     Some (if ekey (es ! slot cap h N) = None then - int (slot cap h N) - 1 else int (slot cap h N), probe h N)"
proof -
  obtain s where s: "s < cap" "ekey (es ! s) = None" using empty_slot_exists assms by blast
  then have "stop_cell ks key (es ! s)" by (simp add: stop_cell_def)
  from index_of_stops [OF assms(1,2) s(1) this] that show ?thesis by blast
qed

section \<open>Moving an entry\<close>

lemma length_move_entry [simp]: "length (move_entry es i j) = length es"
  by (simp add: move_entry_def Let_def)

lemma nth_move_entry:
  assumes "i < length es" "j < length es" "i \<noteq> j"
  shows "ekey (move_entry es i j ! x) = (if x = i then None else if x = j then ekey (es ! i) else ekey (es ! x))"
    and "x \<noteq> i \<Longrightarrow> ehash (move_entry es i j ! x) = (if x = j then ehash (es ! i) else ehash (es ! x))"
    and "x \<noteq> i \<Longrightarrow> he_key (move_entry es i j ! x) = (if x = j then he_key (es ! i) else he_key (es ! x))"
  using assms by (auto simp: move_entry_def Let_def nth_list_update)

lemma contents_move_entry:
  assumes "i < length es" "j < length es" "ekey (es ! i) \<noteq> None" "ekey (es ! j) = None"
  shows "contents (move_entry es i j) = contents es"
proof -
  have ij: "i \<noteq> j" using assms by auto
  define es1 where "es1 = es[j := (es ! j)\<lparr>he_key := he_key (es ! i), he_value := he_value (es ! i)\<rparr>]"
  define y where "y = (es1 ! i)\<lparr>he_key := (he_key (es1 ! i))\<lparr>hk_key := NULL\<rparr>, he_value := NULL\<rparr>"
  have 1: "contents es1 = add_mset (he_key (es ! i), he_value (es ! i)) (contents es)"
    unfolding es1_def using assms by (subst contents_fill) auto
  have "contents es1 = add_mset (he_key (es1 ! i), he_value (es1 ! i)) (contents (es1[i := y]))"
    by (rule contents_clear) (use assms ij in \<open>auto simp: es1_def y_def\<close>)
  moreover have "es1 ! i = es ! i" using ij by (simp add: es1_def)
  moreover have "move_entry es i j = es1[i := y]"
    by (simp add: move_entry_def Let_def es1_def y_def)
  ultimately show ?thesis using 1 by simp
qed

text \<open>The position of a slot in a probe sequence, and the sum of the positions of all entries.\<close>

definition probe_pos :: "nat \<Rightarrow> u32 \<Rightarrow> nat \<Rightarrow> nat" where
  "probe_pos cap h i = (LEAST n. slot cap h n = i)"

definition displacement :: "('k, 'v) cad_hash_entry list \<Rightarrow> nat" where
  "displacement es =
     (\<Sum>i | i < length es \<and> ekey (es ! i) \<noteq> None. probe_pos (length es) (ehash (es ! i)) i)"

lemma slot_probe_pos:
  assumes "pow2_capacity cap" "i < cap"
  shows "slot cap h (probe_pos cap h i) = i"
  unfolding probe_pos_def by (rule LeastI_ex) (rule pow2_covers [OF assms])

lemma probe_pos_le: "slot cap h n = i \<Longrightarrow> probe_pos cap h i \<le> n"
  unfolding probe_pos_def by (rule Least_le)

lemma displacement_move_entry:
  assumes i: "i < length es" "ekey (es ! i) \<noteq> None" and j: "j < length es" "ekey (es ! j) = None"
    and less: "probe_pos (length es) (ehash (es ! i)) j < probe_pos (length es) (ehash (es ! i)) i"
  shows "displacement (move_entry es i j) < displacement es"
proof -
  let ?P = "{x. x < length es \<and> ekey (es ! x) \<noteq> None}"
  let ?pos = "\<lambda>x. probe_pos (length es) (ehash (es ! x)) x"
  have ij: "i \<noteq> j" using i j by auto
  note nth = nth_move_entry [OF i(1) j(1) ij]
  have P': "{x. x < length es \<and> ekey (move_entry es i j ! x) \<noteq> None} = insert j (?P - {i})"
    using i j ij by (auto simp: nth)
  have jP: "j \<notin> ?P - {i}" using j by simp
  have "displacement (move_entry es i j) =
      probe_pos (length es) (ehash (es ! i)) j + (\<Sum>x \<in> ?P - {i}. ?pos x)"
  proof -
    have "(\<Sum>x \<in> ?P - {i}. probe_pos (length es) (ehash (move_entry es i j ! x)) x) = (\<Sum>x \<in> ?P - {i}. ?pos x)"
    proof (rule sum.cong)
      fix x assume "x \<in> ?P - {i}"
      then have "x \<noteq> i" "x \<noteq> j" using j by auto
      then show "probe_pos (length es) (ehash (move_entry es i j ! x)) x = ?pos x" by (simp add: nth(2))
    qed simp
    moreover have "ehash (move_entry es i j ! j) = ehash (es ! i)" using ij by (simp add: nth(2))
    ultimately show ?thesis
      unfolding displacement_def length_move_entry P' using jP by (subst sum.insert) auto
  qed
  moreover have "displacement es = ?pos i + (\<Sum>x \<in> ?P - {i}. ?pos x)"
    unfolding displacement_def by (rule sum.remove) (use i in auto)
  ultimately show ?thesis using less by simp
qed

section \<open>Reachability\<close>

lemma reach_mono:
  assumes "reach es h i" "length es' = length es"
    and "\<And>x. ekey (es ! x) \<noteq> None \<Longrightarrow> ekey (es' ! x) \<noteq> None"
  shows "reach es' h i"
  using assms unfolding reach_def by metis

lemma all_reachD: "all_reach es \<Longrightarrow> i < length es \<Longrightarrow> ekey (es ! i) = Some k \<Longrightarrow> reach es (ehash (es ! i)) i"
  by (simp add: all_reach_def)

lemma all_reach_empty [simp]: "all_reach (replicate n empty_entry)"
  by (simp add: all_reach_def empty_entry_def)

lemma all_reach_Nil [simp]: "all_reach []"
  by (simp add: all_reach_def)

text \<open>An entry stored where its probe sequence first finds an empty slot is reachable.\<close>

lemma all_reach_fill:
  assumes "all_reach es" "s < length es" "ekey x = Some k"
    and "slot (length es) (ehash x) N = s" "\<And>m. m < N \<Longrightarrow> ekey (es ! slot (length es) (ehash x) m) \<noteq> None"
  shows "all_reach (es[s := x])"
  unfolding all_reach_def
proof (intro allI impI)
  fix i assume i: "i < length (es[s := x])" "ekey (es[s := x] ! i) \<noteq> None"
  have mono: "\<And>y. ekey (es ! y) \<noteq> None \<Longrightarrow> ekey (es[s := x] ! y) \<noteq> None"
    using assms(2,3) by (metis nth_list_update_eq nth_list_update_neq option.distinct(1))
  show "reach (es[s := x]) (ehash (es[s := x] ! i)) i"
  proof (cases "i = s")
    case True
    have "reach (es[s := x]) (ehash x) s"
      unfolding reach_def length_list_update using assms(4,5) mono by blast
    then show ?thesis using True assms(2) by simp
  next
    case False
    then have "reach es (ehash (es ! i)) i" using assms(1) i by (auto simp: all_reach_def)
    then show ?thesis using False mono by (auto intro: reach_mono)
  qed
qed

section \<open>Lookups\<close>

lemma keys_okD:
  "keys_ok ks salt M \<Longrightarrow> x \<in># M \<Longrightarrow> fst x = hash_key (key_of x) ks salt"
  by (auto simp: keys_ok_def)

lemma keys_ok_distinct:
  assumes "keys_ok ks salt (contents es)" "i < length es" "j < length es"
    and "ekey (es ! i) = Some k" "ekey (es ! j) = Some k'" "keys_compare ks k k' = 0"
  shows "i = j"
proof (rule ccontr)
  assume "i \<noteq> j"
  then have "{#(he_key (es ! i), he_value (es ! i)), (he_key (es ! j), he_value (es ! j))#} \<subseteq># contents es"
    by (rule contents_pair [OF assms(2,3)]) (use assms in auto)
  with assms(1) have "keys_compare ks (key_of (he_key (es ! i), he_value (es ! i)))
      (key_of (he_key (es ! j), he_value (es ! j))) \<noteq> 0"
    unfolding keys_ok_def by blast
  with assms show False by (simp add: key_of_def)
qed

lemma keys_ok_entry:
  assumes "keys_ok ks salt (contents es)" "i < length es" "ekey (es ! i) = Some k"
  shows "he_key (es ! i) = hash_key k ks salt"
  using keys_okD [OF assms(1), of "(he_key (es ! i), he_value (es ! i))"] assms(2,3)
  by (auto simp: in_contents_iff key_of_def)

lemma keys_ok_empty [simp]: "keys_ok ks salt {#}"
  by (simp add: keys_ok_def)

locale hash_keys =
  fixes ks :: "'k cad_hash_keys"
  assumes compare_refl [simp]: "keys_compare ks k k = 0"
    and compare_sym: "keys_compare ks a b = 0 \<Longrightarrow> keys_compare ks b a = 0"
    and compare_trans: "keys_compare ks a b = 0 \<Longrightarrow> keys_compare ks b c = 0 \<Longrightarrow> keys_compare ks a c = 0"
    and compare_hash: "keys_compare ks a b = 0 \<Longrightarrow> keys_hash ks a = keys_hash ks b"
    and compare_clone: "keys_compare ks (keys_clone ks k) k = 0"
begin

lemma hash_key_cong: "keys_compare ks a b = 0 \<Longrightarrow> hk_hash (hash_key a ks salt) = hk_hash (hash_key b ks salt)"
  by (simp add: hash_key_def compare_hash)

lemma keys_ok_add:
  assumes "keys_ok ks salt M" "fst x = hash_key (key_of x) ks salt"
    and "\<And>y. y \<in># M \<Longrightarrow> keys_compare ks (key_of x) (key_of y) \<noteq> 0"
  shows "keys_ok ks salt (add_mset x M)"
  unfolding keys_ok_def
proof (intro conjI ballI allI impI)
  fix y z assume "{#y, z#} \<subseteq># add_mset x M"
  then have "(y = x \<and> z \<in># M) \<or> (z = x \<and> y \<in># M) \<or> {#y, z#} \<subseteq># M"
    by (auto simp: insert_subset_eq_iff subset_eq_diff_conv split: if_splits)
  then show "keys_compare ks (key_of y) (key_of z) \<noteq> 0"
  proof (elim disjE conjE)
    assume "{#y, z#} \<subseteq># M"
    with assms(1) show ?thesis unfolding keys_ok_def by blast
  qed (use assms(3) compare_sym in blast)+
qed (use assms in \<open>auto simp: keys_ok_def\<close>)

lemma keys_ok_subset: "keys_ok ks salt M \<Longrightarrow> M' \<subseteq># M \<Longrightarrow> keys_ok ks salt M'"
  unfolding keys_ok_def by (meson mset_subset_eqD subset_mset.order_trans)

text \<open>A key whose equal is in the table is found where that one is.\<close>

lemma index_of_found:
  assumes cap: "length es = cap" "pow2_capacity cap"
    and ok: "keys_ok ks salt (contents es)"
    and i: "i < cap" "ekey (es ! i) = Some k" "reach es (ehash (es ! i)) i"
    and eq: "keys_compare ks key k = 0"
  shows "\<exists>c. index_of es ks cap (hash_key key ks salt) = Some (int i, c)"
proof -
  let ?h = "keys_hash ks key + salt"
  have h: "ehash (es ! i) = ?h"
    using keys_ok_entry [OF ok _ i(2)] i(1) cap(1) compare_hash [OF eq] by (simp add: hash_key_def)
  obtain n where n: "slot cap ?h n = i" "\<forall>m<n. ekey (es ! slot cap ?h m) \<noteq> None"
    using i(3) cap(1) h by (auto simp: reach_def)
  then have "stops ks es key ?h n" using i(2) eq cap(1) by (simp add: stops_def)
  then obtain N where L: "stops ks es key ?h N" and le: "N \<le> n"
    and B: "\<And>m. m < N \<Longrightarrow> \<not> stops ks es key ?h m"
    by (metis LeastI Least_le not_less_Least)
  have N: "slot cap ?h N = i"
  proof (cases "N = n")
    case False
    with le n(2) have "ekey (es ! slot cap ?h N) \<noteq> None" by simp
    then obtain k' where k': "ekey (es ! slot cap ?h N) = Some k'" by blast
    with L cap(1) have "keys_compare ks key k' = 0" by (simp add: stops_def)
    then have "keys_compare ks k k' = 0" using eq compare_sym compare_trans by blast
    then show ?thesis
      using keys_ok_distinct [OF ok _ _ i(2) k'] i(1) cap(1) slot_less [of cap ?h N] by simp
  qed (use n in simp)
  have "0 < cap" using i(1) by simp
  from index_of_first [OF cap(1) this L B] N i(2) show ?thesis
    by (simp add: hash_key_def)
qed

text \<open>A key without an equal in the table leads to the empty slot where it belongs.\<close>

lemma index_of_absent:
  assumes cap: "length es = cap" "pow2_capacity cap" "size (contents es) < cap"
    and absent: "\<And>x. x \<in># contents es \<Longrightarrow> keys_compare ks key (key_of x) \<noteq> 0"
  shows "\<exists>s N c. index_of es ks cap \<lparr>hk_key = Some key, hk_hash = h\<rparr> = Some (- int s - 1, c) \<and>
    s < cap \<and> ekey (es ! s) = None \<and> slot cap h N = s \<and>
    (\<forall>m < N. ekey (es ! slot cap h m) \<noteq> None)"
proof -
  obtain N where N: "stops ks es key h N" "\<And>m. m < N \<Longrightarrow> \<not> stops ks es key h m"
    "index_of es ks cap \<lparr>hk_key = Some key, hk_hash = h\<rparr> =
     Some (if ekey (es ! slot cap h N) = None then - int (slot cap h N) - 1 else int (slot cap h N), probe h N)"
    using index_of_total [OF cap] by metis
  have s: "slot cap h N < cap" using pow2_capacity_pos [OF cap(2)] by simp
  have e: "ekey (es ! slot cap h N) = None"
  proof (rule ccontr)
    assume "ekey (es ! slot cap h N) \<noteq> None"
    then obtain k where k: "ekey (es ! slot cap h N) = Some k" by blast
    let ?x = "(he_key (es ! slot cap h N), he_value (es ! slot cap h N))"
    have "?x \<in># contents es" unfolding in_contents_iff using s k cap(1) by auto
    with absent have "keys_compare ks key (key_of ?x) \<noteq> 0" by blast
    with N(1) k cap(1) show False by (simp add: stops_def key_of_def)
  qed
  have "\<forall>m < N. ekey (es ! slot cap h m) \<noteq> None"
  proof (intro allI impI)
    fix m assume "m < N"
    from N(2) [OF this] show "ekey (es ! slot cap h m) \<noteq> None"
      using cap(1) by (simp add: stops_def split: option.splits)
  qed
  with N(3) s e show ?thesis by auto
qed

text \<open>An entry that \<open>index_of\<close> finds is reachable.\<close>

lemma index_of_self:
  assumes cap: "length es = cap" "pow2_capacity cap" "size (contents es) < cap"
    and ok: "keys_ok ks salt (contents es)"
    and i: "i < cap" "ekey (es ! i) = Some k"
  obtains (found) c where "index_of es ks cap (he_key (es ! i)) = Some (int i, c)"
      "reach es (ehash (es ! i)) i"
  | (broken) j N c where "index_of es ks cap (he_key (es ! i)) = Some (- int j - 1, c)"
      "j < cap" "ekey (es ! j) = None" "slot cap (ehash (es ! i)) N = j"
      "N < probe_pos cap (ehash (es ! i)) i"
proof -
  let ?h = "ehash (es ! i)"
  have hk: "he_key (es ! i) = \<lparr>hk_key = Some k, hk_hash = ?h\<rparr>"
    using i(2) by (cases "he_key (es ! i)") simp
  obtain N where N: "stops ks es k ?h N" "\<And>m. m < N \<Longrightarrow> \<not> stops ks es k ?h m"
    "index_of es ks cap (he_key (es ! i)) =
     Some (if ekey (es ! slot cap ?h N) = None then - int (slot cap ?h N) - 1 else int (slot cap ?h N), probe ?h N)"
    using index_of_total [OF cap, of ks k ?h] hk by metis
  let ?j = "slot cap ?h N" and ?p = "probe_pos cap ?h i"
  have j: "?j < cap" using pow2_capacity_pos [OF cap(2)] by simp
  show thesis
  proof (cases "ekey (es ! ?j)")
    case None
    have p: "slot cap ?h ?p = i" by (rule slot_probe_pos [OF cap(2) i(1)])
    then have "stops ks es k ?h ?p" using i(2) cap(1) by (simp add: stops_def)
    then have "N \<le> ?p" using N(2) by (meson not_le)
    moreover have "N \<noteq> ?p" using None p i(2) by auto
    ultimately show thesis using broken [OF _ j None refl] N(3) None by simp
  next
    case (Some k')
    then have "keys_compare ks k k' = 0" using N(1) cap(1) by (simp add: stops_def)
    then have ij: "i = ?j" using keys_ok_distinct [OF ok _ _ i(2) Some] i(1) j cap(1) by blast
    have "\<forall>m < N. ekey (es ! slot (length es) ?h m) \<noteq> None"
    proof (intro allI impI)
      fix m assume "m < N"
      from N(2) [OF this] show "ekey (es ! slot (length es) ?h m) \<noteq> None"
        by (simp add: stops_def split: option.splits)
    qed
    then have "reach es ?h i" unfolding reach_def using ij cap(1) by metis
    then show thesis using found N(3) Some ij by auto
  qed
qed

text \<open>
  \<open>rehash\<close> returns, because every move shortens the probe path of the moved entry, and it
  makes every entry reachable without changing the contents.
\<close>

lemma rehash_from_total:
  assumes "length (hi_entries this) = hi_capacity this" "hi_keys this = ks"
    and "pow2_capacity (hi_capacity this)" "size (contents (hi_entries this)) < hi_capacity this"
    and "keys_ok ks salt (contents (hi_entries this))"
    and "\<And>x. x < i \<Longrightarrow> x < hi_capacity this \<Longrightarrow> ekey (hi_entries this ! x) \<noteq> None \<Longrightarrow>
      reach (hi_entries this) (ehash (hi_entries this ! x)) x"
  shows "\<exists>es'. rehash_from i this = Some (this\<lparr>hi_entries := es'\<rparr>) \<and>
    contents es' = contents (hi_entries this) \<and> length es' = hi_capacity this \<and> all_reach es'"
  using assms
proof (induction "(this, i)" arbitrary: this i
    rule: wf_induct_rule [OF wf_measures [of "[\<lambda>(this, i). displacement (hi_entries this),
      \<lambda>(this, i). hi_capacity this - i]"]])
  case (1 this i)
  let ?es = "hi_entries this" and ?cap = "hi_capacity this"
  note IH = "1.hyps" and A = "1.prems"
  show ?case
  proof (cases "i < ?cap")
    case False
    then have "all_reach ?es" using A(1,6) by (auto simp: all_reach_def)
    moreover have "rehash_from i this = Some this" using False by (subst rehash_from.simps) simp
    ultimately show ?thesis using A(1) by (intro exI [of _ ?es]) simp
  next
    case i: True
    note step = rehash_from.simps [of i this]
    have next_i: "\<exists>es'. rehash_from (Suc i) this = Some (this\<lparr>hi_entries := es'\<rparr>) \<and>
        contents es' = contents ?es \<and> length es' = ?cap \<and> all_reach es'"
      if "ekey (?es ! i) \<noteq> None \<Longrightarrow> reach ?es (ehash (?es ! i)) i"
      using IH [of this "Suc i"] A i that by (fastforce simp: less_Suc_eq)
    show ?thesis
    proof (cases "ekey (?es ! i)")
      case None
      with next_i show ?thesis using i A(1) by (simp add: step nth_opt_def)
    next
      case (Some k)
      show ?thesis
      proof (cases rule: index_of_self [OF A(1,3,4,5) i Some, case_names found broken])
        case (found c)
        with next_i Some show ?thesis using i A(1,2) by (simp add: step nth_opt_def)
      next
        case (broken j N c)
        let ?es' = "move_entry ?es i j"
        have d: "displacement ?es' < displacement ?es"
        proof (rule displacement_move_entry)
          have "probe_pos ?cap (ehash (?es ! i)) j \<le> N" by (rule probe_pos_le [OF broken(4)])
          with broken(5) show "probe_pos (length ?es) (ehash (?es ! i)) j
              < probe_pos (length ?es) (ehash (?es ! i)) i" using A(1) by simp
        qed (use i Some broken A(1) in auto)
        have c: "contents ?es' = contents ?es"
          by (rule contents_move_entry) (use i Some broken A(1) in auto)
        have "rehash_from i this = rehash_from 0 (this\<lparr>hi_entries := ?es'\<rparr>)"
          using broken(1) Some i A(1,2) by (simp add: step nth_opt_def)
        with IH [of "this\<lparr>hi_entries := ?es'\<rparr>" 0] d c A(1-5) show ?thesis by simp
      qed
    qed
  qed
qed

text \<open>The copy loop of \<open>grow\<close> into a table that has room for all the entries.\<close>

lemma grow_copy_total:
  assumes "length es = cap" "pow2_capacity cap" "all_reach es"
    and "keys_ok ks salt (contents olds + contents es)"
    and "size (contents olds + contents es) < cap"
  shows "\<exists>es'. grow_copy ks cap olds es = Some es' \<and> length es' = cap \<and> all_reach es' \<and>
    contents es' = contents olds + contents es"
  using assms
proof (induction olds arbitrary: es)
  case Nil
  then show ?case by simp
next
  case (Cons old olds)
  show ?case
  proof (cases "ekey old")
    case None
    with Cons show ?thesis by (simp add: contents_Cons)
  next
    case (Some k)
    let ?x = "(he_key old, he_value old)"
    have c: "contents (old # olds) = add_mset ?x (contents olds)" by (simp add: contents_Cons Some)
    have absent: "keys_compare ks k (key_of y) \<noteq> 0" if "y \<in># contents es" for y
    proof -
      have "{#?x, y#} \<subseteq># contents (old # olds) + contents es"
        using that by (simp add: c insert_subset_eq_iff)
      with Cons.prems(4) have "keys_compare ks (key_of ?x) (key_of y) \<noteq> 0"
        unfolding keys_ok_def by blast
      then show ?thesis by (simp add: key_of_def Some)
    qed
    have hk: "he_key old = \<lparr>hk_key = Some k, hk_hash = ehash old\<rparr>"
      using Some by (cases "he_key old") simp
    have "size (contents es) < cap" using Cons.prems(5) by simp
    from index_of_absent [OF Cons.prems(1,2) this absent, of "ehash old"]
    obtain s N ctx where s: "index_of es ks cap (he_key old) = Some (- int s - 1, ctx)"
        "s < cap" "ekey (es ! s) = None" "slot cap (ehash old) N = s"
        "\<forall>m < N. ekey (es ! slot cap (ehash old) m) \<noteq> None"
      unfolding hk [symmetric] by blast
    let ?es1 = "es[s := old]"
    have c1: "contents ?es1 = add_mset ?x (contents es)"
      by (rule contents_fill) (use s Cons.prems(1) Some in auto)
    have "all_reach ?es1"
      by (rule all_reach_fill [OF Cons.prems(3)]) (use s Cons.prems(1) Some in auto)
    with Cons.IH [of ?es1] Cons.prems c c1
    obtain es' where "grow_copy ks cap olds ?es1 = Some es'" "length es' = cap" "all_reach es'"
        "contents es' = contents (old # olds) + contents es"
      by auto
    moreover have "grow_copy ks cap (old # olds) es = grow_copy ks cap olds ?es1"
      using s Some Cons.prems(1) by (simp add: upd_at_def upd_opt_def)
    ultimately show ?thesis by auto
  qed
qed

end

end
