(* ===== verification/Cad_Hash_Ops.thy ===== *)
theory Cad_Hash_Ops
  imports Cad_Hash_Laws
begin

text \<open>
  Invariant, abstraction and laws of the operations of the hash table: \<open>hash_abs\<close> is the
  finite map the table stands for (up to equality of keys), \<open>hash_inv\<close> the invariant the
  operations keep. Each law says what an operation returns, that it returns, and what it
  does to the map.
\<close>

section \<open>Invariant and abstraction\<close>

definition live_keys :: "('k, 'v) cad_hash_entry list \<Rightarrow> 'k multiset" where
  "live_keys es = image_mset key_of (contents es)"

definition hash_inv :: "('k, 'v) cad_hash_impl \<Rightarrow> bool" where
  "hash_inv this \<longleftrightarrow>
     length (hi_entries this) = hi_capacity this \<and>
     (hi_capacity this = 0 \<or> pow2_capacity (hi_capacity this)) \<and>
     hi_count this = size (contents (hi_entries this)) \<and>
     3 * hi_count this < 2 * hi_capacity this + 3 \<and>
     keys_ok (hi_keys this) (hi_salt this) (contents (hi_entries this)) \<and>
     all_reach (hi_entries this) \<and>
     hi_live this = live_keys (hi_entries this)"

definition entry_matches :: "'k cad_hash_keys \<Rightarrow> 'k \<Rightarrow> ('k, 'v) cad_hash_entry \<Rightarrow> bool" where
  "entry_matches ks key e = (case ekey e of None \<Rightarrow> False | Some k \<Rightarrow> keys_compare ks key k = 0)"

definition hash_abs :: "('k, 'v) cad_hash_impl \<Rightarrow> 'k \<Rightarrow> 'v ptr option" where
  "hash_abs this key = map_option he_value (find (entry_matches (hi_keys this) key) (hi_entries this))"

text \<open>What a C caller sees of an absent key: \<open>NULL\<close>.\<close>

definition or_null :: "'v ptr option \<Rightarrow> 'v ptr" where
  "or_null r = (case r of None \<Rightarrow> NULL | Some v \<Rightarrow> v)"

lemma or_null_simps [simp]: "or_null None = NULL" "or_null (Some v) = v"
  by (simp_all add: or_null_def)

definition binds :: "'k cad_hash_keys \<Rightarrow> ('k cad_hash_key \<times> 'v ptr) multiset \<Rightarrow> 'k \<Rightarrow> 'v ptr \<Rightarrow> bool" where
  "binds ks M key v \<longleftrightarrow> (\<exists>x \<in># M. keys_compare ks key (key_of x) = 0 \<and> snd x = v)"

lemma binds_simps [simp]:
  "\<not> binds ks {#} key v"
  "binds ks (add_mset x M) key v \<longleftrightarrow> (keys_compare ks key (key_of x) = 0 \<and> snd x = v) \<or> binds ks M key v"
  by (auto simp: binds_def)

lemma option_eq_iff: "(\<And>v. a = Some v \<longleftrightarrow> b = Some v) \<Longrightarrow> a = b"
  by (cases a; cases b) auto

lemma all_reach_cong:
  assumes "map he_key es = map he_key es'"
  shows "all_reach es = all_reach es'"
proof -
  have len: "length es = length es'" using assms by (rule map_eq_imp_length_eq)
  have "he_key (es ! i) = he_key (es' ! i)" if "i < length es" for i
    using assms len that by (metis nth_map)
  moreover have "slot (length es) h n < length es" if "i < length es" for i h n
    using that by (intro slot_less) linarith
  ultimately show ?thesis
    unfolding all_reach_def reach_def len [symmetric] by (metis (no_types, lifting))
qed

lemma contents_set_value:
  assumes "i < length es" "ekey (es ! i) \<noteq> None"
  obtains M where "contents es = add_mset (he_key (es ! i), he_value (es ! i)) M"
    "contents (es[i := (es ! i)\<lparr>he_value := v\<rparr>]) = add_mset (he_key (es ! i), v) M"
proof -
  let ?M = "contents (es[i := empty_entry])"
  have "contents es = add_mset (he_key (es ! i), he_value (es ! i)) ?M"
    by (rule contents_clear) (use assms in \<open>auto simp: empty_entry_def\<close>)
  moreover have "contents ((es[i := empty_entry])[i := (es ! i)\<lparr>he_value := v\<rparr>])
      = add_mset (he_key (es ! i), v) ?M"
    by (subst contents_fill) (use assms in \<open>auto simp: empty_entry_def\<close>)
  ultimately show ?thesis using that by simp
qed

context hash_keys
begin

lemma keys_ok_binds_unique:
  assumes "keys_ok ks salt M" "x \<in># M" "y \<in># M"
    and "keys_compare ks key (key_of x) = 0" "keys_compare ks key (key_of y) = 0"
  shows "x = y"
proof (rule ccontr)
  assume "x \<noteq> y"
  then have "{#x, y#} \<subseteq># M" using assms(2,3) by (simp add: insert_subset_eq_iff in_diff_count)
  then have "keys_compare ks (key_of x) (key_of y) \<noteq> 0" using assms(1) unfolding keys_ok_def by blast
  with assms(4,5) compare_sym compare_trans show False by blast
qed

lemma hash_abs_binds:
  assumes "keys_ok ks salt (contents (hi_entries this))" "hi_keys this = ks"
  shows "hash_abs this key = Some v \<longleftrightarrow> binds ks (contents (hi_entries this)) key v"
proof -
  let ?es = "hi_entries this"
  show ?thesis
  proof
    assume "hash_abs this key = Some v"
    then obtain e where e: "find (entry_matches ks key) ?es = Some e" "he_value e = v"
      by (auto simp: hash_abs_def assms(2))
    then obtain i where i: "i < length ?es" "entry_matches ks key (?es ! i)" "e = ?es ! i"
      by (auto simp: find_Some_iff)
    then have "(he_key e, he_value e) \<in># contents ?es"
      unfolding in_contents_iff by (auto simp: entry_matches_def split: option.splits)
    moreover have "keys_compare ks key (key_of (he_key e, he_value e)) = 0"
      using i by (auto simp: entry_matches_def key_of_def split: option.splits)
    ultimately show "binds ks (contents ?es) key v" using e(2) unfolding binds_def by force
  next
    assume "binds ks (contents ?es) key v"
    then obtain i where i: "i < length ?es" "ekey (?es ! i) \<noteq> None" "he_value (?es ! i) = v"
        "keys_compare ks key (the (ekey (?es ! i))) = 0"
      by (auto simp: binds_def in_contents_iff key_of_def)
    then have m: "entry_matches ks key (?es ! i)" by (auto simp: entry_matches_def)
    then obtain e where e: "find (entry_matches ks key) ?es = Some e"
      using i(1) by (metis find_None_iff nth_mem not_Some_eq)
    then obtain j where j: "j < length ?es" "entry_matches ks key (?es ! j)" "e = ?es ! j"
      by (auto simp: find_Some_iff)
    from j(2) obtain k' where "ekey (?es ! j) = Some k'" "keys_compare ks key k' = 0"
      by (auto simp: entry_matches_def split: option.splits)
    moreover obtain k where "ekey (?es ! i) = Some k" "keys_compare ks key k = 0" using i by auto
    ultimately have "i = j"
      using keys_ok_distinct [OF assms(1) i(1) j(1)] compare_sym compare_trans by blast
    with e i j show "hash_abs this key = Some v" by (simp add: hash_abs_def assms(2))
  qed
qed

lemma hash_abs_None:
  assumes "keys_ok ks salt (contents (hi_entries this))" "hi_keys this = ks"
  shows "hash_abs this key = None \<longleftrightarrow>
    (\<forall>x \<in># contents (hi_entries this). keys_compare ks key (key_of x) \<noteq> 0)"
  using hash_abs_binds [OF assms, of key] unfolding binds_def by (metis not_None_eq)

lemma compare_cong: "keys_compare ks a b = 0 \<Longrightarrow> keys_compare ks a k = 0 \<longleftrightarrow> keys_compare ks b k = 0"
  using compare_sym compare_trans by blast

lemma hash_abs_cong:
  fixes this :: "('k, 'v) cad_hash_impl"
  assumes "keys_compare ks a b = 0" "hi_keys this = ks"
  shows "hash_abs this a = hash_abs this b"
proof -
  have "entry_matches ks a = (entry_matches ks b :: ('k, 'v) cad_hash_entry \<Rightarrow> bool)"
    by (rule ext) (simp add: entry_matches_def compare_cong [OF assms(1)] split: option.split)
  then show ?thesis by (simp add: hash_abs_def assms(2))
qed

text \<open>What \<open>index_of\<close> finds, in terms of the map.\<close>

lemma index_of_abs:
  assumes cap: "length (hi_entries this) = hi_capacity this" "pow2_capacity (hi_capacity this)"
    and size: "size (contents (hi_entries this)) < hi_capacity this"
    and ok: "keys_ok ks (hi_salt this) (contents (hi_entries this))"
    and reach: "all_reach (hi_entries this)" and ks: "hi_keys this = ks"
  obtains (found) i k v c where
      "index_of (hi_entries this) ks (hi_capacity this) (hash_key key ks (hi_salt this)) = Some (int i, c)"
      "i < hi_capacity this" "ekey (hi_entries this ! i) = Some k" "keys_compare ks key k = 0"
      "he_value (hi_entries this ! i) = v" "hash_abs this key = Some v"
  | (absent) s N c where
      "index_of (hi_entries this) ks (hi_capacity this) (hash_key key ks (hi_salt this)) = Some (- int s - 1, c)"
      "s < hi_capacity this" "ekey (hi_entries this ! s) = None"
      "slot (hi_capacity this) (keys_hash ks key + hi_salt this) N = s"
      "\<forall>m < N. ekey (hi_entries this ! slot (hi_capacity this) (keys_hash ks key + hi_salt this) m) \<noteq> None"
      "hash_abs this key = None"
proof (cases "hash_abs this key")
  case (Some v)
  then obtain i where i: "i < length (hi_entries this)" "ekey (hi_entries this ! i) \<noteq> None"
      "he_value (hi_entries this ! i) = v" "keys_compare ks key (the (ekey (hi_entries this ! i))) = 0"
    using hash_abs_binds [OF ok ks] by (auto simp: binds_def in_contents_iff key_of_def)
  then obtain k where k: "ekey (hi_entries this ! i) = Some k" "keys_compare ks key k = 0" by auto
  from index_of_found [OF cap ok _ k(1) all_reachD [OF reach i(1) k(1)] k(2)]
  obtain c where "index_of (hi_entries this) ks (hi_capacity this) (hash_key key ks (hi_salt this)) = Some (int i, c)"
    using i(1) cap(1) by auto
  from found [OF this _ k i(3) Some] show thesis using i(1) cap(1) by simp
next
  case None
  then have "\<And>x. x \<in># contents (hi_entries this) \<Longrightarrow> keys_compare ks key (key_of x) \<noteq> 0"
    using hash_abs_None [OF ok ks] by blast
  from index_of_absent [OF cap size this, of "keys_hash ks key + hi_salt this"]
  show thesis using absent None by (auto simp: hash_key_def)
qed

section \<open>Lookup\<close>

lemma hash_inv_capacity_0: "hash_inv this \<Longrightarrow> hi_capacity this = 0 \<Longrightarrow> hi_count this = 0"
  by (auto simp: hash_inv_def)

lemma hash_inv_size:
  "hash_inv this \<Longrightarrow> hi_capacity this \<noteq> 0 \<Longrightarrow> size (contents (hi_entries this)) < hi_capacity this"
  using pow2_capacity_pos [of "hi_capacity this"] by (auto simp: hash_inv_def)

lemma hash_abs_empty:
  assumes "hash_inv this" "hi_count this = 0"
  shows "hash_abs this key = None"
  using assms filter_empty_conv [of "\<lambda>e. ekey e \<noteq> None" "hi_entries this"]
  by (auto simp: hash_inv_def hash_abs_def find_None_iff entry_matches_def size_contents)

lemma hash_get_abs:
  assumes inv: "hash_inv this" and ks: "hi_keys this = ks"
  shows "hash_get this key = Some (or_null (hash_abs this key))"
proof (cases "hi_count this = 0")
  case True
  then show ?thesis using hash_abs_empty [OF inv] by (simp add: hash_get_def)
next
  case False
  then have cap: "hi_capacity this \<noteq> 0" using hash_inv_capacity_0 [OF inv] by auto
  note I = inv [unfolded hash_inv_def]
  show ?thesis
  proof (cases rule: index_of_abs [OF _ _ hash_inv_size [OF inv cap] _ _ ks, of key, case_names _ _ _ _ found absent])
    case (found i k v c)
    then show ?thesis using False I ks by (simp add: hash_get_def nth_opt_def)
  next
    case (absent s N c)
    then show ?thesis using False ks by (simp add: hash_get_def)
  qed (use I cap ks in auto)
qed

section \<open>Insertion\<close>

text \<open>Storing a new key at the slot \<open>index_of\<close> has found.\<close>

lemma store_new:
  assumes len: "length es = cap" and ok: "keys_ok ks salt (contents es)" and reach: "all_reach es"
    and s: "s < cap" "ekey (es ! s) = None" "slot cap (keys_hash ks key + salt) N = s"
      "\<forall>m < N. ekey (es ! slot cap (keys_hash ks key + salt) m) \<noteq> None"
    and absent: "\<forall>x \<in># contents es. keys_compare ks key (key_of x) \<noteq> 0"
    and x: "he_key x = (hash_key key ks salt)\<lparr>hk_key := Some (keys_clone ks key)\<rparr>"
  shows "contents (es[s := x]) = add_mset (he_key x, he_value x) (contents es)"
    and "keys_ok ks salt (contents (es[s := x]))" and "all_reach (es[s := x])"
    and "key_of (he_key x, he_value x) = keys_clone ks key"
proof -
  show c: "contents (es[s := x]) = add_mset (he_key x, he_value x) (contents es)"
    by (rule contents_fill) (use len s x in auto)
  show k: "key_of (he_key x, he_value x) = keys_clone ks key" by (simp add: key_of_def x)
  have "fst (he_key x, he_value x) = hash_key (keys_clone ks key) ks salt"
    using compare_hash [OF compare_clone] by (simp add: x hash_key_def)
  then show "keys_ok ks salt (contents (es[s := x]))"
    unfolding c by (intro keys_ok_add [OF ok]) (use absent compare_cong [OF compare_clone] k in auto)
  show "all_reach (es[s := x])"
    by (rule all_reach_fill [OF reach, of _ _ _ N]) (use len s x in \<open>auto simp: hash_key_def\<close>)
qed

lemma hash_grow_total:
  assumes len: "length (hi_entries this) = hi_capacity this" and ks: "hi_keys this = ks"
    and cap: "hi_capacity this = 0 \<or> pow2_capacity (hi_capacity this)" "hi_capacity this \<le> 2 ^ 29"
    and size: "size (contents (hi_entries this)) \<le> hi_capacity this"
    and ok: "keys_ok ks salt (contents (hi_entries this))"
  obtains es' cap' where "hash_grow this 2 = Some (this\<lparr>hi_entries := es', hi_capacity := cap'\<rparr>)"
    "cap' = (if hi_capacity this = 0 then 4 else hi_capacity this * 2)"
    "length es' = cap'" "pow2_capacity cap'" "contents es' = contents (hi_entries this)" "all_reach es'"
proof (cases "hi_capacity this = 0")
  case True
  then have "hash_grow this 2 =
      Some (this\<lparr>hi_entries := replicate 4 empty_entry, hi_capacity := 4\<rparr>)"
    by (simp add: hash_grow_def c_int_def INT_MAX_def)
  moreover have "contents (hi_entries this) = {#}" using True len by simp
  ultimately show ?thesis using that [OF _ _ _ pow2_capacity_4] True by simp
next
  case False
  let ?cap = "hi_capacity this * 2"
  have p: "pow2_capacity ?cap" using False cap pow2_capacity_double by auto
  then have "?cap \<le> INT_MAX" using pow2_capacity_le [of ?cap] by (simp add: INT_MAX_def)
  moreover obtain es' where "grow_copy ks ?cap (hi_entries this) (replicate ?cap empty_entry) = Some es'"
      "length es' = ?cap" "all_reach es'" "contents es' = contents (hi_entries this)"
    using grow_copy_total [of "replicate ?cap empty_entry" ?cap salt "hi_entries this"] p size ok False by auto
  ultimately show ?thesis
    using that [of ?cap es'] p False ks by (simp add: hash_grow_def c_int_def)
qed

text \<open>
  The new-key branch of \<open>set\<close>: the table is grown when it is two thirds full, the key is
  cloned into the slot found.
\<close>

lemma hash_set_new_total:
  assumes inv: "hash_inv this" and ks: "hi_keys this = ks"
    and cap: "hi_capacity this \<noteq> 0" "hi_capacity this \<le> 2 ^ 29"
    and abs: "hash_abs this key = None"
    and idx: "index_of (hi_entries this) ks (hi_capacity this) (hash_key key ks (hi_salt this)) = Some (idx, c)"
  obtains es s cap' copy where
    "hash_set_new this key (hash_key key ks (hi_salt this)) idx =
      Some (this\<lparr>hi_entries := es, hi_capacity := cap', hi_count := hi_count this + 1,
                hi_live := add_mset (keys_clone ks key) (hi_live this)\<rparr>, int s)"
    "s < cap'" "length es = cap'" "pow2_capacity cap'" "3 * (hi_count this + 1) < 2 * cap' + 3"
    "keys_ok ks (hi_salt this) (contents es)" "all_reach es"
    "ekey (es ! s) = Some (keys_clone ks key)"
    "contents es = add_mset (he_key (es ! s), he_value (es ! s)) (contents (hi_entries this))"
    "cap' \<le> max (hi_capacity this) (3 * hi_count this)"
proof -
  let ?salt = "hi_salt this" and ?hk = "hash_key key ks (hi_salt this)"
  note I = inv [unfolded hash_inv_def ks]
  have p: "pow2_capacity (hi_capacity this)" using I cap by simp
  have absent: "\<forall>x \<in># contents (hi_entries this). keys_compare ks key (key_of x) \<noteq> 0"
    using abs hash_abs_None [OF _ ks] I by blast
  have c_ints: "c_int (hi_count this * 3) = Some (hi_count this * 3)"
      "c_int (hi_capacity this * 2) = Some (hi_capacity this * 2)"
    using I cap by (auto simp: c_int_def INT_MAX_def)
  text \<open>The table in which the slot is taken: the grown one or the same.\<close>
  obtain es1 cap1 s N where T: "(if hi_capacity this * 2 \<le> hi_count this * 3 then do {
          grown \<leftarrow> hash_grow this 2;
          (i, _) \<leftarrow> index_of (hi_entries grown) (hi_keys grown) (hi_capacity grown) ?hk;
          Some (grown, i)
        } else Some (this, idx)) = Some (this\<lparr>hi_entries := es1, hi_capacity := cap1\<rparr>, - int s - 1)"
      "length es1 = cap1" "pow2_capacity cap1" "all_reach es1" "contents es1 = contents (hi_entries this)"
      "s < cap1" "ekey (es1 ! s) = None" "slot cap1 (keys_hash ks key + ?salt) N = s"
      "\<forall>m < N. ekey (es1 ! slot cap1 (keys_hash ks key + ?salt) m) \<noteq> None"
      "3 * (hi_count this + 1) < 2 * cap1 + 3" "cap1 \<le> max (hi_capacity this) (3 * hi_count this)"
  proof (cases "hi_capacity this * 2 \<le> hi_count this * 3")
    case True
    have sz: "size (contents (hi_entries this)) \<le> hi_capacity this"
      using hash_inv_size [OF inv cap(1)] by simp
    obtain es' cap' where g: "hash_grow this 2 = Some (this\<lparr>hi_entries := es', hi_capacity := cap'\<rparr>)"
        "cap' = hi_capacity this * 2" "length es' = cap'" "pow2_capacity cap'"
        "contents es' = contents (hi_entries this)" "all_reach es'"
      by (rule hash_grow_total [OF _ ks _ cap(2) sz, of ?salt]) (use I cap(1) in auto)
    have "size (contents es') < cap'" using g hash_inv_size [OF inv cap(1)] cap(1) by simp
    from index_of_absent [OF g(3,4) this, of key "keys_hash ks key + ?salt"] absent g(5)
    obtain s N c where "index_of es' ks cap' ?hk = Some (- int s - 1, c)" "s < cap'" "ekey (es' ! s) = None"
        "slot cap' (keys_hash ks key + ?salt) N = s"
        "\<forall>m < N. ekey (es' ! slot cap' (keys_hash ks key + ?salt) m) \<noteq> None"
      by (auto simp: hash_key_def)
    then show thesis using g True I cap(1) pow2_capacity_pos [OF p] by (intro that [of cap' es' s N]) (auto simp: ks)
  next
    case False
    have "size (contents (hi_entries this)) < hi_capacity this" by (rule hash_inv_size [OF inv cap(1)])
    from index_of_absent [OF _ p this, of key "keys_hash ks key + ?salt"] absent I idx
    obtain s N where "idx = - int s - 1" "s < hi_capacity this" "ekey (hi_entries this ! s) = None"
        "slot (hi_capacity this) (keys_hash ks key + ?salt) N = s"
        "\<forall>m < N. ekey (hi_entries this ! slot (hi_capacity this) (keys_hash ks key + ?salt) m) \<noteq> None"
      by (auto simp: hash_key_def)
    then show thesis using False I p
      by (intro that [of "hi_capacity this" "hi_entries this" s N]) auto
  qed
  let ?x = "(es1 ! s)\<lparr>he_key := ?hk\<lparr>hk_key := Some (keys_clone ks key)\<rparr>\<rparr>"
  have ok1: "keys_ok ks ?salt (contents es1)" using T(5) I by simp
  have absent1: "\<forall>x \<in># contents es1. keys_compare ks key (key_of x) \<noteq> 0" using absent T(5) by simp
  note S = store_new [OF T(2) ok1 T(4) T(6-9) absent1, of ?x]
  show thesis
  proof (rule that [of cap1 "es1[s := ?x]" s])
    show "hash_set_new this key ?hk idx =
      Some (this\<lparr>hi_entries := es1[s := ?x], hi_capacity := cap1, hi_count := hi_count this + 1,
                hi_live := add_mset (keys_clone ks key) (hi_live this)\<rparr>, int s)"
      unfolding hash_set_new_def c_ints bind.bind_lunit T(1)
      using T(2,6) by (simp add: nth_opt_def upd_at_def upd_opt_def ks Let_def)
  qed (use S T in auto)
qed

lemma compare_cong2: "keys_compare ks a b = 0 \<Longrightarrow> keys_compare ks k a = 0 \<longleftrightarrow> keys_compare ks k b = 0"
  using compare_sym compare_trans by blast

lemma value_update:
  fixes es :: "('k, 'v) cad_hash_entry list"
  assumes ok: "keys_ok ks salt (contents es)" and reach: "all_reach es"
    and i: "i < length es" "ekey (es ! i) = Some k"
    and es': "es' = es[i := (es ! i)\<lparr>he_value := v\<rparr>]"
  shows "keys_ok ks salt (contents es')" "all_reach es'" "live_keys es' = live_keys es"
    and "size (contents es') = size (contents es)"
    and "binds ks (contents es') key w \<longleftrightarrow>
      (if keys_compare ks key k = 0 then w = v else binds ks (contents es) key w)"
proof -
  obtain M where M: "contents es = add_mset (he_key (es ! i), he_value (es ! i)) M"
      "contents es' = add_mset (he_key (es ! i), v) M"
    unfolding es' using contents_set_value i by (metis option.distinct(1))
  have ko: "key_of (he_key (es ! i), u) = k" for u :: "'v ptr" using i by (simp add: key_of_def)
  have other: "keys_compare ks k (key_of y) \<noteq> 0" if "y \<in># M" for y
  proof -
    have "{#(he_key (es ! i), he_value (es ! i)), y#} \<subseteq># contents es"
      unfolding M(1) using that by simp
    with ok show ?thesis unfolding keys_ok_def ko [symmetric, of "he_value (es ! i)"] by blast
  qed
  have "keys_ok ks salt M" using keys_ok_subset [OF ok] M(1) by simp
  moreover have "he_key (es ! i) = hash_key k ks salt" by (rule keys_ok_entry [OF ok i])
  ultimately show "keys_ok ks salt (contents es')"
    unfolding M(2) by (intro keys_ok_add) (simp_all add: ko other)
  have "map he_key es' = map he_key es"
    unfolding es' using i(1) by (simp add: map_update list_update_same_conv)
  then show "all_reach es'" using reach all_reach_cong by blast
  show "live_keys es' = live_keys es" unfolding live_keys_def M by (simp add: key_of_def)
  show "size (contents es') = size (contents es)" by (simp add: M)
  have "\<not> binds ks M key w" if "keys_compare ks key k = 0"
    using other compare_cong [OF that] by (auto simp: binds_def)
  then show "binds ks (contents es') key w \<longleftrightarrow>
      (if keys_compare ks key k = 0 then w = v else binds ks (contents es) key w)"
    unfolding M by (auto simp: ko)
qed

text \<open>The first growth of \<open>set\<close>, on a table that has no entries yet.\<close>

lemma hash_first_grow:
  assumes inv: "hash_inv this" and ks: "hi_keys this = ks" and cap: "hi_capacity this \<le> 2 ^ 29"
  obtains this0 where
    "(if hi_capacity this = 0 then hash_grow this 2 else Some this) = Some this0" "hash_inv this0"
    "hi_capacity this0 \<noteq> 0" "hi_capacity this0 \<le> max 4 (hi_capacity this)" "hi_keys this0 = ks"
    "hi_salt this0 = hi_salt this" "hi_count this0 = hi_count this"
    "\<And>k. hash_abs this0 k = hash_abs this k"
proof (cases "hi_capacity this = 0")
  case False
  then show ?thesis using that [of this] assms by simp
next
  case True
  note I = inv [unfolded hash_inv_def ks]
  have e: "hi_entries this = []" using I True by simp
  obtain es' where g: "hash_grow this 2 = Some (this\<lparr>hi_entries := es', hi_capacity := 4\<rparr>)"
      "length es' = 4" "contents es' = {#}" "all_reach es'"
    by (rule hash_grow_total [OF _ ks _ cap, of "hi_salt this"]) (use I True e in auto)
  let ?t = "this\<lparr>hi_entries := es', hi_capacity := 4\<rparr>"
  have inv': "hash_inv ?t"
    unfolding hash_inv_def using I g e pow2_capacity_4 by (simp add: live_keys_def ks)
  have "hi_count ?t = 0" "hi_count this = 0" using I e by simp_all
  then have "hash_abs ?t k = hash_abs this k" for k
    using hash_abs_empty [OF inv'] hash_abs_empty [OF inv] by simp
  then show ?thesis using that [of ?t] g True inv' ks by simp
qed

lemma hash_set_total:
  assumes inv: "hash_inv this" and ks: "hi_keys this = ks" and cap: "hi_capacity this \<le> 2 ^ 29"
  obtains this' where "hash_set this key v = Some (or_null (hash_abs this key), this')"
    "hash_inv this'" "hi_keys this' = ks" "hi_salt this' = hi_salt this"
    "\<And>k. hash_abs this' k = (if keys_compare ks k key = 0 then Some v else hash_abs this k)"
    "hi_count this' = hi_count this + (if hash_abs this key = None then 1 else 0)"
    "hi_capacity this' \<le> max 4 (max (hi_capacity this) (3 * hi_count this))"
proof -
  let ?hk = "hash_key key ks (hi_salt this)"
  obtain t where t: "(if hi_capacity this = 0 then hash_grow this 2 else Some this) = Some t"
      "hash_inv t" "hi_capacity t \<noteq> 0" "hi_capacity t \<le> max 4 (hi_capacity this)" "hi_keys t = ks"
      "hi_salt t = hi_salt this" "hi_count t = hi_count this" "\<And>k. hash_abs t k = hash_abs this k"
    using hash_first_grow [OF assms] by metis
  note I = t(2) [unfolded hash_inv_def t(5)]
  have ok: "keys_ok ks (hi_salt t) (contents (hi_entries t))" and p: "pow2_capacity (hi_capacity t)"
    and len: "length (hi_entries t) = hi_capacity t" and r: "all_reach (hi_entries t)"
    using I t(3) by auto
  show thesis
  proof (cases rule: index_of_abs [OF len p hash_inv_size [OF t(2,3)] ok r t(5), of key, case_names found absent])
    case (found i k u c)
    let ?es = "(hi_entries t)[i := (hi_entries t ! i)\<lparr>he_value := v\<rparr>]"
    have i: "i < length (hi_entries t)" using found len by simp
    note V = value_update [OF ok r i found(3) refl [of ?es]]
    let ?t = "t\<lparr>hi_entries := ?es\<rparr>"
    have inv': "hash_inv ?t" using V I t(5) by (simp add: hash_inv_def)
    have "hash_abs ?t k' = (if keys_compare ks k' key = 0 then Some v else hash_abs this k')" for k'
    proof (rule option_eq_iff)
      fix w
      have "hash_abs ?t k' = Some w \<longleftrightarrow> binds ks (contents ?es) k' w"
        using hash_abs_binds [of "hi_salt t" ?t] V(1) t(5) by simp
      also have "\<dots> \<longleftrightarrow> (if keys_compare ks k' key = 0 then Some v else hash_abs this k') = Some w"
        unfolding V(5) using hash_abs_binds [OF ok t(5)] t(8) compare_cong2 [OF found(4)] by auto
      finally show "hash_abs ?t k' = Some w \<longleftrightarrow>
        (if keys_compare ks k' key = 0 then Some v else hash_abs this k') = Some w" .
    qed
    moreover have "hash_set this key v = Some (or_null (hash_abs this key), ?t)"
      using found t i by (simp add: hash_set_def ks nth_opt_def upd_at_def upd_opt_def)
    ultimately show thesis using that [of ?t] inv' t found(6) by simp
  next
    case (absent s N c)
    have le: "hi_capacity t \<le> 2 ^ 29" using t(4) cap by simp
    obtain es j cap' where S: "hash_set_new t key ?hk (- int s - 1) =
        Some (t\<lparr>hi_entries := es, hi_capacity := cap', hi_count := hi_count t + 1,
                  hi_live := add_mset (keys_clone ks key) (hi_live t)\<rparr>, int j)"
        "j < cap'" "length es = cap'" "pow2_capacity cap'" "3 * (hi_count t + 1) < 2 * cap' + 3"
        "keys_ok ks (hi_salt t) (contents es)" "all_reach es" "ekey (es ! j) = Some (keys_clone ks key)"
        "contents es = add_mset (he_key (es ! j), he_value (es ! j)) (contents (hi_entries t))"
        "cap' \<le> max (hi_capacity t) (3 * hi_count t)"
      using hash_set_new_total [OF t(2,5,3) le absent(6,1)] t(6) by metis
    let ?es = "es[j := (es ! j)\<lparr>he_value := v\<rparr>]"
    let ?t = "t\<lparr>hi_entries := ?es, hi_capacity := cap', hi_count := hi_count t + 1,
                 hi_live := add_mset (keys_clone ks key) (hi_live t)\<rparr>"
    have j: "j < length es" using S by simp
    note V = value_update [OF S(6,7) j S(8) refl [of ?es]]
    have live: "live_keys es = add_mset (keys_clone ks key) (live_keys (hi_entries t))"
      unfolding live_keys_def S(9) by (simp add: key_of_def S(8))
    have inv': "hash_inv ?t" using V I S live t(5) by (simp add: hash_inv_def)
    have "hash_abs ?t k' = (if keys_compare ks k' key = 0 then Some v else hash_abs this k')" for k'
    proof (rule option_eq_iff)
      fix w
      have "hash_abs ?t k' = Some w \<longleftrightarrow> binds ks (contents ?es) k' w"
        using hash_abs_binds [of "hi_salt t" ?t] V(1) t(5) by simp
      also have "\<dots> \<longleftrightarrow> (if keys_compare ks k' key = 0 then Some v else hash_abs this k') = Some w"
        unfolding V(5) S(9) using hash_abs_binds [OF ok t(5)] t(8) compare_cong2 [OF compare_clone]
        by (auto simp: key_of_def S(8))
      finally show "hash_abs ?t k' = Some w \<longleftrightarrow>
        (if keys_compare ks k' key = 0 then Some v else hash_abs this k') = Some w" .
    qed
    moreover have "hash_set this key v = Some (or_null (hash_abs this key), ?t)"
      using absent t j S by (simp add: hash_set_def ks nth_opt_def upd_at_def upd_opt_def)
    ultimately show thesis using that [of ?t] inv' t absent(6) S(10) by auto
  qed
qed

section \<open>Deletion\<close>

lemma hash_del_total:
  assumes inv: "hash_inv this" and ks: "hi_keys this = ks"
  obtains this' where "hash_del this key = Some (or_null (hash_abs this key), this')"
    "hash_inv this'" "hi_keys this' = ks" "hi_salt this' = hi_salt this"
    "hi_capacity this' = hi_capacity this"
    "\<And>k. hash_abs this' k = (if keys_compare ks k key = 0 then None else hash_abs this k)"
    "hi_count this' = hi_count this - (if hash_abs this key = None then 0 else 1)"
proof (cases "hi_count this = 0")
  case True
  then have "\<And>k. hash_abs this k = None" using hash_abs_empty [OF inv] by blast
  then show ?thesis using that [of this] True assms by (simp add: hash_del_def)
next
  case False
  then have cap: "hi_capacity this \<noteq> 0" using hash_inv_capacity_0 [OF inv] by auto
  note I = inv [unfolded hash_inv_def ks]
  let ?es = "hi_entries this"
  have ok: "keys_ok ks (hi_salt this) (contents ?es)" and p: "pow2_capacity (hi_capacity this)"
    and len: "length ?es = hi_capacity this" and r: "all_reach ?es" using I cap by auto
  show ?thesis
  proof (cases rule: index_of_abs [OF len p hash_inv_size [OF inv cap] ok r ks, of key, case_names found absent])
    case (absent s N c)
    then have "\<And>k. keys_compare ks k key = 0 \<Longrightarrow> hash_abs this k = None"
      using hash_abs_cong [OF _ ks] by metis
    then show ?thesis using that [of this] absent False assms by (auto simp: hash_del_def)
  next
    case (found i k u c)
    let ?e = "?es ! i"
    let ?y = "?e\<lparr>he_key := (he_key ?e)\<lparr>hk_key := NULL\<rparr>, he_value := NULL\<rparr>"
    let ?es1 = "?es[i := ?y]" and ?x = "(he_key ?e, he_value ?e)"
    have i: "i < length ?es" using found len by simp
    have c: "contents ?es = add_mset ?x (contents ?es1)"
      by (rule contents_clear) (use i found in auto)
    have kx: "key_of ?x = k" using found by (simp add: key_of_def)
    have live: "hi_live this = add_mset k (live_keys ?es1)"
      using I c kx by (simp add: live_keys_def)
    let ?t = "this\<lparr>hi_entries := ?es1, hi_count := hi_count this - 1, hi_live := live_keys ?es1\<rparr>"
    have ok1: "keys_ok ks (hi_salt this) (contents ?es1)" using keys_ok_subset [OF ok] c by simp
    have "size (contents ?es1) < hi_capacity this" using hash_inv_size [OF inv cap] c by simp
    then obtain es2 where R: "rehash ?t = Some (?t\<lparr>hi_entries := es2\<rparr>)" "contents es2 = contents ?es1"
        "length es2 = hi_capacity this" "all_reach es2"
      using rehash_from_total [of ?t "hi_salt this" 0] p len ks ok1 by (auto simp: rehash_def)
    let ?t2 = "?t\<lparr>hi_entries := es2\<rparr>"
    have inv2: "hash_inv ?t2" using I R ok1 c ks by (auto simp: hash_inv_def live_keys_def)
    have other: "keys_compare ks k (key_of y) \<noteq> 0" if "y \<in># contents ?es1" for y
    proof -
      have "{#?x, y#} \<subseteq># contents ?es" unfolding c using that by simp
      with ok show ?thesis unfolding keys_ok_def kx [symmetric] by blast
    qed
    have "hash_abs ?t2 k' = (if keys_compare ks k' key = 0 then None else hash_abs this k')" for k'
    proof (rule option_eq_iff)
      fix w
      have "\<not> binds ks (contents ?es1) k' w" if "keys_compare ks k' key = 0"
        using other that compare_cong [of k' k] compare_cong2 [OF found(4)] by (auto simp: binds_def)
      moreover have "hash_abs ?t2 k' = Some w \<longleftrightarrow> binds ks (contents ?es1) k' w"
        using hash_abs_binds [of "hi_salt this" ?t2] R(2) ok1 ks by simp
      moreover have "hash_abs this k' = Some w \<longleftrightarrow> binds ks (contents ?es) k' w"
        by (rule hash_abs_binds [OF ok ks])
      ultimately show "hash_abs ?t2 k' = Some w \<longleftrightarrow>
          (if keys_compare ks k' key = 0 then None else hash_abs this k') = Some w"
        unfolding c using kx compare_cong2 [OF found(4)] by auto
    qed
    moreover have "hash_del this key = Some (or_null (hash_abs this key), ?t2)"
      using found i False R(1) live ks by (simp add: hash_del_def nth_opt_def upd_at_def upd_opt_def free_key_def)
    ultimately show ?thesis using that [of ?t2] inv2 found(6) ks by simp
  qed
qed

end

section \<open>Iteration\<close>

text \<open>What an iteration does: the iterator runs over the occupied entries in slot order.\<close>

fun fold_entries :: "('k, 'v, 's) hash_iterator \<Rightarrow> nat \<Rightarrow> ('k, 'v) cad_hash_entry list \<Rightarrow> 's \<Rightarrow> 's" where
  "fold_entries iterator idx [] data = data"
| "fold_entries iterator idx (e # es) data =
     (case ekey e of
        None \<Rightarrow> fold_entries iterator idx es data
      | Some k \<Rightarrow> fold_entries iterator (Suc idx) es (iterator idx k (he_value e) data))"

lemma iterate_loop_fold:
  assumes "idx + size (contents (drop i (hi_entries this))) = hi_count this"
    and "clean \<Longrightarrow> live = live_keys (drop i (hi_entries this)) + rest"
    and "i \<le> length (hi_entries this)"
  shows "iterate_loop this iterator clean i idx live data =
    Some (if clean then rest else live, fold_entries iterator idx (drop i (hi_entries this)) data)"
  using assms
proof (induction this iterator clean i idx live data rule: iterate_loop.induct)
  case (1 this iterator clean i idx live data)
  let ?es = "hi_entries this"
  show ?case
  proof (cases "i < length ?es")
    case False
    with "1.prems" show ?thesis by (subst iterate_loop.simps) (auto simp: live_keys_def)
  next
    case True
    then have d: "drop i ?es = ?es ! i # drop (Suc i) ?es" by (simp add: Cons_nth_drop_Suc)
    show ?thesis
    proof (cases "idx < hi_count this")
      case False
      then have "size (contents (drop i ?es)) = 0" using "1.prems"(1) by linarith
      then have "contents (drop i ?es) = {#}" by simp
      moreover have "fold_entries iterator n xs s = s" if "contents xs = {#}" for n s
          and xs :: "('a, 'b) cad_hash_entry list"
        using that by (induction xs arbitrary: n s) (auto simp: contents_Cons split: if_splits)
      ultimately show ?thesis using False "1.prems"(2)
        by (subst iterate_loop.simps) (auto simp: live_keys_def)
    next
      case less: True
      show ?thesis
      proof (cases "ekey (?es ! i)")
        case None
        then show ?thesis
          using "1.IH"(1) [OF less _ None] less True "1.prems" d
          by (subst iterate_loop.simps) (auto simp: contents_Cons live_keys_def nth_opt_def)
      next
        case (Some k)
        have "clean \<Longrightarrow> free_key k live = Some (live_keys (drop (Suc i) ?es) + rest)"
          using "1.prems"(2) d Some by (simp add: free_key_def live_keys_def contents_Cons key_of_def)
        then show ?thesis
          using "1.IH"(2) [OF less _ Some] less True "1.prems" d Some
          by (subst iterate_loop.simps)
            (auto simp: contents_Cons live_keys_def nth_opt_def split: if_splits)
      qed
    qed
  qed
qed

lemma free_loop_iterate:
  "free_loop this i idx live = map_option fst (iterate_loop this (\<lambda>_ _ _ u. u) True i idx live ())"
proof (induction this i idx live rule: free_loop.induct)
  case (1 this i idx live)
  then show ?case
    by (subst free_loop.simps, subst iterate_loop.simps) (auto simp: nth_opt_def split: option.splits)
qed

lemma hash_iterate_total:
  "hash_inv this \<Longrightarrow> hash_iterate this iterator data = Some (fold_entries iterator 0 (hi_entries this) data)"
  using iterate_loop_fold [of 0 0 this False "hi_live this" "{#}" iterator data] by (simp add: hash_inv_def hash_iterate_def)

lemma hash_abs_replicate [simp]:
  "hash_abs (this\<lparr>hi_live := l, hi_count := c, hi_entries := replicate n empty_entry\<rparr>) key = None"
  by (auto simp: hash_abs_def find_None_iff entry_matches_def empty_entry_def)

lemma hash_clean_total:
  assumes "hash_inv this"
  obtains this' where "hash_clean this iterator data = Some (fold_entries iterator 0 (hi_entries this) data, this')"
    "hash_inv this'" "hi_keys this' = hi_keys this" "hi_count this' = 0" "hi_live this' = {#}"
    "\<And>k. hash_abs this' k = None"
proof -
  let ?t = "this\<lparr>hi_live := {#}, hi_count := 0, hi_entries := replicate (hi_capacity this) empty_entry\<rparr>"
  have "iterate_loop this iterator True 0 0 (hi_live this) data =
      Some ({#}, fold_entries iterator 0 (hi_entries this) data)"
    using iterate_loop_fold [of 0 0 this True "hi_live this" "{#}" iterator data] assms by (simp add: hash_inv_def)
  moreover have "hash_inv ?t" using assms by (auto simp: hash_inv_def live_keys_def)
  ultimately show ?thesis using that [of ?t] by (simp add: hash_clean_def)
qed

lemma hash_free_total: "hash_inv this \<Longrightarrow> hash_free this = Some {#}"
  using iterate_loop_fold [of 0 0 this True "hi_live this" "{#}" "\<lambda>_ _ _ u. u" "()"]
  by (simp add: hash_inv_def hash_free_def free_loop_iterate)

lemma cad_new_hash_inv:
  assumes "cad_new_hash malloc_ok salt w ks = (Some this, w')"
  shows "hash_inv this" "hi_keys this = ks" "hash_abs this k = None" "hi_capacity this = 0" "hi_count this = 0"
  using assms by (auto simp: cad_new_hash_def hash_inv_def hash_abs_def live_keys_def
    split: if_splits prod.splits)

end
