(* ===== verification/Cad_Table.thy ===== *)
theory Cad_Table
  imports Cad_Hash_Ops
begin

text \<open>
  The interface of the hash table as its clients use it (include/cad_hash.h): the locale
  \<open>assoc_table\<close> states what \<open>get\<close>, \<open>set\<close> and \<open>del\<close> promise about the map a table stands
  for. The hash table with C string keys provides it. The client lemmas proved in the
  locale are about runs of operations: a run behaves as the same run on the map.
\<close>

section \<open>The keys manager for C strings keeps its contract\<close>

lemma strcmp_eq_0_iff [simp]: "strcmp s t = 0 \<longleftrightarrow> s = t"
  by (induction s t rule: strcmp.induct) auto

interpretation string_keys: hash_keys cad_hash_strings
  by unfold_locales (auto simp: cad_hash_strings_def)

lemma cad_hash_strings_compare [simp]: "keys_compare cad_hash_strings s t = 0 \<longleftrightarrow> s = t"
  by (simp add: cad_hash_strings_def)

section \<open>Runs of operations\<close>

datatype ('k, 'v) table_op =
    Op_Get 'k
  | Op_Set 'k "'v ptr"
  | Op_Del 'k

text \<open>The run on the map: what each operation returns, and the map at the end.\<close>

fun map_run :: "('k \<Rightarrow> 'k \<Rightarrow> bool) \<Rightarrow> ('k \<Rightarrow> 'v ptr option) \<Rightarrow> ('k, 'v) table_op list
    \<Rightarrow> 'v ptr list \<times> ('k \<Rightarrow> 'v ptr option)" where
  "map_run eq m [] = ([], m)"
| "map_run eq m (op # ops) =
     (case op of
        Op_Get k \<Rightarrow> (let (rs, m') = map_run eq m ops in (or_null (m k) # rs, m'))
      | Op_Set k v \<Rightarrow>
          (let (rs, m') = map_run eq (\<lambda>k'. if eq k' k then Some v else m k') ops
           in (or_null (m k) # rs, m'))
      | Op_Del k \<Rightarrow>
          (let (rs, m') = map_run eq (\<lambda>k'. if eq k' k then None else m k') ops
           in (or_null (m k) # rs, m')))"

text \<open>The run on the implementation.\<close>

fun table_run ::
  "('t \<Rightarrow> 'k \<Rightarrow> 'v ptr option) \<Rightarrow> ('t \<Rightarrow> 'k \<Rightarrow> 'v ptr \<Rightarrow> ('v ptr \<times> 't) option)
    \<Rightarrow> ('t \<Rightarrow> 'k \<Rightarrow> ('v ptr \<times> 't) option) \<Rightarrow> 't \<Rightarrow> ('k, 'v) table_op list
    \<Rightarrow> ('v ptr list \<times> 't) option" where
  "table_run t_get t_set t_del t [] = Some ([], t)"
| "table_run t_get t_set t_del t (op # ops) = do {
     (r, t') \<leftarrow> (case op of
        Op_Get k \<Rightarrow> do { r \<leftarrow> t_get t k; Some (r, t) }
      | Op_Set k v \<Rightarrow> t_set t k v
      | Op_Del k \<Rightarrow> t_del t k);
     (rs, t'') \<leftarrow> table_run t_get t_set t_del t' ops;
     Some (r # rs, t'')
   }"

section \<open>The interface\<close>

text \<open>
  \<open>t_weight\<close> bounds the size of the table; an insertion is guaranteed to return while the
  t_weight is at most \<open>2 ^ 29\<close>, and adds at most 3 to it.
\<close>

locale assoc_table =
  fixes t_get :: "'t \<Rightarrow> 'k \<Rightarrow> 'v ptr option"
    and t_set :: "'t \<Rightarrow> 'k \<Rightarrow> 'v ptr \<Rightarrow> ('v ptr \<times> 't) option"
    and t_del :: "'t \<Rightarrow> 'k \<Rightarrow> ('v ptr \<times> 't) option"
    and t_abs :: "'t \<Rightarrow> 'k \<Rightarrow> 'v ptr option"
    and t_eq :: "'k \<Rightarrow> 'k \<Rightarrow> bool"
    and t_inv :: "'t \<Rightarrow> bool"
    and t_weight :: "'t \<Rightarrow> nat"
  assumes get_law: "t_inv t \<Longrightarrow> t_get t k = Some (or_null (t_abs t k))"
    and set_law: "t_inv t \<Longrightarrow> t_weight t \<le> 2 ^ 29 \<Longrightarrow>
      \<exists>t'. t_set t k v = Some (or_null (t_abs t k), t') \<and> t_inv t' \<and> t_weight t' \<le> t_weight t + 3 \<and>
        t_abs t' = (\<lambda>k'. if t_eq k' k then Some v else t_abs t k')"
    and del_law: "t_inv t \<Longrightarrow>
      \<exists>t'. t_del t k = Some (or_null (t_abs t k), t') \<and> t_inv t' \<and> t_weight t' \<le> t_weight t \<and>
        t_abs t' = (\<lambda>k'. if t_eq k' k then None else t_abs t k')"
begin

lemma run_refines:
  assumes "t_inv t" "t_weight t + 3 * length ops \<le> 2 ^ 29 + 3"
  shows "\<exists>t'. table_run t_get t_set t_del t ops = Some (fst (map_run t_eq (t_abs t) ops), t') \<and> t_inv t' \<and>
    t_abs t' = snd (map_run t_eq (t_abs t) ops) \<and> t_weight t' \<le> t_weight t + 3 * length ops"
  using assms
proof (induction ops arbitrary: t)
  case Nil
  then show ?case by simp
next
  case (Cons op ops)
  have w: "t_weight t \<le> 2 ^ 29" using Cons.prems(2) by simp
  obtain r t' where s: "(case op of
        Op_Get k \<Rightarrow> do { r \<leftarrow> t_get t k; Some (r, t) }
      | Op_Set k v \<Rightarrow> t_set t k v
      | Op_Del k \<Rightarrow> t_del t k) = Some (r, t')"
      "t_inv t'" "t_weight t' \<le> t_weight t + 3"
      "map_run t_eq (t_abs t) (op # ops) = (let (rs, m') = map_run t_eq (t_abs t') ops in (r # rs, m'))"
    using get_law [OF Cons.prems(1)] set_law [OF Cons.prems(1) w] del_law [OF Cons.prems(1)] Cons.prems(1)
    by (cases op) (fastforce simp: Let_def split: prod.splits)+
  moreover obtain t'' where
      "table_run t_get t_set t_del t' ops = Some (fst (map_run t_eq (t_abs t') ops), t'')" "t_inv t''"
      "t_abs t'' = snd (map_run t_eq (t_abs t') ops)" "t_weight t'' \<le> t_weight t' + 3 * length ops"
    using Cons.IH [OF s(2)] s(3) Cons.prems(2) by auto
  ultimately show ?case by (auto split: prod.splits)
qed

end

section \<open>The hash table provides the interface\<close>

definition table_weight :: "('k, 'v) cad_hash_impl \<Rightarrow> nat" where
  "table_weight t = max 4 (max (hi_capacity t) (3 * hi_count t))"

definition key_eq :: "'k cad_hash_keys \<Rightarrow> 'k \<Rightarrow> 'k \<Rightarrow> bool" where
  "key_eq ks a b \<longleftrightarrow> keys_compare ks a b = 0"

definition table_inv :: "'k cad_hash_keys \<Rightarrow> ('k, 'v) cad_hash_impl \<Rightarrow> bool" where
  "table_inv ks t \<longleftrightarrow> hash_inv t \<and> hi_keys t = ks"

context hash_keys
begin

lemma hash_provides_assoc_table:
  "assoc_table hash_get hash_set hash_del hash_abs (key_eq ks) (table_inv ks) table_weight"
proof
  fix t :: "('k, 'v) cad_hash_impl" and k v
  assume t: "table_inv ks t"
  then have inv: "hash_inv t" and ks: "hi_keys t = ks" by (simp_all add: table_inv_def)
  show "hash_get t k = Some (or_null (hash_abs t k))" by (rule hash_get_abs [OF inv ks])
  show "\<exists>t'. hash_set t k v = Some (or_null (hash_abs t k), t') \<and> table_inv ks t' \<and>
      table_weight t' \<le> table_weight t + 3 \<and>
      hash_abs t' = (\<lambda>k'. if key_eq ks k' k then Some v else hash_abs t k')"
    if "table_weight t \<le> 2 ^ 29"
  proof -
    have "hi_capacity t \<le> 2 ^ 29" using that by (simp add: table_weight_def)
    from hash_set_total [OF inv ks this, of k v] obtain t' where
      "hash_set t k v = Some (or_null (hash_abs t k), t')" "hash_inv t'" "hi_keys t' = ks"
      "\<And>k'. hash_abs t' k' = (if keys_compare ks k' k = 0 then Some v else hash_abs t k')"
      "hi_count t' = hi_count t + (if hash_abs t k = None then 1 else 0)"
      "hi_capacity t' \<le> max 4 (max (hi_capacity t) (3 * hi_count t))" by metis
    then show ?thesis
      by (intro exI [of _ t']) (auto simp: table_inv_def key_eq_def table_weight_def)
  qed
  show "\<exists>t'. hash_del t k = Some (or_null (hash_abs t k), t') \<and> table_inv ks t' \<and>
      table_weight t' \<le> table_weight t \<and>
      hash_abs t' = (\<lambda>k'. if key_eq ks k' k then None else hash_abs t k')"
  proof -
    from hash_del_total [OF inv ks, of k] obtain t' where
      "hash_del t k = Some (or_null (hash_abs t k), t')" "hash_inv t'" "hi_keys t' = ks"
      "\<And>k'. hash_abs t' k' = (if keys_compare ks k' k = 0 then None else hash_abs t k')"
      "hi_count t' = hi_count t - (if hash_abs t k = None then 0 else 1)"
      "hi_capacity t' = hi_capacity t" by metis
    then show ?thesis
      by (intro exI [of _ t']) (auto simp: table_inv_def key_eq_def table_weight_def)
  qed
qed

end

interpretation string_table:
  assoc_table hash_get hash_set hash_del hash_abs "key_eq cad_hash_strings" "table_inv cad_hash_strings" table_weight
  by (rule string_keys.hash_provides_assoc_table)

lemma key_eq_strings [simp]: "key_eq cad_hash_strings a b \<longleftrightarrow> a = b"
  by (simp add: key_eq_def)

lemma new_table:
  "cad_new_hash malloc_ok salt w ks = (Some t, w') \<Longrightarrow>
   table_inv ks t \<and> table_weight t = 4 \<and> hash_abs t = (\<lambda>_. None)"
  using cad_new_hash_inv [of malloc_ok salt w ks t w'] by (auto simp: table_inv_def table_weight_def)

end
