(* ===== verification/Cad_Hash_Props.thy ===== *)
theory Cad_Hash_Props
  imports Cad_Table
begin

text \<open>
  The properties of the hash table, over any keys manager that keeps its contract (the
  premise \<open>hash_keys ks\<close>), with their instances at concrete tables. A small manager of
  word keys, with the identity as hash function, serves the instances where the slots
  matter.
\<close>

section \<open>Instances\<close>

definition word_keys :: "u32 cad_hash_keys" where
  "word_keys = \<lparr>keys_hash = (\<lambda>k. k), keys_compare = (\<lambda>a b. if a = b then 0 else 1), keys_clone = (\<lambda>k. k)\<rparr>"

interpretation word_keys: hash_keys word_keys
  by unfold_locales (auto simp: word_keys_def split: if_splits)

definition new_strings :: "(cstring, nat) cad_hash_impl" where
  "new_strings = \<lparr>hi_keys = cad_hash_strings, hi_capacity = 0, hi_count = 0, hi_salt = 0,
                  hi_entries = [], hi_live = {#}\<rparr>"

lemma new_strings_created: "cad_new_hash True (\<lambda>u. (0, u)) () cad_hash_strings = (Some new_strings, ())"
  by (simp add: cad_new_hash_def new_strings_def)

lemma new_strings_inv:
  "hash_inv new_strings" "hi_keys new_strings = cad_hash_strings" "hi_capacity new_strings = 0"
  "hash_abs new_strings k = None"
  using cad_new_hash_inv [OF new_strings_created] by auto

section \<open>The table is a finite map\<close>

text \<open>
  C1. Every run of at most \<open>2 ^ 27\<close> operations \<open>get\<close>, \<open>set\<close>, \<open>del\<close> on a new hash table
  returns (no probe loop or rehash runs forever, no access is out of bounds, no \<open>int\<close>
  overflows, no key is released twice), and every operation returns what it returns on a
  finite map whose keys are taken up to \<open>compare\<close>.
\<close>

theorem hash_run_refines_map:
  assumes "hash_keys ks" "cad_new_hash malloc_ok salt w ks = (Some t, w')" "length ops \<le> 2 ^ 27"
  shows "\<exists>t'. table_run hash_get hash_set hash_del t ops =
      Some (fst (map_run (key_eq ks) (\<lambda>_. None) ops), t') \<and>
    hash_inv t' \<and> hash_abs t' = snd (map_run (key_eq ks) (\<lambda>_. None) ops)"
  using assoc_table.run_refines [OF hash_keys.hash_provides_assoc_table [OF assms(1)], of t ops]
    new_table [OF assms(2)] assms(3) by (auto simp: table_inv_def)

theorem hash_run_refines_map_witness:
  "\<exists>t'. table_run hash_get hash_set hash_del new_strings
      [Op_Set ''foo'' (Some 1), Op_Set ''bar'' (Some 2), Op_Get ''foo'', Op_Set ''foo'' (Some 42),
       Op_Del ''foo'', Op_Get ''foo'', Op_Get ''bar''] =
    Some ([NULL, NULL, Some 1, Some 1, Some 42, NULL, Some 2], t') \<and> hash_inv t'"
  using hash_run_refines_map [OF string_keys.hash_keys_axioms new_strings_created,
      of "[Op_Set ''foo'' (Some 1), Op_Set ''bar'' (Some 2), Op_Get ''foo'', Op_Set ''foo'' (Some 42),
       Op_Del ''foo'', Op_Get ''foo'', Op_Get ''bar'']"]
  by auto

text \<open>
  C9. \<open>set\<close> returns the previous value of the key (\<open>NULL\<close> when it has none), binds the key
  to the new value, changes no other key, keeps the invariant (whose last clause says that
  exactly the keys of the table are allocated) and counts a new key once; the table grows to
  at most 4 slots or three times the number of keys.
\<close>

theorem hash_set_binds:
  assumes "hash_keys ks" "hash_inv t" "hi_keys t = ks" "hi_capacity t \<le> 2 ^ 29"
  shows "\<exists>t'. hash_set t key v = Some (or_null (hash_abs t key), t') \<and> hash_inv t' \<and>
    (\<forall>k. hash_abs t' k = (if keys_compare ks k key = 0 then Some v else hash_abs t k)) \<and>
    hash_count t' = hash_count t + (if hash_abs t key = None then 1 else 0) \<and>
    hi_capacity t' \<le> max 4 (max (hi_capacity t) (3 * hash_count t))"
  using hash_keys.hash_set_total [OF assms] unfolding hash_count_def by metis

theorem hash_set_binds_witness:
  "\<exists>t'. hash_set new_strings ''foo'' (Some 1) = Some (NULL, t') \<and> hash_inv t' \<and>
    hash_abs t' ''foo'' = Some (Some 1) \<and> hash_abs t' ''bar'' = None \<and> hash_count t' = 1"
  using hash_set_binds [OF string_keys.hash_keys_axioms new_strings_inv(1,2), of "''foo''" "Some 1"]
  by (auto simp: new_strings_inv hash_count_def) (auto simp: new_strings_def)

text \<open>
  C10. \<open>del\<close> returns the value of the key, removes it and nothing else, releases its copy,
  and leaves every remaining key reachable.
\<close>

theorem hash_del_removes:
  assumes "hash_keys ks" "hash_inv t" "hi_keys t = ks"
  shows "\<exists>t'. hash_del t key = Some (or_null (hash_abs t key), t') \<and> hash_inv t' \<and>
    (\<forall>k. hash_abs t' k = (if keys_compare ks k key = 0 then None else hash_abs t k)) \<and>
    hash_count t' = hash_count t - (if hash_abs t key = None then 0 else 1)"
  using hash_keys.hash_del_total [OF assms] unfolding hash_count_def by metis

theorem hash_del_removes_witness:
  "\<exists>t t'. hash_count t = 1 \<and> hash_del t ''foo'' = Some (Some (1 :: nat), t') \<and> hash_count t' = 0 \<and>
    hash_abs t' ''foo'' = None"
proof -
  obtain t :: "(cstring, nat) cad_hash_impl" where t: "hash_inv t" "hi_keys t = cad_hash_strings"
      "hash_abs t ''foo'' = Some (Some 1)" "hi_count t = hi_count new_strings + 1"
    by (rule string_keys.hash_set_total [OF new_strings_inv(1,2), of "''foo''" "Some 1"])
      (auto simp: new_strings_inv)
  from hash_del_removes [OF string_keys.hash_keys_axioms t(1,2), of "''foo''"] t(3,4)
  show ?thesis by (auto simp: hash_count_def new_strings_def)
qed

text \<open>\<open>get\<close> returns the value bound to the key, and \<open>NULL\<close> for a key that is not bound.\<close>

theorem hash_get_looks_up:
  assumes "hash_keys ks" "hash_inv t" "hi_keys t = ks"
  shows "hash_get t key = Some (or_null (hash_abs t key))"
  by (rule hash_keys.hash_get_abs [OF assms])

theorem hash_get_looks_up_witness: "hash_get new_strings ''foo'' = Some NULL"
  using hash_get_looks_up [OF string_keys.hash_keys_axioms new_strings_inv(1,2), of "''foo''"]
  by (simp add: new_strings_inv)

section \<open>Probing ends\<close>

text \<open>
  C11. The probe sequence of every hash visits every slot of a table of \<open>2 ^ k\<close> slots within
  \<open>7 + 2 ^ k\<close> steps: seven for the perturbation to vanish and one period of \<open>5 x + 1\<close>.
\<close>

theorem probe_visits_every_slot:
  assumes "k \<le> 32" "s < 2 ^ k"
  shows "\<exists>n < 7 + 2 ^ k. unat (index ((next_index_of ^^ n) \<lparr>index = h, perturb = h\<rparr>)) mod 2 ^ k = s"
  using probe_covers [OF assms, of h] by (simp add: slot_def probe_def)

theorem probe_visits_every_slot_witness:
  "\<exists>n < 23. unat (index ((next_index_of ^^ n) \<lparr>index = 77, perturb = 77\<rparr>)) mod 16 = 3"
  using probe_visits_every_slot [of 4 3 77] by simp

text \<open>
  C12. \<open>index_of\<close> returns in a table whose capacity is a power of two and that has a slot which is
  empty or holds an equal key, be it the only one in a full table, whatever the other entries are:
  either a slot that holds an equal key, or the encoding \<open>- s - 1\<close> of an empty slot \<open>s\<close>.
\<close>

theorem index_of_returns:
  assumes "length es = cap" "pow2_capacity cap"
    and "\<exists>i < cap. ekey (es ! i) = None \<or> (\<exists>k. ekey (es ! i) = Some k \<and> keys_compare ks key k = 0)"
  shows "\<exists>i c. index_of es ks cap \<lparr>hk_key = Some key, hk_hash = h\<rparr> = Some (i, c) \<and>
    (if 0 \<le> i then nat i < cap \<and> (\<exists>k. ekey (es ! nat i) = Some k \<and> keys_compare ks key k = 0)
     else nat (- i - 1) < cap \<and> ekey (es ! nat (- i - 1)) = None)"
proof -
  obtain s where s: "s < cap" "stop_cell ks key (es ! s)"
    using assms(3) by (auto simp: stop_cell_def)
  obtain N where N: "stops ks es key h N"
    "index_of es ks cap \<lparr>hk_key = Some key, hk_hash = h\<rparr> =
     Some (if ekey (es ! slot cap h N) = None then - int (slot cap h N) - 1 else int (slot cap h N), probe h N)"
    using index_of_stops [OF assms(1,2) s] by metis
  have lt: "slot cap h N < cap" using pow2_capacity_pos [OF assms(2)] by simp
  show ?thesis
  proof (cases "ekey (es ! slot cap h N)")
    case None
    then show ?thesis using N(2) lt by simp
  next
    case (Some k)
    then show ?thesis using N assms(1) lt by (simp add: stops_def)
  qed
qed

text \<open>A full table, whose last entry has the key.\<close>

definition full_words :: "(u32, nat) cad_hash_entry list" where
  "full_words = map (\<lambda>k. \<lparr>he_key = \<lparr>hk_key = Some k, hk_hash = k\<rparr>, he_value = Some 0\<rparr>) [4, 5, 6, 7]"

theorem index_of_returns_witness:
  "\<exists>c. index_of full_words word_keys 4 \<lparr>hk_key = Some 7, hk_hash = 8\<rparr> = Some (3, c)"
proof -
  have full: "\<exists>k. ekey (full_words ! i) = Some k \<and> (keys_compare word_keys 7 k = 0 \<longleftrightarrow> i = 3)" if "i < 4" for i
  proof -
    have "i = 0 \<or> i = 1 \<or> i = 2 \<or> i = 3" using that by arith
    then show ?thesis by (elim disjE) (simp_all add: full_words_def word_keys_def)
  qed
  have "\<exists>i < 4. ekey (full_words ! i) = None \<or> (\<exists>k. ekey (full_words ! i) = Some k \<and> keys_compare word_keys 7 k = 0)"
    using full [of 3] by (intro exI [of _ 3]) auto
  from index_of_returns [OF _ pow2_capacity_4 this, of 8]
  obtain i c where r: "index_of full_words word_keys 4 \<lparr>hk_key = Some 7, hk_hash = 8\<rparr> = Some (i, c)"
      "if 0 \<le> i then nat i < 4 \<and> (\<exists>k. ekey (full_words ! nat i) = Some k \<and> keys_compare word_keys 7 k = 0)
       else nat (- i - 1) < 4 \<and> ekey (full_words ! nat (- i - 1)) = None"
    by (auto simp: full_words_def)
  have "0 \<le> i"
  proof (rule ccontr)
    assume "\<not> 0 \<le> i"
    then show False using r(2) full [of "nat (- i - 1)"] by auto
  qed
  then have "nat i = 3" using r(2) full [of "nat i"] by auto
  then show ?thesis using r(1) \<open>0 \<le> i\<close> by auto
qed

text \<open>
  C13. The empty slot is needed: in a full table \<open>index_of\<close> of a key without an equal never
  returns, so the load limit of \<open>set\<close> is what makes lookups end.
\<close>

theorem index_of_full_diverges:
  assumes "length es = cap" "0 < cap"
    and "\<forall>i < cap. \<exists>k. ekey (es ! i) = Some k \<and> keys_compare ks key k \<noteq> 0"
  shows "index_of es ks cap \<lparr>hk_key = Some key, hk_hash = h\<rparr> = None"
proof -
  have never: "\<not> (entries = es \<and> keys = ks \<and> capacity = cap \<and> k = Some key)"
    if "index_of_loop entries keys capacity k c = Some r" for entries keys capacity k c r
  proof (rule index_of_loop.raw_induct [where P = "\<lambda>entries keys capacity k c r.
        \<not> (entries = es \<and> keys = ks \<and> capacity = cap \<and> k = Some key)", OF _ that])
    fix f entries keys capacity k c r
    assume IH: "\<And>entries keys capacity k c r. f entries keys capacity k c = Some r \<Longrightarrow>
        \<not> (entries = es \<and> keys = ks \<and> capacity = cap \<and> k = Some key)"
      and step: "(let result = unat (index c) mod capacity in
        do {
          e \<leftarrow> nth_opt entries result;
          (case ekey e of
             None \<Rightarrow> Some (result, None, c)
           | Some k0 \<Rightarrow> do {
               key' \<leftarrow> k;
               if keys_compare keys key' k0 = 0 then Some (result, Some k0, c)
               else f entries keys capacity k (next_index_of c)
             })
        }) = Some r"
    show "\<not> (entries = es \<and> keys = ks \<and> capacity = cap \<and> k = Some key)"
    proof
      assume eqs: "entries = es \<and> keys = ks \<and> capacity = cap \<and> k = Some key"
      let ?i = "unat (index c) mod cap"
      have "?i < cap" using assms(2) by simp
      with assms(1,3) obtain k0 where "ekey (es ! ?i) = Some k0" "keys_compare ks key k0 \<noteq> 0" "?i < length es"
        by blast
      with step eqs have "f es ks cap (Some key) (next_index_of c) = Some r"
        by (simp add: nth_opt_def Let_def)
      from IH [OF this] show False by simp
    qed
  qed
  have "index_of_loop es ks cap (Some key) \<lparr>index = h, perturb = h\<rparr> = None"
  proof (rule ccontr)
    assume "index_of_loop es ks cap (Some key) \<lparr>index = h, perturb = h\<rparr> \<noteq> None"
    then obtain r where "index_of_loop es ks cap (Some key) \<lparr>index = h, perturb = h\<rparr> = Some r" by auto
    from never [OF this] show False by simp
  qed
  then show ?thesis by (simp add: index_of_def)
qed

theorem index_of_full_diverges_witness:
  "index_of (replicate 4 \<lparr>he_key = \<lparr>hk_key = Some (1 :: u32), hk_hash = 1\<rparr>, he_value = Some (0 :: nat)\<rparr>)
     word_keys 4 \<lparr>hk_key = Some 2, hk_hash = 2\<rparr> = None"
  by (rule index_of_full_diverges) (auto simp: word_keys_def)

section \<open>Rehashing, growth and iteration\<close>

text \<open>
  C14. After a removal has broken probe chains, \<open>rehash\<close> returns, whatever chains are broken
  (it restarts after each move, and each move shortens the path of the moved entry), keeps
  the entries and makes every one of them reachable again.
\<close>

theorem rehash_restores:
  assumes "hash_keys ks" "hi_keys t = ks" "length (hi_entries t) = hi_capacity t"
    and "pow2_capacity (hi_capacity t)" "size (contents (hi_entries t)) < hi_capacity t"
    and "keys_ok ks (hi_salt t) (contents (hi_entries t))"
  shows "\<exists>es'. rehash t = Some (t\<lparr>hi_entries := es'\<rparr>) \<and> contents es' = contents (hi_entries t) \<and>
    all_reach es'"
  using hash_keys.rehash_from_total [OF assms(1,3,2,4,5,6), of 0] by (auto simp: rehash_def)

definition broken_chain :: "(u32, nat) cad_hash_impl" where
  "broken_chain = \<lparr>hi_keys = word_keys, hi_capacity = 4, hi_count = 1, hi_salt = 0,
     hi_entries = [empty_entry, empty_entry, empty_entry,
       \<lparr>he_key = \<lparr>hk_key = Some 5, hk_hash = 5\<rparr>, he_value = Some 50\<rparr>],
     hi_live = {#5#}\<rparr>"

text \<open>Key 5 belongs to slot 1, and sits in slot 3, where a collision had put it.\<close>

theorem rehash_restores_witness:
  "\<not> all_reach (hi_entries broken_chain) \<and>
   (\<exists>es'. rehash broken_chain = Some (broken_chain\<lparr>hi_entries := es'\<rparr>) \<and> all_reach es')"
proof
  have c: "contents (hi_entries broken_chain) = {#(hash_key 5 word_keys 0, Some 50)#}"
    by (simp add: broken_chain_def contents_Cons empty_entry_def hash_key_def word_keys_def)
  have "keys_ok word_keys 0 {#(hash_key 5 word_keys 0, Some (50 :: nat))#}"
    by (auto simp: keys_ok_def dest: size_mset_mono)
  then show "\<exists>es'. rehash broken_chain = Some (broken_chain\<lparr>hi_entries := es'\<rparr>) \<and> all_reach es'"
    using rehash_restores [OF word_keys.hash_keys_axioms, of broken_chain] pow2_capacity_4 c
    by (auto simp: broken_chain_def)
  have "\<not> reach (hi_entries broken_chain) 5 3"
  proof
    have "length (hi_entries broken_chain) = 4" by (simp add: broken_chain_def)
    moreover assume "reach (hi_entries broken_chain) 5 3"
    ultimately obtain n where n: "slot 4 5 n = 3" "\<forall>m < n. ekey (hi_entries broken_chain ! slot 4 5 m) \<noteq> None"
      unfolding reach_def by metis
    have "slot 4 5 0 = 1" by (simp add: slot_def)
    moreover then have "n \<noteq> 0" using n(1) by (metis numeral_eq_one_iff semiring_norm(86))
    ultimately show False using n(2) by (auto simp: broken_chain_def empty_entry_def)
  qed
  moreover have "reach (hi_entries broken_chain) 5 3" if "all_reach (hi_entries broken_chain)"
    using all_reachD [OF that, of 3 5] by (simp add: broken_chain_def)
  ultimately show "\<not> all_reach (hi_entries broken_chain)" by blast
qed

text \<open>
  Growth keeps the entries, makes them all reachable in the new table, and gives a
  capacity of 4 or twice the old one.
\<close>

theorem hash_grow_keeps_entries:
  assumes "hash_keys ks" "hash_inv t" "hi_keys t = ks" "hi_capacity t \<le> 2 ^ 29"
  shows "\<exists>t'. hash_grow t 2 = Some t' \<and> hash_inv t' \<and>
    contents (hi_entries t') = contents (hi_entries t) \<and>
    hi_capacity t' = (if hi_capacity t = 0 then 4 else 2 * hi_capacity t)"
proof -
  note I = assms(2) [unfolded hash_inv_def assms(3)]
  have sz: "size (contents (hi_entries t)) \<le> hi_capacity t"
    using I hash_keys.hash_inv_size [OF assms(1,2)] by (cases "hi_capacity t = 0") auto
  obtain es' cap' where "hash_grow t 2 = Some (t\<lparr>hi_entries := es', hi_capacity := cap'\<rparr>)"
    "cap' = (if hi_capacity t = 0 then 4 else hi_capacity t * 2)"
    "length es' = cap'" "pow2_capacity cap'" "contents es' = contents (hi_entries t)" "all_reach es'"
    by (rule hash_keys.hash_grow_total [OF assms(1) _ assms(3) _ assms(4) sz, of "hi_salt t"]) (use I in auto)
  then show ?thesis using I assms(3)
    by (intro exI [of _ "t\<lparr>hi_entries := es', hi_capacity := cap'\<rparr>"]) (auto simp: hash_inv_def live_keys_def)
qed

theorem hash_grow_keeps_entries_witness:
  "\<exists>t'. hash_grow new_strings 2 = Some t' \<and> hash_inv t' \<and> hi_capacity t' = 4"
  using hash_grow_keeps_entries [OF string_keys.hash_keys_axioms new_strings_inv(1,2)]
  by (auto simp: new_strings_inv)

lemma fold_entries_collect:
  "fold_entries (\<lambda>i k v acc. acc @ [(i, k, v)]) idx es acc =
    acc @ enumerate idx (map (\<lambda>e. (the (ekey e), he_value e)) (filter (\<lambda>e. ekey e \<noteq> None) es))"
proof (induction es arbitrary: idx acc)
  case (Cons e es)
  then show ?case by (cases "ekey e") simp_all
qed simp

lemma ex_in_set_enumerate: "(\<exists>i. (i, x) \<in> set (enumerate n xs)) \<longleftrightarrow> x \<in> set xs"
proof -
  have "(\<exists>i. (i, x) \<in> set (enumerate n xs)) \<longleftrightarrow> x \<in> set (map snd (enumerate n xs))"
    by (force simp del: map_snd_enumerate)
  then show ?thesis by simp
qed

text \<open>
  C15. \<open>iterate\<close> calls the iterator once for each index from 0 to \<open>count - 1\<close>, and the pairs
  it gives are exactly the bindings of the map.
\<close>

theorem hash_iterate_enumerates:
  assumes "hash_keys ks" "hash_inv t" "hi_keys t = ks"
  shows "\<exists>calls. hash_iterate t (\<lambda>i k v acc. acc @ [(i, k, v)]) [] = Some calls \<and>
    map fst calls = [0..<hash_count t] \<and>
    (\<forall>k v. hash_abs t k = Some v \<longleftrightarrow> (\<exists>i k'. (i, k', v) \<in> set calls \<and> keys_compare ks k k' = 0))"
proof -
  let ?f = "filter (\<lambda>e. ekey e \<noteq> None) (hi_entries t)"
  let ?calls = "enumerate 0 (map (\<lambda>e. (the (ekey e), he_value e)) ?f)"
  note I = assms(2) [unfolded hash_inv_def assms(3)]
  have n: "hash_count t = length ?f" using I by (simp add: hash_count_def size_contents)
  have "hash_abs t k = Some v \<longleftrightarrow> (\<exists>i k'. (i, k', v) \<in> set ?calls \<and> keys_compare ks k k' = 0)" for k v
  proof -
    have "(\<exists>i k'. (i, k', v) \<in> set ?calls \<and> keys_compare ks k k' = 0) \<longleftrightarrow>
        (\<exists>k'. (\<exists>i. (i, k', v) \<in> set ?calls) \<and> keys_compare ks k k' = 0)" by blast
    also have "\<dots> \<longleftrightarrow> (\<exists>e \<in> set ?f. keys_compare ks k (the (ekey e)) = 0 \<and> he_value e = v)"
      unfolding ex_in_set_enumerate by auto
    also have "\<dots> \<longleftrightarrow> binds ks (contents (hi_entries t)) k v"
      by (auto simp: binds_def contents_def key_of_def)
    also have "\<dots> \<longleftrightarrow> hash_abs t k = Some v"
      using hash_keys.hash_abs_binds [OF assms(1) _ assms(3)] I by blast
    finally show ?thesis by blast
  qed
  then show ?thesis
    using hash_iterate_total [OF assms(2), of "\<lambda>i k v acc. acc @ [(i, k, v)]" "[]"] n
    by (simp add: fold_entries_collect)
qed

theorem hash_iterate_enumerates_witness:
  "\<exists>t. hash_set new_strings ''foo'' (Some 7) = Some (NULL, t) \<and>
     hash_iterate t (\<lambda>i k v acc. acc @ [(i, k, v)]) [] = Some [(0, ''foo'', Some 7)]"
proof -
  have n: "hi_count new_strings = 0" by (simp add: new_strings_def)
  have cap: "hi_capacity new_strings \<le> 2 ^ 29" by (simp add: new_strings_inv(3))
  obtain t where t: "hash_set new_strings ''foo'' (Some 7) = Some (or_null (hash_abs new_strings ''foo''), t)"
      "hash_inv t" "hi_keys t = cad_hash_strings"
      "\<And>k. hash_abs t k = (if keys_compare cad_hash_strings k ''foo'' = 0 then Some (Some 7) else hash_abs new_strings k)"
      "hi_count t = hi_count new_strings + (if hash_abs new_strings ''foo'' = None then 1 else 0)"
    by (rule string_keys.hash_set_total [OF new_strings_inv(1,2) cap, of "''foo''" "Some 7"]) (rule that)
  have f: "hash_abs t ''foo'' = Some (Some 7)" "hi_count t = 1" using t(4,5) n by (simp_all add: new_strings_inv(4))
  obtain calls where c: "hash_iterate t (\<lambda>i k v acc. acc @ [(i, k, v)]) [] = Some calls" "map fst calls = [0..<1]"
      "\<forall>k v. hash_abs t k = Some v \<longleftrightarrow> (\<exists>i k'. (i, k', v) \<in> set calls \<and> keys_compare cad_hash_strings k k' = 0)"
    using hash_iterate_enumerates [OF string_keys.hash_keys_axioms t(2,3)] f(2) by (auto simp: hash_count_def)
  obtain k v where kv: "calls = [(0, k, v)]" using c(2) by (cases calls) auto
  have "\<exists>i k'. (i, k', Some 7) \<in> set calls \<and> keys_compare cad_hash_strings ''foo'' k' = 0"
    using c(3) f(1) by blast
  then have "calls = [(0, ''foo'', Some 7)]" using kv by auto
  then show ?thesis using t(1) c(1) new_strings_inv(4) by auto
qed

text \<open>
  C16. No key is leaked or released twice: \<open>free\<close> releases every copy that is still
  allocated, and \<open>clean\<close> too, leaving an empty table that can be used again.
\<close>

theorem hash_free_releases_all:
  assumes "hash_inv t"
  shows "hash_free t = Some {#} \<and>
    (\<exists>s t'. hash_clean t iterator data = Some (s, t') \<and> hash_inv t' \<and> hi_live t' = {#} \<and>
      hash_count t' = 0 \<and> (\<forall>k. hash_abs t' k = None))"
  using hash_free_total [OF assms] hash_clean_total [OF assms, of iterator data]
  unfolding hash_count_def by metis

theorem hash_free_releases_all_witness:
  "\<exists>t. hash_count t = 1 \<and> hi_live t = {#''foo''#} \<and> hash_free (t :: (cstring, nat) cad_hash_impl) = Some {#}"
proof -
  obtain t :: "(cstring, nat) cad_hash_impl" where t: "hash_set new_strings ''foo'' (Some 1) = Some (NULL, t)"
      "hash_inv t" "hi_keys t = cad_hash_strings" "hash_abs t ''foo'' = Some (Some 1)"
      "hi_count t = hi_count new_strings + 1"
    by (rule string_keys.hash_set_total [OF new_strings_inv(1,2), of "''foo''" "Some 1"])
      (auto simp: new_strings_inv)
  have c: "size (contents (hi_entries t)) = 1" using t(2,5) by (simp add: hash_inv_def new_strings_def)
  then obtain x where x: "contents (hi_entries t) = {#x#}" using size_1_singleton_mset by blast
  have "binds cad_hash_strings (contents (hi_entries t)) ''foo'' (Some 1)"
    using string_keys.hash_abs_binds [OF _ t(3)] t(2,3,4) unfolding hash_inv_def by metis
  then have "hi_live t = {#''foo''#}" using t(2) x by (auto simp: hash_inv_def live_keys_def)
  moreover have "hash_free t = Some {#}"
    using hash_free_releases_all [OF t(2), of "\<lambda>_ _ _ u. u" "()"] by simp
  ultimately show ?thesis using t(5) by (auto simp: hash_count_def new_strings_def intro!: exI [of _ t])
qed

end
