(* ===== verification/Cad_Array.thy ===== *)
theory Cad_Array
  imports Cad_Prelude
begin

text \<open>
  The dynamic array (src/cad_array.c, include/cad_array.h). The content is modelled in cells
  of one element: \<open>Stored v\<close> is an element copied from the client, \<open>Zeroed\<close> one that
  \<open>memset\<close> has cleared, \<open>Uninit\<close> one that \<open>malloc\<close> or \<open>realloc\<close> has left indeterminate.
  A pointer into the content is its element index. Writes outside the content and sizes
  that overflow \<open>int\<close> are undefined (\<open>None\<close>); allocations are assumed to succeed, since the
  code does not test them.
\<close>

section \<open>Data and memory operations\<close>

datatype 'a cell = Uninit | Zeroed | Stored 'a

record 'a cad_array_impl =
  ai_capacity :: nat
  ai_count :: nat
  ai_eltsize :: nat
  ai_content :: "'a cell list"

text \<open>\<open>memset\<close> to zero, \<open>memcpy\<close> of one element, and \<open>bcopy\<close> (areas may overlap).\<close>

definition memset_cells :: "'a cell list \<Rightarrow> nat \<Rightarrow> nat \<Rightarrow> 'a cell list option" where
  "memset_cells cs off n =
     (if off + n \<le> length cs then Some (take off cs @ replicate n Zeroed @ drop (off + n) cs) else None)"

definition bcopy_cells :: "'a cell list \<Rightarrow> nat \<Rightarrow> nat \<Rightarrow> nat \<Rightarrow> 'a cell list option" where
  "bcopy_cells cs src dst n =
     (if src + n \<le> length cs \<and> dst + n \<le> length cs
      then Some (take dst cs @ take n (drop src cs) @ drop (dst + n) cs) else None)"

section \<open>Operations\<close>

definition array_count :: "'a cad_array_impl \<Rightarrow> nat" where
  "array_count this = ai_count this"

text \<open>\<open>get\<close> returns a pointer to the element.\<close>

definition array_get :: "'a cad_array_impl \<Rightarrow> nat \<Rightarrow> nat ptr" where
  "array_get this i = (if i < ai_count this then Some i else NULL)"

definition array_grow :: "'a cad_array_impl \<Rightarrow> nat \<Rightarrow> 'a cad_array_impl option" where
  "array_grow this grow_factor =
     (if ai_capacity this = 0 then do {
        new_capacity \<leftarrow> c_int (grow_factor * grow_factor);
        _ \<leftarrow> c_int (new_capacity * ai_eltsize this);
        Some (this\<lparr>ai_content := replicate new_capacity Zeroed, ai_capacity := new_capacity\<rparr>)
      } else do {
        new_capacity \<leftarrow> c_int (ai_capacity this * grow_factor);
        _ \<leftarrow> c_int (new_capacity * ai_eltsize this);
        let realloced = take new_capacity (ai_content this) @
                        replicate (new_capacity - ai_capacity this) Uninit;
        content \<leftarrow> memset_cells realloced (ai_count this) (ai_count this);
        Some (this\<lparr>ai_content := content, ai_capacity := new_capacity\<rparr>)
      })"

lemma array_grow_capacity:
  "array_grow this 2 = Some this' \<Longrightarrow>
   ai_capacity this' = (if ai_capacity this = 0 then 4 else 2 * ai_capacity this)"
  by (auto simp: array_grow_def Let_def split: if_splits bind_splits)

text \<open>The loop \<open>while (index >= capacity) grow(this, 2)\<close>.\<close>

function grow_until :: "nat \<Rightarrow> 'a cad_array_impl \<Rightarrow> 'a cad_array_impl option" where
  "grow_until i this =
     (if ai_capacity this \<le> i then do {
        this' \<leftarrow> array_grow this 2;
        grow_until i this'
      } else Some this)"
  by pat_completeness auto
termination
  by (relation "measure (\<lambda>(i, this). Suc i - ai_capacity this)")
    (auto simp: array_grow_capacity)

declare grow_until.simps [simp del]

definition array_insert :: "'a cad_array_impl \<Rightarrow> nat \<Rightarrow> 'a \<Rightarrow> (nat \<times> 'a cad_array_impl) option" where
  "array_insert this i v = do {
     this1 \<leftarrow> (if ai_count this = ai_capacity this then array_grow this 2 else Some this);
     this2 \<leftarrow> grow_until i this1;
     content \<leftarrow> (if i < ai_count this2
                 then bcopy_cells (ai_content this2) i (i + 1) (ai_count this2 - i)
                 else Some (ai_content this2));
     content' \<leftarrow> upd_opt content i (Stored v);
     Some (i, this2\<lparr>ai_content := content',
                    ai_count := if i < ai_count this2 then ai_count this2 + 1 else i + 1\<rparr>)
   }"

definition array_update :: "'a cad_array_impl \<Rightarrow> nat \<Rightarrow> 'a \<Rightarrow> (nat \<times> 'a cad_array_impl) option" where
  "array_update this i v = do {
     this1 \<leftarrow> grow_until i this;
     content \<leftarrow> upd_opt (ai_content this1) i (Stored v);
     Some (i, this1\<lparr>ai_content := content,
                    ai_count := if i < ai_count this1 then ai_count this1 else i + 1\<rparr>)
   }"

definition array_del :: "'a cad_array_impl \<Rightarrow> nat \<Rightarrow> (nat ptr \<times> 'a cad_array_impl) option" where
  "array_del this i =
     (if i < ai_count this then do {
        let count = ai_count this - 1;
        content \<leftarrow>
          (if i < count then do {
             moved \<leftarrow> bcopy_cells (ai_content this) (i + 1) i (count - i);
             memset_cells moved (count + 1) 1
           } else Some (ai_content this));
        Some (Some i, this\<lparr>ai_content := content, ai_count := count\<rparr>)
      } else Some (NULL, this))"

text \<open>\<open>qsort\<close> of the C library is a parameter.\<close>

definition array_sort ::
  "(('a cell \<Rightarrow> 'a cell \<Rightarrow> int) \<Rightarrow> 'a cell list \<Rightarrow> 'a cell list) \<Rightarrow> ('a cell \<Rightarrow> 'a cell \<Rightarrow> int)
    \<Rightarrow> 'a cad_array_impl \<Rightarrow> 'a cad_array_impl" where
  "array_sort qsort comparator this =
     this\<lparr>ai_content := qsort comparator (take (ai_count this) (ai_content this)) @
                       drop (ai_count this) (ai_content this)\<rparr>"

definition array_clear :: "'a cad_array_impl \<Rightarrow> 'a cad_array_impl" where
  "array_clear this = this\<lparr>ai_content := replicate (ai_capacity this) Zeroed, ai_count := 0\<rparr>"

definition cad_new_array :: "bool \<Rightarrow> nat \<Rightarrow> 'a cad_array_impl ptr" where
  "cad_new_array malloc_ok eltsize =
     (if \<not> malloc_ok then NULL
      else Some \<lparr>ai_capacity = 0, ai_count = 0, ai_eltsize = eltsize, ai_content = []\<rparr>)"

section \<open>Release and the interface\<close>

text \<open>\<open>free_\<close> releases the content, unless it is \<open>NULL\<close>, and the object: the result is the number of blocks.\<close>

definition array_free :: "'a cad_array_impl \<Rightarrow> nat" where
  "array_free this = (if ai_capacity this = 0 then 0 else 1) + 1"

text \<open>\<open>struct cad_array_s\<close>, in the order of its slots; \<open>qsort\<close> is a parameter.\<close>

record 'a cad_array =
  array_free_slot :: "'a cad_array_impl \<Rightarrow> nat"
  array_count_slot :: "'a cad_array_impl \<Rightarrow> nat"
  array_get_slot :: "'a cad_array_impl \<Rightarrow> nat \<Rightarrow> nat ptr"
  array_insert_slot :: "'a cad_array_impl \<Rightarrow> nat \<Rightarrow> 'a \<Rightarrow> (nat \<times> 'a cad_array_impl) option"
  array_update_slot :: "'a cad_array_impl \<Rightarrow> nat \<Rightarrow> 'a \<Rightarrow> (nat \<times> 'a cad_array_impl) option"
  array_del_slot :: "'a cad_array_impl \<Rightarrow> nat \<Rightarrow> (nat ptr \<times> 'a cad_array_impl) option"
  array_sort_slot :: "('a cell \<Rightarrow> 'a cell \<Rightarrow> int) \<Rightarrow> 'a cad_array_impl \<Rightarrow> 'a cad_array_impl"
  array_clear_slot :: "'a cad_array_impl \<Rightarrow> 'a cad_array_impl"

definition array_fn ::
  "(('a cell \<Rightarrow> 'a cell \<Rightarrow> int) \<Rightarrow> 'a cell list \<Rightarrow> 'a cell list) \<Rightarrow> 'a cad_array" where
  "array_fn qsort =
     \<lparr>array_free_slot = array_free,
      array_count_slot = array_count,
      array_get_slot = array_get,
      array_insert_slot = array_insert,
      array_update_slot = array_update,
      array_del_slot = array_del,
      array_sort_slot = array_sort qsort,
      array_clear_slot = array_clear\<rparr>"

section \<open>Invariant and abstraction\<close>

definition array_inv :: "'a cad_array_impl \<Rightarrow> bool" where
  "array_inv this \<longleftrightarrow>
     0 < ai_eltsize this \<and> length (ai_content this) = ai_capacity this \<and> ai_count this \<le> ai_capacity this \<and>
     ai_capacity this * ai_eltsize this \<le> INT_MAX"

definition array_abs :: "'a cad_array_impl \<Rightarrow> 'a cell list" where
  "array_abs this = take (ai_count this) (ai_content this)"

lemma length_array_abs [simp]: "array_inv this \<Longrightarrow> length (array_abs this) = ai_count this"
  by (simp add: array_inv_def array_abs_def)

lemma array_inv_new:
  "cad_new_array malloc_ok eltsize = Some this \<Longrightarrow> 0 < eltsize \<Longrightarrow>
     array_inv this \<and> array_abs this = [] \<and> ai_capacity this = 0 \<and> ai_eltsize this = eltsize"
  by (auto simp: cad_new_array_def array_inv_def array_abs_def split: if_splits)

text \<open>Growth keeps the elements. The new slots are cleared only from \<open>count\<close> to \<open>2 * count\<close>.\<close>

lemma array_grow_total:
  assumes "array_inv this" "max 4 (2 * ai_capacity this) * ai_eltsize this \<le> INT_MAX"
  obtains this' where "array_grow this 2 = Some this'" "array_inv this'"
    "array_abs this' = array_abs this" "ai_count this' = ai_count this" "ai_eltsize this' = ai_eltsize this"
    "ai_capacity this' = (if ai_capacity this = 0 then 4 else 2 * ai_capacity this)"
proof (cases "ai_capacity this = 0")
  case True
  then show ?thesis
    using assms that [of "this\<lparr>ai_content := replicate 4 Zeroed, ai_capacity := 4\<rparr>"]
    by (auto simp: array_grow_def array_inv_def array_abs_def c_int_def)
next
  case False
  let ?re = "ai_content this @ replicate (ai_capacity this) Uninit"
  let ?new = "take (ai_count this) ?re @ replicate (ai_count this) Zeroed @ drop (2 * ai_count this) ?re"
  have "2 * ai_capacity this \<le> 2 * ai_capacity this * ai_eltsize this"
    using assms(1) by (simp add: array_inv_def)
  moreover have "2 * ai_capacity this * ai_eltsize this \<le> max 4 (2 * ai_capacity this) * ai_eltsize this"
    by (intro mult_le_mono1) simp
  ultimately have c: "c_int (2 * ai_capacity this * ai_eltsize this) = Some (2 * ai_capacity this * ai_eltsize this)"
      "c_int (2 * ai_capacity this) = Some (2 * ai_capacity this)"
    using assms(2) by (metis c_int_in order.trans)+
  have "array_grow this 2 = Some (this\<lparr>ai_content := ?new, ai_capacity := 2 * ai_capacity this\<rparr>)"
    using False assms(1) c
    by (simp add: array_grow_def array_inv_def memset_cells_def mult.commute [of _ 2] mult_2 [symmetric] del: c_int_Some_iff)
  then show ?thesis
    using that [of "this\<lparr>ai_content := ?new, ai_capacity := 2 * ai_capacity this\<rparr>"] False assms(1) c
    by (auto simp: array_inv_def array_abs_def)
qed

text \<open>What growing leaves in the slots past \<open>count\<close>, in terms of the array before: the first allocation is
  cleared, a further one only up to \<open>2 * count\<close>, and what it adds past that is indeterminate.\<close>

definition grown_cell :: "'a cad_array_impl \<Rightarrow> nat \<Rightarrow> 'a cell" where
  "grown_cell this j =
     (if ai_capacity this = 0 then (if j < 4 then Zeroed else Uninit)
      else if j < 2 * ai_count this then Zeroed
      else if j < ai_capacity this then ai_content this ! j
      else Uninit)"

definition grown_from :: "'a cad_array_impl \<Rightarrow> 'a cad_array_impl \<Rightarrow> bool" where
  "grown_from this this' \<longleftrightarrow>
     ai_capacity this < ai_capacity this' \<and> (ai_capacity this = 0 \<longrightarrow> 4 \<le> ai_capacity this') \<and>
     ai_count this' = ai_count this \<and>
     length (ai_content this') = ai_capacity this' \<and>
     (\<forall>j. ai_count this \<le> j \<and> j < ai_capacity this' \<longrightarrow> ai_content this' ! j = grown_cell this j)"

lemma memset_cells_nth:
  "memset_cells cs off n = Some cs' \<Longrightarrow>
     length cs' = length cs \<and> (off \<le> j \<longrightarrow> j < length cs \<longrightarrow> cs' ! j = (if j < off + n then Zeroed else cs ! j))"
  by (auto simp: memset_cells_def nth_append split: if_splits)

lemma array_grow_from:
  assumes "array_grow this 2 = Some this'" "array_inv this"
  shows "grown_from this this'"
proof (cases "ai_capacity this = 0")
  case True
  then show ?thesis
    using assms by (auto simp: array_grow_def grown_from_def grown_cell_def split: bind_splits)
next
  case False
  obtain content where c: "memset_cells (ai_content this @ replicate (ai_capacity this) Uninit)
        (ai_count this) (ai_count this) = Some content"
      "this' = this\<lparr>ai_content := content, ai_capacity := 2 * ai_capacity this\<rparr>"
    using assms(1,2) False
    by (auto simp: array_grow_def array_inv_def Let_def mult.commute [of _ 2] mult_2 [symmetric] split: bind_splits)
  have len: "length content = 2 * ai_capacity this"
    using memset_cells_nth [OF c(1)] assms(2) by (simp add: array_inv_def)
  have "content ! j = grown_cell this j" if "ai_count this \<le> j" "j < 2 * ai_capacity this" for j
    using memset_cells_nth [OF c(1), of j] that assms(2) False
    by (auto simp: grown_cell_def array_inv_def nth_append)
  then show ?thesis using c(2) len False by (auto simp: grown_from_def)
qed

lemma array_grow_again:
  assumes "grown_from this this1" "array_grow this1 2 = Some this2" "array_inv this" "array_inv this1"
  shows "grown_from this this2"
proof -
  have c: "ai_capacity this < ai_capacity this1" "ai_capacity this = 0 \<longrightarrow> 4 \<le> ai_capacity this1" "ai_count this1 = ai_count this"
      "\<And>j. ai_count this \<le> j \<Longrightarrow> j < ai_capacity this1 \<Longrightarrow> ai_content this1 ! j = grown_cell this j"
    using assms(1) by (auto simp: grown_from_def)
  have g: "grown_from this1 this2"
    by (rule array_grow_from [OF assms(2,4)])
  have "grown_cell this1 j = grown_cell this j" if "ai_count this \<le> j" for j
    using c that assms(3) by (auto simp: grown_cell_def [of this1] array_inv_def) (auto simp: grown_cell_def)
  then show ?thesis using g c by (auto simp: grown_from_def)
qed

text \<open>Room for an index: the doublings that reach it fit in an \<open>int\<close> number of bytes.\<close>

definition array_room :: "'a cad_array_impl \<Rightarrow> nat \<Rightarrow> bool" where
  "array_room this i \<longleftrightarrow> max 4 (2 * max (ai_capacity this) i) * ai_eltsize this \<le> INT_MAX"

lemma array_room_double:
  assumes "array_room this i"
  shows "max 4 (2 * ai_capacity this) * ai_eltsize this \<le> INT_MAX"
proof -
  have "max 4 (2 * ai_capacity this) * ai_eltsize this
      \<le> max 4 (2 * max (ai_capacity this) i) * ai_eltsize this"
    by (intro mult_le_mono1) auto
  then show ?thesis using assms order.trans unfolding array_room_def by blast
qed

lemma grow_until_total:
  assumes "array_inv this" "i < ai_capacity this \<or> array_room this i"
  obtains this' where "grow_until i this = Some this'" "array_inv this'"
    "array_abs this' = array_abs this" "ai_count this' = ai_count this" "ai_eltsize this' = ai_eltsize this"
    "i < ai_capacity this'" "ai_capacity this' \<le> max (ai_capacity this) (max 4 (2 * i))"
    "ai_capacity this \<le> ai_capacity this'"
proof -
  have "\<exists>this'. grow_until i this = Some this' \<and> array_inv this' \<and> array_abs this' = array_abs this \<and>
      ai_count this' = ai_count this \<and> ai_eltsize this' = ai_eltsize this \<and> i < ai_capacity this' \<and>
      ai_capacity this' \<le> max (ai_capacity this) (max 4 (2 * i)) \<and> ai_capacity this \<le> ai_capacity this'"
    using assms
  proof (induction i this rule: grow_until.induct)
    case (1 i this)
    show ?case
    proof (cases "ai_capacity this \<le> i")
      case False
      then show ?thesis using "1.prems" by (subst grow_until.simps) simp
    next
      case True
      have "max 4 (2 * ai_capacity this) * ai_eltsize this \<le> INT_MAX"
        using "1.prems"(2) True array_room_double by auto
      then obtain this1 where g: "array_grow this 2 = Some this1" "array_inv this1"
          "array_abs this1 = array_abs this" "ai_count this1 = ai_count this" "ai_eltsize this1 = ai_eltsize this"
          "ai_capacity this1 = (if ai_capacity this = 0 then 4 else 2 * ai_capacity this)"
        using array_grow_total [OF "1.prems"(1)] by metis
      have "max 4 (2 * max (ai_capacity this1) i) \<le> max 4 (2 * max (ai_capacity this) i) \<or>
          i < ai_capacity this1"
        using True g(6) by (auto split: if_splits)
      moreover have "grow_until i this = grow_until i this1"
        using True g(1) by (subst grow_until.simps) simp
      moreover have ?thesis if "i < ai_capacity this1"
      proof -
        have "grow_until i this1 = Some this1"
          using that by (subst grow_until.simps) simp
        then show ?thesis using g(2-6) True calculation(2) that by auto
      qed
      moreover have ?thesis if "\<not> i < ai_capacity this1"
      proof -
        have "i < ai_capacity this1 \<or> array_room this1 i"
          using "1.prems"(2) that g(5,6) True by (auto simp: array_room_def max_def split: if_splits)
        from "1.IH" [OF True g(1,2) this] show ?thesis
          using calculation(2) g that by (auto split: if_splits)
      qed
      ultimately show ?thesis by blast
    qed
  qed
  then show ?thesis using that by blast
qed

section \<open>Laws of the operations\<close>

lemma store_last:
  "i < length xs \<Longrightarrow> take (Suc i) (xs[i := x]) = take i xs @ [x]"
  "i < length xs \<Longrightarrow> (take (Suc i) xs)[i := x] = take i xs @ [x]"
  by (simp_all add: take_Suc_conv_app_nth list_update_append)

lemma array_insert_total:
  assumes inv: "array_inv this" and room: "array_room this i"
  obtains this' gap where "array_insert this i v = Some (i, this')" "array_inv this'"
    "ai_eltsize this' = ai_eltsize this"
    "length gap = i - ai_count this"
    "array_abs this' = take i (array_abs this) @ gap @ Stored v # drop i (array_abs this)"
    "ai_capacity this' \<le> max (ai_capacity this) (max 4 (2 * max (ai_count this) i))"
proof -
  let ?step = "if ai_count this = ai_capacity this then array_grow this 2 else Some this"
  have "\<exists>this1. ?step = Some this1 \<and> array_inv this1 \<and> array_abs this1 = array_abs this \<and>
      ai_count this1 = ai_count this \<and> ai_eltsize this1 = ai_eltsize this \<and>
      ai_capacity this \<le> ai_capacity this1 \<and> ai_capacity this1 \<le> max (ai_capacity this) (max 4 (2 * ai_count this)) \<and>
      ai_count this < ai_capacity this1"
  proof (cases "ai_count this = ai_capacity this")
    case True
    from array_grow_total [OF inv array_room_double [OF room]] obtain this1 where g: "array_grow this 2 = Some this1" "array_inv this1"
        "array_abs this1 = array_abs this" "ai_count this1 = ai_count this" "ai_eltsize this1 = ai_eltsize this"
        "ai_capacity this1 = (if ai_capacity this = 0 then 4 else 2 * ai_capacity this)"
      by blast
    then show ?thesis using True by auto
  next
    case False
    then show ?thesis using inv by (auto simp: array_inv_def)
  qed
  then obtain this1 where s1: "?step = Some this1" "array_inv this1" "array_abs this1 = array_abs this"
      "ai_count this1 = ai_count this" "ai_eltsize this1 = ai_eltsize this"
      "ai_capacity this \<le> ai_capacity this1" "ai_capacity this1 \<le> max (ai_capacity this) (max 4 (2 * ai_count this))"
      "ai_count this < ai_capacity this1"
    by blast
  have "i < ai_capacity this1 \<or> array_room this1 i"
    using room s1(5,6) by (auto simp: array_room_def max_def split: if_splits)
  from grow_until_total [OF s1(2) this] obtain this2 where s2: "grow_until i this1 = Some this2"
      "array_inv this2" "array_abs this2 = array_abs this1" "ai_count this2 = ai_count this1"
      "ai_eltsize this2 = ai_eltsize this1" "i < ai_capacity this2"
      "ai_capacity this2 \<le> max (ai_capacity this1) (max 4 (2 * i))"
      "ai_capacity this1 \<le> ai_capacity this2"
    by blast
  let ?n = "ai_count this" and ?cs = "ai_content this2"
  have n: "?n < length ?cs" "i < length ?cs" "ai_count this2 = ?n" "array_abs this = take ?n ?cs"
    using s1 s2 by (simp_all add: array_inv_def array_abs_def)
  let ?mid = "if i < ?n then take (i + 1) ?cs @ take (?n - i) (drop i ?cs) @ drop (?n + 1) ?cs else ?cs"
  have len: "length ?mid = length ?cs"
    using n by auto
  have mid: "(if i < ?n then bcopy_cells ?cs i (i + 1) (?n - i) else Some ?cs) = Some ?mid"
    using n by (simp add: bcopy_cells_def)
  define this' where
    "this' = this2\<lparr>ai_content := ?mid[i := Stored v], ai_count := if i < ?n then ?n + 1 else i + 1\<rparr>"
  have upd: "upd_opt ?mid i (Stored v) = Some (?mid[i := Stored v])"
    by (rule upd_opt_in) (use len n(2) in simp)
  have ins: "array_insert this i v = Some (i, this')"
    unfolding array_insert_def s1(1) bind.bind_lunit s2(1) n(3) mid upd this'_def by (rule refl)
  have inv': "array_inv this'"
    using s2(2) len n by (auto simp: array_inv_def this'_def)
  show ?thesis
  proof (rule that [OF ins inv', of "if i < ?n then [] else drop ?n (take i ?cs)"])
    show "ai_eltsize this' = ai_eltsize this"
      using s1 s2 by (simp add: this'_def)
    show "length (if i < ?n then [] else drop ?n (take i ?cs)) = i - ?n"
      using n by auto
    show "ai_capacity this' \<le> max (ai_capacity this) (max 4 (2 * max ?n i))"
      using s1(7) s2(7) by (auto simp: this'_def)
    show "array_abs this' = take i (array_abs this) @
        (if i < ?n then [] else drop ?n (take i ?cs)) @ Stored v # drop i (array_abs this)"
    proof (cases "i < ?n")
      case True
      then have "?mid[i := Stored v] = take i ?cs @ [Stored v] @ take (?n - i) (drop i ?cs) @ drop (?n + 1) ?cs"
        using n by (simp add: store_last list_update_append1)
      then show ?thesis
        using True n by (simp add: this'_def array_abs_def drop_take Suc_diff_le)
    next
      case False
      then have "take (i + 1) (?cs[i := Stored v]) = take ?n ?cs @ drop ?n (take i ?cs) @ [Stored v]"
        using n store_last [of i ?cs] append_take_drop_id [of ?n "take i ?cs"] by (simp add: min_def)
      then show ?thesis
        using False n by (simp add: this'_def array_abs_def)
    qed
  qed
qed

lemma grow_until_from:
  assumes "grow_until i this1 = Some this2" "grown_from this this1" "array_inv this" "array_inv this1"
    "array_room this1 i \<or> i < ai_capacity this1"
  shows "grown_from this this2"
  using assms
proof (induction i this1 rule: grow_until.induct)
  case (1 i this1)
  show ?case
  proof (cases "ai_capacity this1 \<le> i")
    case False
    then show ?thesis using "1.prems"(1,2) by (subst (asm) grow_until.simps) simp
  next
    case True
    with "1.prems"(5) have room: "array_room this1 i" by simp
    obtain t where t: "array_grow this1 2 = Some t" "array_inv t" "ai_eltsize t = ai_eltsize this1"
        "ai_capacity t = (if ai_capacity this1 = 0 then 4 else 2 * ai_capacity this1)"
      using array_grow_total [OF "1.prems"(4) array_room_double [OF room]] by metis
    have "grow_until i t = Some this2"
      using "1.prems"(1) True t(1) by (subst (asm) grow_until.simps) simp
    moreover have "array_room t i \<or> i < ai_capacity t"
      using room t(3,4) True by (auto simp: array_room_def max_def split: if_splits)
    ultimately show ?thesis
      using "1.IH" [OF True t(1) _ array_grow_again [OF "1.prems"(2) t(1) "1.prems"(3,4)] "1.prems"(3) t(2)] by blast
  qed
qed

text \<open>An insertion past the end leaves, between \<open>count\<close> and the index, what growing left there.\<close>

lemma array_insert_gap:
  assumes "array_insert this i v = Some (r, this')" "array_inv this" "array_room this i"
    "ai_count this \<le> j" "j < i"
  shows "array_get this' j = Some j" "array_abs this' ! j =
    (if ai_capacity this \<le> i then grown_cell this j else ai_content this ! j)"
proof -
  let ?step = "if ai_count this = ai_capacity this then array_grow this 2 else Some this"
  obtain this1 this2 where s: "?step = Some this1" "grow_until i this1 = Some this2"
      "ai_count this2 \<le> i \<Longrightarrow> upd_opt (ai_content this2) i (Stored v) = Some (ai_content this') \<and>
         ai_count this' = i + 1 \<and> r = i"
    using assms(1) by (auto simp: array_insert_def split: bind_splits if_splits)
  have s2: "this2 = this \<and> i < ai_capacity this \<or> grown_from this this2 \<and> ai_capacity this \<le> i"
  proof (cases "ai_capacity this \<le> i")
    case False
    then show ?thesis
      using s(1,2) assms(2,4,5) by (auto simp: array_inv_def grow_until.simps [of i])
  next
    case True
    from array_grow_total [OF assms(2) array_room_double [OF assms(3)]] obtain t where t: "array_grow this 2 = Some t"
        "array_inv t" "ai_eltsize t = ai_eltsize this"
        "ai_capacity t = (if ai_capacity this = 0 then 4 else 2 * ai_capacity this)"
      by metis
    have "grow_until i this = grow_until i t"
      using True t(1) by (subst grow_until.simps) simp
    then have "grow_until i t = Some this2"
      using s(1,2) t(1) by (auto split: if_splits)
    moreover have "array_room t i \<or> i < ai_capacity t"
      using assms(3) t(3,4) True by (auto simp: array_room_def max_def split: if_splits)
    ultimately show ?thesis
      using grow_until_from [OF _ array_grow_from [OF t(1) assms(2)] assms(2) t(2)] True by blast
  qed
  have n: "ai_count this2 = ai_count this" using s2 by (auto simp: grown_from_def)
  then have u: "upd_opt (ai_content this2) i (Stored v) = Some (ai_content this')" "ai_count this' = i + 1"
    using s(3) assms(4,5) by auto
  then show "array_get this' j = Some j" using assms(5) by (simp add: array_get_def)
  have c: "ai_content this' = (ai_content this2)[i := Stored v]" "i < length (ai_content this2)"
    using u(1) by (auto simp: upd_opt_def split: if_splits)
  have "array_abs this' ! j = ai_content this2 ! j"
    using u(2) c assms(5) by (simp add: array_abs_def)
  then show "array_abs this' ! j = (if ai_capacity this \<le> i then grown_cell this j else ai_content this ! j)"
    using s2 c(2) assms(4,5) by (auto simp: grown_from_def)
qed

lemma array_update_total:
  assumes inv: "array_inv this" and room: "i < ai_capacity this \<or> array_room this i"
  obtains this' gap where "array_update this i v = Some (i, this')" "array_inv this'"
    "ai_eltsize this' = ai_eltsize this"
    "length gap = i - ai_count this"
    "array_abs this' = (if i < ai_count this then (array_abs this)[i := Stored v]
                        else array_abs this @ gap @ [Stored v])"
proof -
  from grow_until_total [OF inv room] obtain this1 where s1: "grow_until i this = Some this1"
      "array_inv this1" "array_abs this1 = array_abs this" "ai_count this1 = ai_count this"
      "ai_eltsize this1 = ai_eltsize this" "i < ai_capacity this1"
    by metis
  let ?n = "ai_count this" and ?cs = "ai_content this1"
  have n: "?n \<le> length ?cs" "i < length ?cs" "array_abs this = take ?n ?cs"
    using s1 by (auto simp: array_inv_def array_abs_def)
  define this' where
    "this' = this1\<lparr>ai_content := ?cs[i := Stored v], ai_count := if i < ?n then ?n else i + 1\<rparr>"
  have upd: "array_update this i v = Some (i, this')"
    using s1(1,4) n(2) by (simp add: array_update_def this'_def upd_opt_in)
  have inv': "array_inv this'"
    using s1(2) n by (auto simp: array_inv_def this'_def)
  show ?thesis
  proof (rule that [OF upd inv', of "drop ?n (take i ?cs)"])
    show "ai_eltsize this' = ai_eltsize this"
      using s1 by (simp add: this'_def)
    show "length (drop ?n (take i ?cs)) = i - ?n"
      using n by auto
    show "array_abs this' = (if i < ?n then (array_abs this)[i := Stored v]
        else array_abs this @ drop ?n (take i ?cs) @ [Stored v])"
      using n append_take_drop_id [of ?n "take i ?cs"]
      by (auto simp: this'_def array_abs_def store_last take_update_swap min_def)
  qed
qed

lemma array_get_abs:
  "array_inv this \<Longrightarrow> i < ai_count this \<Longrightarrow>
   array_get this i = Some i \<and> nth_opt (ai_content this) i = Some (array_abs this ! i)"
  by (auto simp: array_get_def array_inv_def array_abs_def)

lemma array_get_outside: "array_get this i = NULL \<longleftrightarrow> length (array_abs this) \<le> i" if "array_inv this"
  using that by (simp add: array_get_def)

text \<open>\<open>del\<close> moves the tail down, then clears the slot two past the new last element.\<close>

lemma array_del_total:
  assumes inv: "array_inv this" and i: "i < ai_count this"
    and slot: "i + 1 = ai_count this \<or> ai_count this < ai_capacity this"
  obtains this' where "array_del this i = Some (Some i, this')" "array_inv this'"
    "array_abs this' = take i (array_abs this) @ drop (i + 1) (array_abs this)"
    "ai_eltsize this' = ai_eltsize this" "ai_capacity this' = ai_capacity this"
proof (cases "i + 1 = ai_count this")
  case True
  then have [simp]: "ai_count this = Suc i" by simp
  show ?thesis
    by (rule that [of "this\<lparr>ai_content := ai_content this, ai_count := i\<rparr>"])
      (use inv in \<open>auto simp: array_del_def array_inv_def array_abs_def\<close>)
next
  case False
  let ?n = "ai_count this" and ?cs = "ai_content this"
  have n: "i + 1 < ?n" "?n < length ?cs"
    using False i slot inv by (auto simp: array_inv_def)
  let ?moved = "take i ?cs @ take (?n - 1 - i) (drop (i + 1) ?cs) @ drop (?n - 1) ?cs"
  let ?cs' = "take ?n ?moved @ [Zeroed] @ drop (?n + 1) ?moved"
  have b: "bcopy_cells ?cs (i + 1) i (?n - 1 - i) = Some ?moved"
    using n by (simp add: bcopy_cells_def)
  have len: "length ?moved = length ?cs"
    using n by simp
  then have m: "memset_cells ?moved ?n 1 = Some ?cs'"
    using n unfolding memset_cells_def by (subst len) simp
  have del: "array_del this i = Some (Some i, this\<lparr>ai_content := ?cs', ai_count := ?n - 1\<rparr>)"
    using n b m by (simp add: array_del_def Let_def)
  show ?thesis
  proof (rule that [OF del])
    show "array_inv (this\<lparr>ai_content := ?cs', ai_count := ?n - 1\<rparr>)"
      using inv n by (auto simp: array_inv_def)
    show "array_abs (this\<lparr>ai_content := ?cs', ai_count := ?n - 1\<rparr>)
        = take i (array_abs this) @ drop (i + 1) (array_abs this)"
      using n by (simp add: array_abs_def drop_take)
  qed simp_all
qed

lemma array_del_faults:
  assumes "array_inv this" "i + 1 < ai_count this" "ai_count this = ai_capacity this"
  shows "array_del this i = None"
  using assms by (simp add: array_del_def array_inv_def bcopy_cells_def memset_cells_def Let_def)

lemma array_sort_abs:
  assumes "array_inv this" "\<And>xs. mset (qsort c xs) = mset xs"
  shows "array_inv (array_sort qsort c this)" "array_abs (array_sort qsort c this) = qsort c (array_abs this)"
proof -
  have "length (qsort c (array_abs this)) = length (array_abs this)"
    using assms(2) by (metis size_mset)
  then show "array_inv (array_sort qsort c this)" "array_abs (array_sort qsort c this) = qsort c (array_abs this)"
    using assms(1) by (auto simp: array_sort_def array_inv_def array_abs_def)
qed

lemma array_clear_abs:
  "array_inv this \<Longrightarrow> array_inv (array_clear this) \<and> array_abs (array_clear this) = [] \<and>
     ai_capacity (array_clear this) = ai_capacity this"
  by (simp add: array_clear_def array_inv_def array_abs_def)

end
