(* ===== verification/Cad_Stack.thy ===== *)
theory Cad_Stack
  imports Cad_Array
begin

text \<open>
  Arrays as stacks. The stache renderer keeps its open loops and its partials in arrays it
  only touches at the end: \<open>insert\<close> at \<open>count\<close>, \<open>get\<close> and \<open>del\<close> at \<open>count - 1\<close>
  (src/cad_stache.c). The locale \<open>stack\<close> is that interface, and its client lemma is about any
  run of the three operations. The array provides it.
\<close>

section \<open>The three idioms\<close>

text \<open>\<open>insert(a, count(a), &v)\<close>\<close>

definition array_push :: "'a cad_array_impl \<Rightarrow> 'a \<Rightarrow> 'a cad_array_impl option" where
  "array_push this v = do {
     (_, this') \<leftarrow> array_insert this (array_count this) v;
     Some this'
   }"

text \<open>\<open>get(a, count(a) - 1)\<close>, read through the pointer; \<open>NULL\<close> when there is no element.\<close>

definition array_top :: "'a cad_array_impl \<Rightarrow> 'a cell ptr option" where
  "array_top this =
     (if array_count this = 0 then Some NULL
      else case array_get this (array_count this - 1) of
        None \<Rightarrow> Some NULL
      | Some i \<Rightarrow> map_option Some (nth_opt (ai_content this) i))"

text \<open>\<open>del(a, count(a) - 1)\<close>, guarded by \<open>count(a) > 0\<close> as its callers do.\<close>

definition array_pop :: "'a cad_array_impl \<Rightarrow> 'a cad_array_impl option" where
  "array_pop this =
     (if array_count this = 0 then Some this
      else do {
        (_, this') \<leftarrow> array_del this (array_count this - 1);
        Some this'
      })"

section \<open>Runs\<close>

datatype 'a stack_op = Push 'a | Peek | Pop

text \<open>On a list whose head is the top: the values read by \<open>Peek\<close>, and the final list.\<close>

fun list_run :: "'a list \<Rightarrow> 'a stack_op list \<Rightarrow> 'a ptr list \<times> 'a list" where
  "list_run xs [] = ([], xs)"
| "list_run xs (Push v # ops) = list_run (v # xs) ops"
| "list_run xs (Peek # ops) =
     (let (rs, ys) = list_run xs ops in ((case xs of [] \<Rightarrow> NULL | x # _ \<Rightarrow> Some x) # rs, ys))"
| "list_run xs (Pop # ops) = list_run (tl xs) ops"

fun stack_run ::
  "('s \<Rightarrow> 'a \<Rightarrow> 's option) \<Rightarrow> ('s \<Rightarrow> 'c ptr option) \<Rightarrow> ('s \<Rightarrow> 's option) \<Rightarrow> 's \<Rightarrow> 'a stack_op list
    \<Rightarrow> ('c ptr list \<times> 's) option" where
  "stack_run push peek pop s [] = Some ([], s)"
| "stack_run push peek pop s (Push v # ops) = do { s' \<leftarrow> push s v; stack_run push peek pop s' ops }"
| "stack_run push peek pop s (Peek # ops) = do {
     r \<leftarrow> peek s;
     (rs, s') \<leftarrow> stack_run push peek pop s ops;
     Some (r # rs, s')
   }"
| "stack_run push peek pop s (Pop # ops) = do { s' \<leftarrow> pop s; stack_run push peek pop s' ops }"

section \<open>The interface\<close>

text \<open>\<open>embed\<close> is how a pushed value reads back; \<open>limit\<close> is the depth that is guaranteed.\<close>

locale stack =
  fixes push :: "'s \<Rightarrow> 'a \<Rightarrow> 's option"
    and peek :: "'s \<Rightarrow> 'c ptr option"
    and pop :: "'s \<Rightarrow> 's option"
    and elems :: "'s \<Rightarrow> 'a list"
    and embed :: "'a \<Rightarrow> 'c"
    and invar :: "nat \<Rightarrow> 's \<Rightarrow> bool"
  assumes push_law: "invar limit s \<Longrightarrow> length (elems s) < limit \<Longrightarrow>
      \<exists>s'. push s v = Some s' \<and> invar limit s' \<and> elems s' = v # elems s"
    and peek_law: "invar limit s \<Longrightarrow>
      peek s = Some (case elems s of [] \<Rightarrow> NULL | x # _ \<Rightarrow> Some (embed x))"
    and pop_law: "invar limit s \<Longrightarrow> \<exists>s'. pop s = Some s' \<and> invar limit s' \<and> elems s' = tl (elems s)"
begin

lemma run_refines:
  assumes "invar limit s" "length (elems s) + length ops \<le> limit"
  shows "\<exists>s'. stack_run push peek pop s ops =
      Some (map (map_option embed) (fst (list_run (elems s) ops)), s') \<and>
      invar limit s' \<and> elems s' = snd (list_run (elems s) ops)"
  using assms
proof (induction ops arbitrary: s)
  case Nil
  then show ?case by simp
next
  case (Cons op ops)
  show ?case
  proof (cases op)
    case (Push v)
    then obtain s' where "push s v = Some s'" "invar limit s'" "elems s' = v # elems s"
      using push_law [OF Cons.prems(1)] Cons.prems(2) by fastforce
    then show ?thesis using Push Cons.IH [of s'] Cons.prems(2) by auto
  next
    case Peek
    then show ?thesis
      using Cons.IH [OF Cons.prems(1)] Cons.prems(2) peek_law [OF Cons.prems(1)]
      by (auto split: prod.splits list.splits)
  next
    case Pop
    obtain s' where "pop s = Some s'" "invar limit s'" "elems s' = tl (elems s)"
      using pop_law [OF Cons.prems(1)] by blast
    then show ?thesis using Pop Cons.IH [of s'] Cons.prems(2) by auto
  qed
qed

end

section \<open>The array provides it\<close>

definition array_elems :: "'a cad_array_impl \<Rightarrow> 'a list" where
  "array_elems this = rev (map (\<lambda>c. case c of Stored v \<Rightarrow> v | _ \<Rightarrow> undefined) (array_abs this))"

definition array_stack_inv :: "nat \<Rightarrow> 'a cad_array_impl \<Rightarrow> bool" where
  "array_stack_inv limit this \<longleftrightarrow>
     array_inv this \<and> Uninit \<notin> set (array_abs this) \<and> Zeroed \<notin> set (array_abs this) \<and>
     ai_capacity this \<le> max 4 (2 * limit) \<and> max 8 (4 * limit) * ai_eltsize this \<le> INT_MAX"

lemma stored_elems:
  assumes "Uninit \<notin> set cs" "Zeroed \<notin> set cs"
  shows "map Stored (map (\<lambda>c. case c of Stored v \<Rightarrow> v | _ \<Rightarrow> undefined) cs) = cs"
  using assms by (induction cs) (auto split: cell.splits)

lemma array_abs_elems: "array_stack_inv limit this \<Longrightarrow> array_abs this = rev (map Stored (array_elems this))"
  by (simp add: array_elems_def rev_map [symmetric] stored_elems array_stack_inv_def del: map_map)

lemma length_array_elems [simp]: "array_inv this \<Longrightarrow> length (array_elems this) = ai_count this"
  by (simp add: array_elems_def)

interpretation array_stack: stack array_push array_top array_pop array_elems Stored array_stack_inv
proof
  fix limit and s :: "'a cad_array_impl" and v
  assume s: "array_stack_inv limit s"
  then have inv: "array_inv s" by (simp add: array_stack_inv_def)
  show "\<exists>s'. array_push s v = Some s' \<and> array_stack_inv limit s' \<and> array_elems s' = v # array_elems s"
    if "length (array_elems s) < limit"
  proof -
    have "max 4 (2 * max (ai_capacity s) (ai_count s)) \<le> max 8 (4 * limit)"
      using s that inv by (auto simp: array_stack_inv_def array_inv_def)
    then have "max 4 (2 * max (ai_capacity s) (ai_count s)) * ai_eltsize s \<le> max 8 (4 * limit) * ai_eltsize s"
      by (rule mult_le_mono1)
    then have "array_room s (ai_count s)"
      using s unfolding array_room_def array_stack_inv_def by linarith
    from array_insert_total [OF inv this, of v] obtain s' gap where ins:
        "array_insert s (ai_count s) v = Some (ai_count s, s')" "array_inv s'" "ai_eltsize s' = ai_eltsize s"
        "length gap = ai_count s - ai_count s"
        "array_abs s' = take (ai_count s) (array_abs s) @ gap @ Stored v # drop (ai_count s) (array_abs s)"
        "ai_capacity s' \<le> max (ai_capacity s) (max 4 (2 * max (ai_count s) (ai_count s)))"
      by metis
    then have abs: "array_abs s' = array_abs s @ [Stored v]" using inv by simp
    have "array_stack_inv limit s'"
      using s ins(2,3,6) abs that inv by (auto simp: array_stack_inv_def)
    moreover have "array_elems s' = v # array_elems s"
      by (simp add: array_elems_def abs)
    ultimately show ?thesis
      using ins(1) by (auto simp: array_push_def array_count_def)
  qed
  show "array_top s = Some (case array_elems s of [] \<Rightarrow> NULL | x # _ \<Rightarrow> Some (Stored x))"
  proof (cases "array_elems s")
    case Nil
    then show ?thesis using length_array_elems [OF inv] by (simp add: array_top_def array_count_def)
  next
    case (Cons x xs)
    then have n: "ai_count s = Suc (length xs)" using length_array_elems [OF inv] by simp
    then have "array_abs s ! (ai_count s - 1) = Stored x"
      using array_abs_elems [OF s] Cons by (simp add: nth_append)
    then show ?thesis
      using Cons n array_get_abs [OF inv, of "ai_count s - 1"] by (simp add: array_top_def array_count_def)
  qed
  show "\<exists>s'. array_pop s = Some s' \<and> array_stack_inv limit s' \<and> array_elems s' = tl (array_elems s)"
  proof (cases "ai_count s = 0")
    case True
    then show ?thesis using s length_array_elems [OF inv] by (simp add: array_pop_def array_count_def)
  next
    case False
    then obtain s' where del: "array_del s (ai_count s - 1) = Some (Some (ai_count s - 1), s')" "array_inv s'"
        "array_abs s' = take (ai_count s - 1) (array_abs s) @ drop (ai_count s - 1 + 1) (array_abs s)"
        "ai_eltsize s' = ai_eltsize s" "ai_capacity s' = ai_capacity s"
      using array_del_total [OF inv, of "ai_count s - 1"] by (metis One_nat_def Suc_pred add.commute
          diff_less less_one neq0_conv plus_1_eq_Suc)
    then have abs: "array_abs s' = butlast (array_abs s)"
      using False inv by (simp add: butlast_conv_take)
    have "array_elems s' = tl (array_elems s)"
      by (cases "array_abs s" rule: rev_cases) (simp_all add: array_elems_def abs)
    moreover have "array_stack_inv limit s'"
      using s del(2,4,5) abs by (auto simp: array_stack_inv_def dest: in_set_butlastD)
    ultimately show ?thesis
      using False del(1) by (auto simp: array_pop_def array_count_def)
  qed
qed

end
