(* ===== verification/Cad_Array_Props.thy ===== *)
theory Cad_Array_Props
  imports Cad_Stack
begin

text \<open>
  Properties of the dynamic array: runs of the stack operations, the elements after each
  operation, exactly when \<open>del\<close> stays inside the content, and what the gap left by a far
  insertion holds.
\<close>

lemma new_array_stack_inv:
  "cad_new_array malloc_ok eltsize = Some a \<Longrightarrow> 0 < eltsize \<Longrightarrow> max 8 (4 * limit) * eltsize \<le> INT_MAX \<Longrightarrow>
   array_stack_inv limit a \<and> array_elems a = []"
  by (auto dest!: array_inv_new simp: array_stack_inv_def array_elems_def)

abbreviation pointers :: "nat cad_array_impl ptr" where
  "pointers \<equiv> cad_new_array True 8"

text \<open>C17: a run of pushes, reads of the top and pops on a new array never faults, whatever the
  order, and reads at each point the element that the same run on a list reads.\<close>

theorem array_run_refines_stack:
  assumes "cad_new_array malloc_ok eltsize = Some a" "0 < eltsize"
    and "length ops \<le> limit" "max 8 (4 * limit) * eltsize \<le> INT_MAX"
  shows "\<exists>a'. stack_run array_push array_top array_pop a ops =
      Some (map (map_option Stored) (fst (list_run [] ops)), a') \<and>
      array_elems a' = snd (list_run [] ops)"
  using array_stack.run_refines [of limit a ops] new_array_stack_inv [OF assms(1,2,4)] assms(3) by auto

lemma array_run_refines_stack_witness:
  "\<exists>a a'. pointers = Some a \<and>
     stack_run array_push array_top array_pop a [Push (1::nat), Push 2, Peek, Pop, Peek, Pop, Peek] =
       Some ([Some (Stored 2), Some (Stored 1), None], a') \<and> array_elems a' = []"
proof -
  obtain a where a: "pointers = Some a" by (simp add: cad_new_array_def)
  from array_run_refines_stack [OF a, of "[Push 1, Push 2, Peek, Pop, Peek, Pop, Peek]" 7] a show ?thesis
    by (auto simp: INT_MAX_def)
qed

text \<open>C18: \<open>insert\<close> at an index up to \<open>count\<close> puts the value there and moves the rest up by one;
  the returned pointer addresses the value, and growing changes no element.\<close>

theorem array_insert_shifts:
  assumes "array_inv this" "array_room this i" "i \<le> ai_count this"
  shows "\<exists>this'. array_insert this i v = Some (i, this') \<and> array_inv this' \<and>
    array_abs this' = take i (array_abs this) @ Stored v # drop i (array_abs this) \<and>
    array_get this' i = Some i \<and> ai_content this' ! i = Stored v \<and> ai_count this' = ai_count this + 1"
proof -
  from array_insert_total [OF assms(1,2), of v] obtain this' gap where ins:
      "array_insert this i v = Some (i, this')" "array_inv this'" "length gap = i - ai_count this"
      "array_abs this' = take i (array_abs this) @ gap @ Stored v # drop i (array_abs this)"
    by metis
  have n: "ai_count this' = ai_count this + 1"
    using length_array_abs [OF ins(2)] length_array_abs [OF assms(1)] ins(3,4) assms(3) by simp
  have "array_abs this' ! i = Stored v"
    using ins(3,4) assms by (simp add: nth_append)
  then show ?thesis
    using ins assms(3) n array_get_abs [OF ins(2), of i] by simp
qed

definition abc :: "char cad_array_impl" where
  "abc = \<lparr>ai_capacity = 4, ai_count = 3, ai_eltsize = 8,
          ai_content = [Stored CHR ''a'', Stored CHR ''b'', Stored CHR ''c'', Zeroed]\<rparr>"

lemma array_insert_shifts_witness:
  "\<exists>this'. array_insert abc 1 CHR ''x'' = Some (1, this') \<and>
     array_abs this' = [Stored CHR ''a'', Stored CHR ''x'', Stored CHR ''b'', Stored CHR ''c'']"
  using array_insert_shifts [of abc 1 "CHR ''x''"]
  by (auto simp: abc_def array_inv_def array_room_def array_abs_def INT_MAX_def)

text \<open>\<open>update\<close> replaces the element at an index below \<open>count\<close> and leaves every other one.
  At \<open>count\<close> it appends.\<close>

theorem array_update_replaces:
  assumes "array_inv this" "array_room this i" "i \<le> ai_count this"
  shows "\<exists>this'. array_update this i v = Some (i, this') \<and> array_inv this' \<and>
    array_abs this' = (if i < ai_count this then (array_abs this)[i := Stored v]
                       else array_abs this @ [Stored v])"
  using array_update_total [OF assms(1), of i v] assms by (metis append_Nil diff_is_0_eq length_0_conv)

lemma array_update_replaces_witness:
  "\<exists>this'. array_update abc 1 CHR ''x'' = Some (1, this') \<and>
     array_abs this' = [Stored CHR ''a'', Stored CHR ''x'', Stored CHR ''c'']"
  using array_update_replaces [of abc 1 "CHR ''x''"]
  by (auto simp: abc_def array_inv_def array_room_def array_abs_def INT_MAX_def)

text \<open>C19: \<open>del\<close> below \<open>count\<close> either closes the gap, or writes outside the content. It writes outside
  exactly when the array is full and the element is not the last one.\<close>

theorem array_del_outcome:
  assumes "array_inv this" "i < ai_count this"
  shows "if i + 1 < ai_count this \<and> ai_count this = ai_capacity this
    then array_del this i = None
    else \<exists>this'. array_del this i = Some (Some i, this') \<and> array_inv this' \<and>
      array_abs this' = take i (array_abs this) @ drop (i + 1) (array_abs this)"
proof (cases "i + 1 < ai_count this \<and> ai_count this = ai_capacity this")
  case True
  then show ?thesis using array_del_faults [OF assms(1)] by simp
next
  case False
  then have "i + 1 = ai_count this \<or> ai_count this < ai_capacity this"
    using assms by (auto simp: array_inv_def)
  from array_del_total [OF assms this] show ?thesis using False by (metis (no_types))
qed

lemma array_del_outcome_witness:
  "(\<exists>this'. array_del abc 0 = Some (Some 0, this') \<and> array_abs this' = [Stored CHR ''b'', Stored CHR ''c'']) \<and>
   array_del (abc\<lparr>ai_count := 4\<rparr>) 0 = None"
  using array_del_outcome [of abc 0] array_del_outcome [of "abc\<lparr>ai_count := 4\<rparr>" 0]
  by (auto simp: abc_def array_inv_def array_abs_def INT_MAX_def)

text \<open>C20: an insertion past the end does not clear the gap it leaves: the slots between \<open>count\<close> and the
  index become readable elements, and they hold what was in the content when the index is below the
  capacity. When the array has to grow, they are zero in a first block of four, or below \<open>2 * count\<close>,
  and every slot past the old content is memory that \<open>realloc\<close> left indeterminate.\<close>

theorem array_gap_exposes_uninitialised:
  assumes "array_inv this" "array_room this i" "ai_count this < i"
  shows "\<exists>this'. array_insert this i v = Some (i, this') \<and> ai_count this' = i + 1 \<and>
    array_abs this' ! i = Stored v \<and>
    (\<forall>j. ai_count this \<le> j \<and> j < i \<longrightarrow>
       array_get this' j = Some j \<and>
       array_abs this' ! j =
         (if i < ai_capacity this then ai_content this ! j
          else if ai_capacity this = 0 then (if j < 4 then Zeroed else Uninit)
          else if j < 2 * ai_count this then Zeroed
          else if j < ai_capacity this then ai_content this ! j
          else Uninit))"
proof -
  from array_insert_total [OF assms(1,2), of v] obtain this' gap where ins:
      "array_insert this i v = Some (i, this')" "array_inv this'" "length gap = i - ai_count this"
      "array_abs this' = take i (array_abs this) @ gap @ Stored v # drop i (array_abs this)"
    by metis
  have n: "ai_count this' = i + 1" "array_abs this' ! i = Stored v"
    using length_array_abs [OF ins(2)] length_array_abs [OF assms(1)] ins(3,4) assms(3)
    by (simp_all add: nth_append)
  then show ?thesis
    using ins(1) array_insert_gap [OF ins(1) assms(1,2)]
    by (intro exI [of _ this'] conjI allI impI) (simp_all add: grown_cell_def not_less)
qed

text \<open>One element, then an insertion at 5: the element at 4 was never written.\<close>

lemma array_gap_exposes_uninitialised_witness:
  "\<exists>a a1 a2. pointers = Some a \<and> array_insert a 0 (7 :: nat) = Some (0, a1) \<and>
     array_insert a1 5 9 = Some (5, a2) \<and> array_get a2 4 = Some 4 \<and>
     array_abs a2 ! 0 = Stored 7 \<and> array_abs a2 ! 1 = Zeroed \<and> array_abs a2 ! 4 = Uninit \<and> array_abs a2 ! 5 = Stored 9"
proof -
  have rep: "replicate 4 c = [c, c, c, c]" for c :: "nat cell"
    by (simp add: numeral_eq_Suc)
  let ?a = "\<lparr>ai_capacity = 0, ai_count = 0, ai_eltsize = 8, ai_content = []\<rparr> :: nat cad_array_impl"
  let ?a1 = "\<lparr>ai_capacity = 4, ai_count = 1, ai_eltsize = 8, ai_content = [Stored 7, Zeroed, Zeroed, Zeroed]\<rparr> :: nat cad_array_impl"
  have g1: "array_grow ?a 2 = Some (?a\<lparr>ai_content := [Zeroed, Zeroed, Zeroed, Zeroed], ai_capacity := 4\<rparr>)"
    by (simp add: array_grow_def rep c_int_def INT_MAX_def)
  have a1: "array_insert ?a 0 7 = Some (0, ?a1)"
    by (simp add: array_insert_def g1 grow_until.simps upd_opt_def)
  have inv: "array_inv ?a1" "array_room ?a1 5" "ai_count ?a1 < 5"
    by (simp_all add: array_inv_def array_room_def INT_MAX_def)
  obtain a2 where a2: "array_insert ?a1 5 9 = Some (5, a2)" "array_abs a2 ! 5 = Stored 9"
      "\<forall>j. 1 \<le> j \<and> j < 5 \<longrightarrow> array_get a2 j = Some j \<and>
         array_abs a2 ! j = (if j < 2 then Zeroed else if j < 4 then ai_content ?a1 ! j else Uninit)"
    using array_gap_exposes_uninitialised [OF inv, of 9] by (auto simp del: One_nat_def)
  then have "array_get a2 4 = Some 4" "array_abs a2 ! 4 = Uninit" "array_abs a2 ! 1 = Zeroed"
    by simp_all
  moreover note a2(1,2)
  moreover have "array_abs a2 ! 0 = Stored 7"
  proof -
    obtain gap where "array_abs a2 = take 5 (array_abs ?a1) @ gap @ Stored 9 # drop 5 (array_abs ?a1)"
      using array_insert_total [OF inv(1,2), of 9] a2(1) by (metis option.inject prod.inject)
    then show ?thesis by (simp add: array_abs_def)
  qed
  moreover have "pointers = Some ?a" by (simp add: cad_new_array_def)
  ultimately show ?thesis using a1 by blast
qed

end
