(* ===== verification/Cad_Stream.thy ===== *)
theory Cad_Stream
  imports Cad_Prelude
begin

text \<open>
  The stream interfaces (include/cad_stream.h). A stream object in C is a struct of function
  pointers; a client of the model gets that record of operations and the state they act on.
  The locales state what \<open>item\<close> and \<open>next\<close> promise about the bytes still to read, and what
  \<open>put\<close> promises about the bytes written. The implementations provide them.
\<close>

definition EOF :: int where
  "EOF = -1"

section \<open>Input streams\<close>

record 's cad_input_stream =
  cis_next :: "'s \<Rightarrow> (int \<times> 's) option"
  cis_item :: "'s \<Rightarrow> int option"

text \<open>\<open>n\<close> calls of \<open>next\<close>, their results left aside.\<close>

fun advance :: "'s cad_input_stream \<Rightarrow> nat \<Rightarrow> 's \<Rightarrow> 's option" where
  "advance ops 0 s = Some s"
| "advance ops (Suc n) s = do { (_, s') \<leftarrow> cis_next ops s; advance ops n s' }"

text \<open>What \<open>item\<close> returns for the bytes still to read.\<close>

definition head_item :: "char list \<Rightarrow> int" where
  "head_item bs = (case bs of [] \<Rightarrow> EOF | b # _ \<Rightarrow> char_int b)"

text \<open>
  The result of \<open>next\<close> is fixed only before the end: at the end the string stream returns
  \<open>-1\<close> and the file streams 0.
\<close>

locale input_stream =
  fixes ops :: "'s cad_input_stream"
    and rest :: "'s \<Rightarrow> char list"
    and inv :: "'s \<Rightarrow> bool"
  assumes item_law: "inv s \<Longrightarrow> cis_item ops s = Some (head_item (rest s))"
    and next_law: "inv s \<Longrightarrow>
      \<exists>r s'. cis_next ops s = Some (r, s') \<and> inv s' \<and> rest s' = tl (rest s) \<and> (rest s \<noteq> [] \<longrightarrow> r = 0)"
begin

lemma advance_drops: "inv s \<Longrightarrow> \<exists>s'. advance ops n s = Some s' \<and> inv s' \<and> rest s' = drop n (rest s)"
proof (induction n arbitrary: s)
  case 0
  then show ?case by simp
next
  case (Suc n)
  obtain r s' where "cis_next ops s = Some (r, s')" "inv s'" "rest s' = tl (rest s)"
    using next_law [OF Suc.prems] by blast
  then show ?case using Suc.IH [of s'] by (auto simp: drop_Suc)
qed

lemma item_after:
  assumes "inv s"
  shows "\<exists>s'. advance ops n s = Some s' \<and>
    cis_item ops s' = Some (if n < length (rest s) then char_int (rest s ! n) else EOF)"
proof -
  obtain s' where "advance ops n s = Some s'" "inv s'" "rest s' = drop n (rest s)"
    using advance_drops [OF assms] by blast
  then show ?thesis
    using item_law [of s'] by (auto simp: head_item_def Cons_nth_drop_Suc [symmetric])
qed

end

section \<open>Output streams\<close>

text \<open>
  The formatted text is an argument of \<open>put\<close>: what \<open>printf\<close> makes of the format and its
  arguments. The result is the number of bytes, as \<open>printf\<close> counts them.
\<close>

record 's cad_output_stream =
  cos_put :: "'s \<Rightarrow> cstring \<Rightarrow> (int \<times> 's) option"
  cos_flush :: "'s \<Rightarrow> 's"

fun put_all :: "'s cad_output_stream \<Rightarrow> 's \<Rightarrow> cstring list \<Rightarrow> 's option" where
  "put_all ops s [] = Some s"
| "put_all ops s (t # ts) = do { (_, s') \<leftarrow> cos_put ops s t; put_all ops s' ts }"

text \<open>\<open>fits limit s\<close>: the bytes written stay within what the stream can hold.\<close>

locale output_stream =
  fixes ops :: "'s cad_output_stream"
    and written :: "'s \<Rightarrow> char list"
    and inv :: "'s \<Rightarrow> bool"
    and limit :: nat
  assumes put_law: "inv s \<Longrightarrow> valid_cstring t \<Longrightarrow> length (written s) + length t \<le> limit \<Longrightarrow>
      \<exists>s'. cos_put ops s t = Some (int (length t), s') \<and> inv s' \<and> written s' = written s @ t"
    and flush_law: "inv s \<Longrightarrow> inv (cos_flush ops s) \<and> written (cos_flush ops s) = written s"
begin

lemma put_all_appends:
  assumes "inv s" "\<forall>t \<in> set ts. valid_cstring t" "length (written s) + length (concat ts) \<le> limit"
  shows "\<exists>s'. put_all ops s ts = Some s' \<and> inv s' \<and> written s' = written s @ concat ts"
  using assms
proof (induction ts arbitrary: s)
  case Nil
  then show ?case by simp
next
  case (Cons t ts)
  obtain s' where s': "cos_put ops s t = Some (int (length t), s')" "inv s'" "written s' = written s @ t"
    using put_law [of s t] Cons.prems by auto
  then show ?case using Cons.IH [OF s'(2)] Cons.prems by auto
qed

end

end
