(* ===== verification/Cad_Stream_String.thy ===== *)
theory Cad_Stream_String
  imports Cad_Stream
begin

text \<open>
  Streams on C strings (src/cad_stream_string.c). The input stream walks the bytes of the
  string up to its terminating NUL. The output stream keeps a buffer that doubles on demand;
  a byte of the buffer is \<open>None\<close> while it is indeterminate.
\<close>

section \<open>Input\<close>

record cad_input_stream_string =
  iss_string :: cstring
  iss_index :: nat

text \<open>Reading \<open>string[i]\<close>: the terminating NUL is the last byte of the object.\<close>

definition string_at :: "cstring \<Rightarrow> nat \<Rightarrow> char option" where
  "string_at s i = nth_opt (s @ [NUL]) i"

definition string_next :: "cad_input_stream_string \<Rightarrow> (int \<times> cad_input_stream_string) option" where
  "string_next this = do {
     c \<leftarrow> string_at (iss_string this) (iss_index this);
     if c \<noteq> NUL then Some (0, this\<lparr>iss_index := iss_index this + 1\<rparr>) else Some (-1, this)
   }"

definition string_item :: "cad_input_stream_string \<Rightarrow> int option" where
  "string_item this = do {
     c \<leftarrow> string_at (iss_string this) (iss_index this);
     let result = char_int c;
     Some (if result \<noteq> 0 then result else EOF)
   }"

definition string_input :: "cad_input_stream_string cad_input_stream" where
  "string_input = \<lparr>cis_next = string_next, cis_item = string_item\<rparr>"

lemma string_input_simps [simp]: "cis_next string_input = string_next" "cis_item string_input = string_item"
  by (simp_all add: string_input_def)

definition new_cad_input_stream_from_string :: "bool \<Rightarrow> cstring \<Rightarrow> cad_input_stream_string ptr" where
  "new_cad_input_stream_from_string malloc_ok s =
     (if \<not> malloc_ok then NULL else Some \<lparr>iss_string = s, iss_index = 0\<rparr>)"

definition string_rest :: "cad_input_stream_string \<Rightarrow> char list" where
  "string_rest this = drop (iss_index this) (iss_string this)"

definition string_inv :: "cad_input_stream_string \<Rightarrow> bool" where
  "string_inv this \<longleftrightarrow> valid_cstring (iss_string this) \<and> iss_index this \<le> length (iss_string this)"

lemma char_int_eq_0_iff [simp]: "char_int c = 0 \<longleftrightarrow> c = NUL"
proof
  assume "char_int c = 0"
  then have "int_char (char_int c) = int_char 0" by simp
  then show "c = NUL" by (simp add: int_char_int) (simp add: int_char_def char_of_def)
qed (simp add: char_int_def)

lemma string_at_rest:
  assumes "string_inv this"
  shows "string_at (iss_string this) (iss_index this) =
    Some (case string_rest this of [] \<Rightarrow> NUL | c # _ \<Rightarrow> c)"
proof (cases "iss_index this < length (iss_string this)")
  case True
  then show ?thesis
    by (simp add: string_at_def string_rest_def nth_opt_def nth_append Cons_nth_drop_Suc [symmetric])
next
  case False
  then show ?thesis
    using assms by (simp add: string_at_def string_rest_def nth_opt_def nth_append string_inv_def)
qed

lemma string_rest_valid: "string_inv this \<Longrightarrow> string_rest this = c # cs \<Longrightarrow> c \<noteq> NUL"
  unfolding string_inv_def string_rest_def valid_cstring_def
  by (metis in_set_dropD list.set_intros(1))

interpretation string_in: input_stream string_input string_rest string_inv
proof
  fix s
  assume inv: "string_inv s"
  show "cis_item string_input s = Some (head_item (string_rest s))"
    using string_at_rest [OF inv] string_rest_valid [OF inv]
    by (auto simp: string_input_def string_item_def head_item_def Let_def split: list.splits)
  show "\<exists>r s'. cis_next string_input s = Some (r, s') \<and> string_inv s' \<and> string_rest s' = tl (string_rest s) \<and>
      (string_rest s \<noteq> [] \<longrightarrow> r = 0)"
  proof (cases "string_rest s")
    case Nil
    then show ?thesis
      using string_at_rest [OF inv] inv by (simp add: string_input_def string_next_def)
  next
    case (Cons c cs)
    then have "iss_index s < length (iss_string s)"
      unfolding string_rest_def by (metis drop_all list.distinct(1) not_le_imp_less)
    moreover have "string_rest (s\<lparr>iss_index := iss_index s + 1\<rparr>) = tl (string_rest s)"
      by (simp add: string_rest_def drop_Suc tl_drop)
    ultimately show ?thesis
      using string_at_rest [OF inv] string_rest_valid [OF inv Cons] Cons inv
      by (simp add: string_input_def string_next_def string_inv_def)
  qed
qed

section \<open>Output\<close>

record cad_output_stream_string =
  oss_string :: "char option list ptr"
  oss_capacity :: nat
  oss_count :: nat

function grow_capacity :: "nat \<Rightarrow> nat \<Rightarrow> nat option" where
  "grow_capacity needed new_capacity =
     (if new_capacity < needed \<and> 0 < new_capacity then do {
        doubled \<leftarrow> c_int (new_capacity * 2);
        grow_capacity needed doubled
      } else Some new_capacity)"
  by pat_completeness auto
termination by (relation "measure (\<lambda>(needed, cap). needed - cap)") auto

declare grow_capacity.simps [simp del]

text \<open>\<open>strcpy\<close>: copies up to the first NUL; reading an indeterminate byte is undefined.\<close>

fun strcpy_bytes :: "char option list \<Rightarrow> char list option" where
  "strcpy_bytes [] = None"
| "strcpy_bytes (None # bs) = None"
| "strcpy_bytes (Some c # bs) =
     (if c = NUL then Some [NUL] else map_option ((#) c) (strcpy_bytes bs))"

text \<open>Storing bytes at an offset of a buffer.\<close>

definition store_bytes :: "char option list \<Rightarrow> nat \<Rightarrow> char list \<Rightarrow> char option list option" where
  "store_bytes buf off bs =
     (if off + length bs \<le> length buf
      then Some (take off buf @ map Some bs @ drop (off + length bs) buf) else None)"

text \<open>The reallocation of \<open>vput\<close>, when the new capacity is larger.\<close>

definition oss_reserve :: "cad_output_stream_string \<Rightarrow> nat \<Rightarrow> cad_output_stream_string option" where
  "oss_reserve this new_capacity =
     (if oss_capacity this < new_capacity then do {
        let new_string = replicate new_capacity None;
        copied \<leftarrow> (case oss_string this of
           None \<Rightarrow> Some new_string
         | Some old \<Rightarrow> do { bytes \<leftarrow> strcpy_bytes old; store_bytes new_string 0 bytes });
        Some (this\<lparr>oss_string := Some copied, oss_capacity := new_capacity\<rparr>)
      } else Some this)"

definition string_vput :: "cad_output_stream_string \<Rightarrow> cstring \<Rightarrow> (int \<times> cad_output_stream_string) option" where
  "string_vput this text = do {
     let c = length text + 1;
     needed \<leftarrow> c_int (c + oss_count this);
     new_capacity \<leftarrow> grow_capacity needed (if oss_capacity this = 0 then 128 else oss_capacity this);
     this1 \<leftarrow> oss_reserve this new_capacity;
     buf \<leftarrow> oss_string this1;
     buf' \<leftarrow> store_bytes buf (oss_count this1) (text @ [NUL]);
     Some (int (length text),
           this1\<lparr>oss_string := Some buf', oss_count := oss_count this1 + length text\<rparr>)
   }"

definition string_flush :: "cad_output_stream_string \<Rightarrow> cad_output_stream_string" where
  "string_flush this = this"

definition string_output :: "cad_output_stream_string cad_output_stream" where
  "string_output = \<lparr>cos_put = string_vput, cos_flush = string_flush\<rparr>"

definition new_cad_output_stream_from_string :: "bool \<Rightarrow> cad_output_stream_string ptr" where
  "new_cad_output_stream_from_string malloc_ok =
     (if \<not> malloc_ok then NULL else Some \<lparr>oss_string = NULL, oss_capacity = 0, oss_count = 0\<rparr>)"

definition string_written :: "cad_output_stream_string \<Rightarrow> char list" where
  "string_written this =
     (case oss_string this of None \<Rightarrow> [] | Some buf \<Rightarrow> map the (take (oss_count this) buf))"

text \<open>The buffer holds a C string of \<open>count\<close> bytes.\<close>

definition oss_inv :: "cad_output_stream_string \<Rightarrow> bool" where
  "oss_inv this \<longleftrightarrow>
     (case oss_string this of
        None \<Rightarrow> oss_capacity this = 0 \<and> oss_count this = 0
      | Some buf \<Rightarrow> length buf = oss_capacity this \<and> oss_count this < oss_capacity this \<and>
          (\<exists>w garbage. buf = map Some (w @ [NUL]) @ garbage \<and> length w = oss_count this \<and> valid_cstring w))"

lemma grow_capacity_total:
  assumes "0 < cap" "2 * needed \<le> INT_MAX"
  obtains cap' where "grow_capacity needed cap = Some cap'" "needed \<le> cap'" "cap \<le> cap'"
    "needed \<le> cap \<Longrightarrow> cap' = cap"
proof -
  have "\<exists>cap'. grow_capacity needed cap = Some cap' \<and> needed \<le> cap' \<and> cap \<le> cap' \<and>
      (needed \<le> cap \<longrightarrow> cap' = cap)"
    using assms
  proof (induction needed cap rule: grow_capacity.induct)
    case (1 needed cap)
    then show ?case
      by (cases "cap < needed") (fastforce simp: grow_capacity.simps [of needed cap] c_int_in)+
  qed
  then show ?thesis using that by blast
qed

lemma strcpy_bytes_valid: "valid_cstring w \<Longrightarrow> strcpy_bytes (map Some w @ Some NUL # garbage) = Some (w @ [NUL])"
  by (induction w) auto

lemma oss_inv_written:
  assumes "oss_inv this"
  shows "oss_count this = length (string_written this)" "valid_cstring (string_written this)"
    "oss_string this = Some old \<Longrightarrow> length old = oss_capacity this \<and>
       (\<exists>garbage. old = map Some (string_written this) @ Some NUL # garbage)"
    "oss_string this = NULL \<Longrightarrow> string_written this = [] \<and> oss_capacity this = 0"
  using assms by (auto simp: oss_inv_def string_written_def split: option.splits)

lemma oss_reserve_total:
  assumes inv: "oss_inv this" and cap: "length (string_written this) < cap" "oss_capacity this \<le> cap"
  shows "\<exists>buf. oss_reserve this cap = Some (this\<lparr>oss_string := Some buf, oss_capacity := cap\<rparr>) \<and>
    length buf = cap \<and> take (oss_count this) buf = map Some (string_written this)"
proof (cases "oss_string this")
  case None
  then show ?thesis
    using oss_inv_written [OF inv] cap by (auto simp: oss_reserve_def)
next
  case (Some old)
  let ?w = "string_written this"
  obtain garbage where old: "old = map Some ?w @ Some NUL # garbage" "length old = oss_capacity this"
    using oss_inv_written(3) [OF inv Some] by blast
  show ?thesis
  proof (cases "oss_capacity this < cap")
    case True
    let ?buf = "map Some ?w @ Some NUL # drop (Suc (length ?w)) (replicate cap None)"
    have "length ?buf = cap \<and> take (oss_count this) ?buf = map Some ?w"
      using cap(1) oss_inv_written(1) [OF inv] by simp
    then show ?thesis
      using Some old cap(1) True strcpy_bytes_valid [OF oss_inv_written(2) [OF inv], of garbage]
      by (intro exI [of _ ?buf]) (simp add: store_bytes_def oss_reserve_def)
  next
    case False
    have "this = this\<lparr>oss_string := Some old, oss_capacity := oss_capacity this\<rparr>"
      using Some by (cases this) simp
    then show ?thesis
      using False cap(2) old oss_inv_written(1) [OF inv]
      by (intro exI [of _ old]) (simp add: oss_reserve_def)
  qed
qed

lemma string_vput_total:
  assumes inv: "oss_inv this" and valid: "valid_cstring text"
    and fits: "2 * (length (string_written this) + length text + 1) \<le> INT_MAX"
  shows "\<exists>this'. string_vput this text = Some (int (length text), this') \<and> oss_inv this' \<and>
    string_written this' = string_written this @ text"
proof -
  let ?w = "string_written this"
  let ?needed = "length text + 1 + oss_count this"
  let ?cap0 = "if oss_capacity this = 0 then 128 else oss_capacity this"
  note w = oss_inv_written(1,2) [OF inv]
  have "0 < ?cap0" "2 * ?needed \<le> INT_MAX"
    using fits w(1) by simp_all
  then obtain cap where cap: "grow_capacity ?needed ?cap0 = Some cap" "?needed \<le> cap" "?cap0 \<le> cap"
    by (rule grow_capacity_total)
  then have "oss_capacity this \<le> cap" "length ?w < cap"
    using w(1) by (simp_all split: if_splits)
  from oss_reserve_total [OF inv this(2,1)] obtain buf where
      buf: "oss_reserve this cap = Some (this\<lparr>oss_string := Some buf, oss_capacity := cap\<rparr>)"
      "length buf = cap" "take (oss_count this) buf = map Some ?w"
    by blast
  define buf' where "buf' = map Some (?w @ text @ [NUL]) @ drop (length ?w + length text + 1) buf"
  have "store_bytes buf (oss_count this) (text @ [NUL]) = Some buf'"
    using cap(2) buf(2,3) w(1) by (simp add: store_bytes_def buf'_def)
  then have "string_vput this text = Some (int (length text),
      this\<lparr>oss_string := Some buf', oss_capacity := cap, oss_count := oss_count this + length text\<rparr>)"
    using cap(1) fits buf(1) w(1) by (simp add: string_vput_def Let_def c_int_in)
  then show ?thesis
    using valid cap(2) buf(2) w
    by (auto simp: oss_inv_def string_written_def [of "_ :: cad_output_stream_string"] buf'_def
        intro!: exI [of _ "string_written this @ text"])
qed

interpretation string_out: output_stream string_output string_written oss_inv "INT_MAX div 2 - 1"
proof
  fix s t
  assume "oss_inv s" "valid_cstring t" "length (string_written s) + length t \<le> INT_MAX div 2 - 1"
  then show "\<exists>s'. cos_put string_output s t = Some (int (length t), s') \<and> oss_inv s' \<and>
      string_written s' = string_written s @ t"
    using string_vput_total [of s t] by (simp add: string_output_def INT_MAX_def)
qed (simp add: string_output_def string_flush_def)

end
