(* ===== verification/Cad_Stream_File.thy ===== *)
theory Cad_Stream_File
  imports Cad_Stream
begin

text \<open>
  Streams on \<open>FILE\<close>s (src/cad_stream_file.c). The input stream reads through a buffer of 4096
  bytes. \<open>FILE\<close> is modelled by what the code uses of it: the bytes it will deliver, whether
  an error comes after them, and the error flag.
\<close>

definition BUFFER_SIZE :: nat where
  "BUFFER_SIZE = 4096"

section \<open>Buffers\<close>

text \<open>The bytes of a buffer not read yet, and the buffer after a read has stored bytes at its start.\<close>

definition pending :: "char option list \<Rightarrow> int \<Rightarrow> int \<Rightarrow> char list" where
  "pending buffer idx limit = map the (drop (nat idx) (take (nat limit) buffer))"

definition filled :: "char option list \<Rightarrow> char list \<Rightarrow> char option list" where
  "filled buffer bs = map Some bs @ drop (length bs) buffer"

definition buffer_ok :: "char option list \<Rightarrow> int \<Rightarrow> int \<Rightarrow> bool" where
  "buffer_ok buffer idx limit \<longleftrightarrow>
     length buffer = BUFFER_SIZE \<and> 0 \<le> idx \<and> 0 \<le> limit \<and> limit \<le> int BUFFER_SIZE \<and>
     (limit = 0 \<or> idx < limit) \<and> None \<notin> set (take (nat limit) buffer)"

lemma length_filled [simp]: "length bs \<le> length buffer \<Longrightarrow> length (filled buffer bs) = length buffer"
  by (simp add: filled_def)

lemma buffer_ok_filled:
  "length buffer = BUFFER_SIZE \<Longrightarrow> length bs \<le> BUFFER_SIZE \<Longrightarrow> buffer_ok (filled buffer bs) 0 (int (length bs))"
  by (auto simp: buffer_ok_def filled_def)

lemma pending_filled: "pending (filled buffer bs) 0 (int (length bs)) = bs"
  by (simp add: pending_def filled_def comp_def)

lemma pending_0 [simp]: "pending buffer idx 0 = []"
  by (simp add: pending_def)

lemma pending_Cons:
  assumes "buffer_ok buffer idx limit" "limit \<noteq> 0"
  shows "\<exists>c. nth_opt buffer (nat idx) = Some (Some c) \<and> pending buffer idx limit = c # pending buffer (idx + 1) limit"
proof -
  have i: "nat idx < length (take (nat limit) buffer)" "nat (idx + 1) = Suc (nat idx)"
    using assms by (auto simp: buffer_ok_def)
  have "take (nat limit) buffer ! nat idx \<noteq> None"
    using assms(1) nth_mem [OF i(1)] unfolding buffer_ok_def by metis
  then obtain c where c: "buffer ! nat idx = Some c" using i(1) by auto
  then show ?thesis
    using i by (simp add: pending_def nth_opt_def Cons_nth_drop_Suc [symmetric])
qed

lemma pending_last: "buffer_ok buffer idx limit \<Longrightarrow> limit \<le> idx + 1 \<Longrightarrow> pending buffer (idx + 1) limit = []"
  by (simp add: pending_def buffer_ok_def)

section \<open>Input\<close>

record c_file =
  fi_bytes :: "char list"
  fi_fails :: bool
  fi_error :: bool

definition fread :: "nat \<Rightarrow> c_file \<Rightarrow> char list \<times> c_file" where
  "fread n file =
     (take n (fi_bytes file),
      file\<lparr>fi_bytes := drop n (fi_bytes file),
           fi_error := fi_error file \<or> fi_fails file \<and> length (fi_bytes file) < n\<rparr>)"

record cad_input_stream_file =
  isf_file :: c_file
  isf_buffer :: "char option list"
  isf_max :: int
  isf_index :: int

definition file_next :: "cad_input_stream_file \<Rightarrow> (int \<times> cad_input_stream_file) option" where
  "file_next this = Some
     (if isf_max this \<noteq> 0 then
        (let this1 = this\<lparr>isf_index := isf_index this + 1\<rparr> in
         if isf_max this1 \<le> isf_index this1 then
           (let (bs, file) = fread BUFFER_SIZE (isf_file this1);
                this2 = this1\<lparr>isf_file := file, isf_buffer := filled (isf_buffer this1) bs,
                              isf_max := int (length bs), isf_index := 0\<rparr>
            in (if isf_max this2 = 0 \<and> fi_error file then -1 else 0, this2))
         else (0, this1))
      else (0, this))"

definition file_item :: "cad_input_stream_file \<Rightarrow> int option" where
  "file_item this =
     (if isf_max this = 0 then Some EOF
      else if isf_index this < 0 then None
      else do {
        byte \<leftarrow> nth_opt (isf_buffer this) (nat (isf_index this));
        map_option char_int byte
      })"

definition file_input :: "cad_input_stream_file cad_input_stream" where
  "file_input = \<lparr>cis_next = file_next, cis_item = file_item\<rparr>"

lemma file_input_simps [simp]: "cis_next file_input = file_next" "cis_item file_input = file_item"
  by (simp_all add: file_input_def)

definition new_cad_input_stream_from_file :: "bool \<Rightarrow> c_file \<Rightarrow> cad_input_stream_file ptr option" where
  "new_cad_input_stream_from_file malloc_ok file =
     (if \<not> malloc_ok then Some NULL
      else do {
        (_, this) \<leftarrow> file_next \<lparr>isf_file = file, isf_buffer = replicate BUFFER_SIZE None,
                              isf_max = -1, isf_index = 0\<rparr>;
        Some (Some this)
      })"

definition file_rest :: "cad_input_stream_file \<Rightarrow> char list" where
  "file_rest this = pending (isf_buffer this) (isf_index this) (isf_max this) @ fi_bytes (isf_file this)"

definition file_inv :: "cad_input_stream_file \<Rightarrow> bool" where
  "file_inv this \<longleftrightarrow>
     buffer_ok (isf_buffer this) (isf_index this) (isf_max this) \<and>
     (isf_max this = 0 \<longrightarrow> fi_bytes (isf_file this) = []) \<and>
     \<not> fi_fails (isf_file this) \<and> \<not> fi_error (isf_file this)"

lemma file_refill:
  assumes "file_inv this \<or> isf_max this = -1 \<and> isf_index this = 0 \<and> length (isf_buffer this) = BUFFER_SIZE \<and>
      \<not> fi_fails (isf_file this) \<and> \<not> fi_error (isf_file this)"
    and "isf_max this \<noteq> 0" "isf_max this \<le> isf_index this + 1"
  shows "\<exists>this'. file_next this = Some (0, this') \<and> file_inv this' \<and> file_rest this' = fi_bytes (isf_file this)"
proof -
  let ?bs = "take BUFFER_SIZE (fi_bytes (isf_file this))"
  have "length (isf_buffer this) = BUFFER_SIZE" "\<not> fi_fails (isf_file this)" "\<not> fi_error (isf_file this)"
    using assms(1) by (auto simp: file_inv_def buffer_ok_def)
  then show ?thesis
    using assms(2,3) buffer_ok_filled [of "isf_buffer this" ?bs] pending_filled [of "isf_buffer this" ?bs]
    by (auto simp: file_next_def fread_def Let_def file_inv_def file_rest_def BUFFER_SIZE_def)
qed

interpretation file_in: input_stream file_input file_rest file_inv
proof
  fix s
  assume inv: "file_inv s"
  then have ok: "buffer_ok (isf_buffer s) (isf_index s) (isf_max s)" by (simp add: file_inv_def)
  show "cis_item file_input s = Some (head_item (file_rest s))"
  proof (cases "isf_max s = 0")
    case True
    then show ?thesis using inv by (simp add: file_input_def file_item_def file_rest_def file_inv_def head_item_def)
  next
    case False
    with pending_Cons [OF ok] ok show ?thesis
      by (auto simp: file_input_def file_item_def file_rest_def head_item_def buffer_ok_def
          simp del: nth_opt_Some_iff)
  qed
  show "\<exists>r s'. cis_next file_input s = Some (r, s') \<and> file_inv s' \<and> file_rest s' = tl (file_rest s) \<and>
      (file_rest s \<noteq> [] \<longrightarrow> r = 0)"
  proof (cases "isf_max s = 0")
    case True
    then show ?thesis using inv by (simp add: file_input_def file_next_def file_rest_def file_inv_def)
  next
    case False
    from pending_Cons [OF ok this] obtain c where c: "pending (isf_buffer s) (isf_index s) (isf_max s)
        = c # pending (isf_buffer s) (isf_index s + 1) (isf_max s)" by blast
    show ?thesis
    proof (cases "isf_max s \<le> isf_index s + 1")
      case True
      then show ?thesis
        using file_refill [of s] inv False c pending_last [OF ok True]
        by (auto simp: file_input_def file_rest_def)
    next
      case no: False
      have "file_inv (s\<lparr>isf_index := isf_index s + 1\<rparr>)"
        using inv no by (auto simp: file_inv_def buffer_ok_def)
      then show ?thesis
        using False no c by (simp add: file_input_def file_next_def file_rest_def)
    qed
  qed
qed

lemma new_file_stream:
  assumes "\<not> fi_fails file" "\<not> fi_error file"
  shows "\<exists>this. new_cad_input_stream_from_file True file = Some (Some this) \<and> file_inv this \<and>
    file_rest this = fi_bytes file"
  using file_refill [of "\<lparr>isf_file = file, isf_buffer = replicate BUFFER_SIZE None, isf_max = -1, isf_index = 0\<rparr>"]
    assms by (auto simp: new_cad_input_stream_from_file_def)

section \<open>Output\<close>

text \<open>A file for writing: the bytes flushed, the bytes still in its buffer, and whether writing fails.\<close>

record c_out_file =
  of_flushed :: "char list"
  of_buffered :: "char list"
  of_fails :: bool

definition vfprintf :: "c_out_file \<Rightarrow> cstring \<Rightarrow> int \<times> c_out_file" where
  "vfprintf file txt =
     (if of_fails file then (-1, file)
      else (int (length txt), file\<lparr>of_buffered := of_buffered file @ txt\<rparr>))"

definition fflush :: "c_out_file \<Rightarrow> c_out_file" where
  "fflush file =
     (if of_fails file then file
      else file\<lparr>of_flushed := of_flushed file @ of_buffered file, of_buffered := []\<rparr>)"

record cad_output_stream_file =
  osf_file :: c_out_file

definition file_vput :: "cad_output_stream_file \<Rightarrow> cstring \<Rightarrow> (int \<times> cad_output_stream_file) option" where
  "file_vput this txt =
     (let (r, file) = vfprintf (osf_file this) txt in Some (r, this\<lparr>osf_file := file\<rparr>))"

definition file_flush :: "cad_output_stream_file \<Rightarrow> cad_output_stream_file" where
  "file_flush this = this\<lparr>osf_file := fflush (osf_file this)\<rparr>"

definition file_output :: "cad_output_stream_file cad_output_stream" where
  "file_output = \<lparr>cos_put = file_vput, cos_flush = file_flush\<rparr>"

definition new_cad_output_stream_from_file :: "bool \<Rightarrow> c_out_file \<Rightarrow> cad_output_stream_file ptr" where
  "new_cad_output_stream_from_file malloc_ok file =
     (if \<not> malloc_ok then NULL else Some \<lparr>osf_file = file\<rparr>)"

definition file_written :: "cad_output_stream_file \<Rightarrow> char list" where
  "file_written this = of_flushed (osf_file this) @ of_buffered (osf_file this)"

definition osf_inv :: "cad_output_stream_file \<Rightarrow> bool" where
  "osf_inv this \<longleftrightarrow> \<not> of_fails (osf_file this)"

interpretation file_out: output_stream file_output file_written osf_inv INT_MAX
  by unfold_locales
    (auto simp: file_output_def file_vput_def vfprintf_def file_written_def osf_inv_def file_flush_def fflush_def)

end
