(* ===== verification/Cad_Stream_Fd.thy ===== *)
theory Cad_Stream_Fd
  imports Cad_Stream_File
begin

text \<open>
  Streams on file descriptors (src/cad_stream_file_descriptor.c). What the descriptor does is
  a script: the results of the successive \<open>read\<close> calls, and how many bytes each \<open>write\<close> accepts.
  \<open>vput\<close> never initialises the variable \<open>m\<close> that counts the bytes written; the value it
  happens to hold is an argument of the model.
\<close>

section \<open>Input\<close>

datatype read_result = Data "char list" | Failure

record c_fd =
  fd_reads :: "read_result list"

text \<open>\<open>read\<close> gives at most the bytes asked for; what is left of a result is read next. At the end
  of the script it returns 0.\<close>

fun read_fd :: "nat \<Rightarrow> c_fd \<Rightarrow> int \<times> char list \<times> c_fd" where
  "read_fd n fd =
     (case fd_reads fd of
        [] \<Rightarrow> (0, [], fd)
      | Failure # later \<Rightarrow> (-1, [], fd\<lparr>fd_reads := later\<rparr>)
      | Data bs # later \<Rightarrow>
          if length bs \<le> n then (int (length bs), bs, fd\<lparr>fd_reads := later\<rparr>)
          else (int n, take n bs, fd\<lparr>fd_reads := Data (drop n bs) # later\<rparr>))"

record cad_input_stream_file_descriptor =
  isd_fd :: c_fd
  isd_buffer :: "char option list"
  isd_max :: int
  isd_index :: int

definition fd_next :: "cad_input_stream_file_descriptor \<Rightarrow> (int \<times> cad_input_stream_file_descriptor) option" where
  "fd_next this = Some
     (if isd_max this \<noteq> 0 then
        (let this1 = this\<lparr>isd_index := isd_index this + 1\<rparr> in
         if isd_max this1 \<le> isd_index this1 then
           (let (n, bs, fd) = read_fd BUFFER_SIZE (isd_fd this1);
                this2 = this1\<lparr>isd_fd := fd, isd_buffer := filled (isd_buffer this1) bs,
                              isd_max := n, isd_index := 0\<rparr>
            in (if isd_max this2 < 0 then -1 else 0, this2))
         else (0, this1))
      else (0, this))"

definition fd_item :: "cad_input_stream_file_descriptor \<Rightarrow> int option" where
  "fd_item this =
     (if isd_max this = 0 then Some EOF
      else if isd_index this < 0 then None
      else do {
        byte \<leftarrow> nth_opt (isd_buffer this) (nat (isd_index this));
        map_option char_int byte
      })"

definition fd_input :: "cad_input_stream_file_descriptor cad_input_stream" where
  "fd_input = \<lparr>cis_next = fd_next, cis_item = fd_item\<rparr>"

lemma fd_input_simps [simp]: "cis_next fd_input = fd_next" "cis_item fd_input = fd_item"
  by (simp_all add: fd_input_def)

definition new_cad_input_stream_from_file_descriptor ::
  "bool \<Rightarrow> c_fd \<Rightarrow> cad_input_stream_file_descriptor ptr option" where
  "new_cad_input_stream_from_file_descriptor malloc_ok fd =
     (if \<not> malloc_ok then Some NULL
      else do {
        (_, this) \<leftarrow> fd_next \<lparr>isd_fd = fd, isd_buffer = replicate BUFFER_SIZE None,
                            isd_max = -1, isd_index = 0\<rparr>;
        Some (Some this)
      })"

text \<open>A descriptor without failures, and whose reads return 0 only at the end.\<close>

definition fd_ok :: "c_fd \<Rightarrow> bool" where
  "fd_ok fd \<longleftrightarrow> Failure \<notin> set (fd_reads fd) \<and> Data [] \<notin> set (fd_reads fd)"

definition fd_bytes :: "c_fd \<Rightarrow> char list" where
  "fd_bytes fd = concat (map (\<lambda>r. case r of Data bs \<Rightarrow> bs | Failure \<Rightarrow> []) (fd_reads fd))"

definition fd_rest :: "cad_input_stream_file_descriptor \<Rightarrow> char list" where
  "fd_rest this = pending (isd_buffer this) (isd_index this) (isd_max this) @ fd_bytes (isd_fd this)"

definition fd_inv :: "cad_input_stream_file_descriptor \<Rightarrow> bool" where
  "fd_inv this \<longleftrightarrow>
     buffer_ok (isd_buffer this) (isd_index this) (isd_max this) \<and>
     (isd_max this = 0 \<longrightarrow> fd_bytes (isd_fd this) = []) \<and> fd_ok (isd_fd this)"

lemma read_fd_ok:
  assumes "fd_ok fd" "0 < n"
  obtains bs fd' where "read_fd n fd = (int (length bs), bs, fd')" "length bs \<le> n" "fd_ok fd'"
    "fd_bytes fd = bs @ fd_bytes fd'" "bs = [] \<Longrightarrow> fd_bytes fd' = []"
proof (cases "fd_reads fd")
  case Nil
  then show ?thesis using assms that [of "[]" fd] by (simp add: fd_bytes_def)
next
  case (Cons r later)
  then obtain bs where r: "r = Data bs" "bs \<noteq> []"
    using assms(1) by (cases r) (auto simp: fd_ok_def)
  show ?thesis
  proof (cases "length bs \<le> n")
    case True
    then show ?thesis
      using Cons r assms(1) that [of bs "fd\<lparr>fd_reads := later\<rparr>"] by (simp add: fd_ok_def fd_bytes_def)
  next
    case False
    then show ?thesis
      using Cons r assms that [of "take n bs" "fd\<lparr>fd_reads := Data (drop n bs) # later\<rparr>"]
      by (simp add: fd_ok_def fd_bytes_def)
  qed
qed

lemma fd_refill:
  assumes "fd_inv this \<or> isd_max this = -1 \<and> isd_index this = 0 \<and> length (isd_buffer this) = BUFFER_SIZE \<and>
      fd_ok (isd_fd this)"
    and "isd_max this \<noteq> 0" "isd_max this \<le> isd_index this + 1"
  shows "\<exists>this'. fd_next this = Some (0, this') \<and> fd_inv this' \<and> fd_rest this' = fd_bytes (isd_fd this)"
proof -
  have ok: "length (isd_buffer this) = BUFFER_SIZE" "fd_ok (isd_fd this)"
    using assms(1) by (auto simp: fd_inv_def buffer_ok_def)
  obtain bs fd' where r: "read_fd BUFFER_SIZE (isd_fd this) = (int (length bs), bs, fd')"
      "length bs \<le> BUFFER_SIZE" "fd_ok fd'" "fd_bytes (isd_fd this) = bs @ fd_bytes fd'"
      "bs = [] \<Longrightarrow> fd_bytes fd' = []"
    by (rule read_fd_ok [OF ok(2), of BUFFER_SIZE]) (auto simp: BUFFER_SIZE_def)
  then show ?thesis
    using assms(2,3) buffer_ok_filled [OF ok(1) r(2)] pending_filled [of "isd_buffer this" bs]
    by (auto simp: fd_next_def Let_def fd_inv_def fd_rest_def simp del: read_fd.simps)
qed

interpretation fd_in: input_stream fd_input fd_rest fd_inv
proof
  fix s
  assume inv: "fd_inv s"
  then have ok: "buffer_ok (isd_buffer s) (isd_index s) (isd_max s)" by (simp add: fd_inv_def)
  show "cis_item fd_input s = Some (head_item (fd_rest s))"
  proof (cases "isd_max s = 0")
    case True
    then show ?thesis using inv by (simp add: fd_input_def fd_item_def fd_rest_def fd_inv_def head_item_def)
  next
    case False
    with pending_Cons [OF ok] ok show ?thesis
      by (auto simp: fd_input_def fd_item_def fd_rest_def head_item_def buffer_ok_def
          simp del: nth_opt_Some_iff)
  qed
  show "\<exists>r s'. cis_next fd_input s = Some (r, s') \<and> fd_inv s' \<and> fd_rest s' = tl (fd_rest s) \<and>
      (fd_rest s \<noteq> [] \<longrightarrow> r = 0)"
  proof (cases "isd_max s = 0")
    case True
    then show ?thesis using inv by (simp add: fd_input_def fd_next_def fd_rest_def fd_inv_def)
  next
    case False
    from pending_Cons [OF ok this] obtain c where c: "pending (isd_buffer s) (isd_index s) (isd_max s)
        = c # pending (isd_buffer s) (isd_index s + 1) (isd_max s)" by blast
    show ?thesis
    proof (cases "isd_max s \<le> isd_index s + 1")
      case True
      then show ?thesis
        using fd_refill [of s] inv False c pending_last [OF ok True]
        by (auto simp: fd_input_def fd_rest_def)
    next
      case no: False
      have "fd_inv (s\<lparr>isd_index := isd_index s + 1\<rparr>)"
        using inv no by (auto simp: fd_inv_def buffer_ok_def)
      then show ?thesis
        using False no c by (simp add: fd_input_def fd_next_def fd_rest_def)
    qed
  qed
qed

lemma new_fd_stream:
  assumes "fd_ok fd"
  shows "\<exists>this. new_cad_input_stream_from_file_descriptor True fd = Some (Some this) \<and> fd_inv this \<and>
    fd_rest this = fd_bytes fd"
  using fd_refill [of "\<lparr>isd_fd = fd, isd_buffer = replicate BUFFER_SIZE None, isd_max = -1, isd_index = 0\<rparr>"]
    assms by (auto simp: new_cad_input_stream_from_file_descriptor_def)

section \<open>Output\<close>

text \<open>\<open>write\<close>: each call accepts at most the next number of the script, or fails when it is negative;
  after the script every byte is accepted.\<close>

record c_fd_out =
  fo_accepts :: "int list"
  fo_bytes :: "char list"

definition write_fd :: "c_fd_out \<Rightarrow> char list \<Rightarrow> int \<times> c_fd_out" where
  "write_fd fd bs =
     (case fo_accepts fd of
        [] \<Rightarrow> (int (length bs), fd\<lparr>fo_bytes := fo_bytes fd @ bs\<rparr>)
      | a # later \<Rightarrow>
          if a < 0 then (-1, fd\<lparr>fo_accepts := later\<rparr>)
          else (let k = min (nat a) (length bs)
                in (int k, fd\<lparr>fo_accepts := later, fo_bytes := fo_bytes fd @ take k bs\<rparr>)))"

record cad_output_stream_file_descriptor =
  osd_fd :: c_fd_out
  osd_buffer :: "char option list"
  osd_capacity :: nat

text \<open>\<open>vsnprintf\<close> into a buffer: at most \<open>bufsize - 1\<close> bytes and the NUL.\<close>

definition vsnprintf :: "char option list \<Rightarrow> nat \<Rightarrow> cstring \<Rightarrow> char option list" where
  "vsnprintf buffer bufsize txt =
     (if bufsize = 0 then buffer
      else filled buffer (take (bufsize - 1) txt @ [NUL]))"

function double_capacity :: "nat \<Rightarrow> nat \<Rightarrow> nat option" where
  "double_capacity n capacity =
     (if capacity \<le> n \<and> 0 < capacity then do {
        doubled \<leftarrow> c_int (2 * capacity);
        double_capacity n doubled
      } else Some capacity)"
  by pat_completeness auto
termination by (relation "measure (\<lambda>(n, capacity). Suc n - capacity)") auto

declare double_capacity.simps [simp del]

text \<open>The bytes from \<open>m\<close> to \<open>n\<close> of the buffer; a negative offset is outside it.\<close>

definition buffer_slice :: "char option list \<Rightarrow> int \<Rightarrow> int \<Rightarrow> char list option" where
  "buffer_slice buffer m n =
     (if m < 0 \<or> int (length buffer) < n \<or> None \<in> set (drop (nat m) (take (nat n) buffer)) then None
      else Some (map the (drop (nat m) (take (nat n) buffer))))"

partial_function (option) write_loop ::
  "char option list \<Rightarrow> int \<Rightarrow> int \<Rightarrow> int \<Rightarrow> c_fd_out \<Rightarrow> (int \<times> c_fd_out) option" where
  "write_loop buffer n m result fd =
     (if m < n then do {
        bs \<leftarrow> buffer_slice buffer m n;
        let (i, fd') = write_fd fd bs;
        if i = 0 then Some (result, fd')
        else write_loop buffer n (m + i) (result + i) fd'
      } else Some (result, fd))"

text \<open>The first half of \<open>vput\<close>: the text is formatted into the buffer, a larger one if needed.\<close>

definition fd_format ::
  "cad_output_stream_file_descriptor \<Rightarrow> cstring \<Rightarrow> cad_output_stream_file_descriptor option" where
  "fd_format this txt = do {
     let n = length txt;
     let this1 = this\<lparr>osd_buffer := vsnprintf (osd_buffer this) (osd_capacity this) txt\<rparr>;
     if osd_capacity this1 \<le> n then do {
        capacity \<leftarrow> c_int (2 * osd_capacity this1);
        capacity' \<leftarrow> double_capacity n capacity;
        Some (this1\<lparr>osd_capacity := capacity',
                    osd_buffer := vsnprintf (replicate capacity' None) capacity' txt\<rparr>)
     } else Some this1
   }"

definition fd_vput ::
  "int \<Rightarrow> cad_output_stream_file_descriptor \<Rightarrow> cstring \<Rightarrow> (int \<times> cad_output_stream_file_descriptor) option" where
  "fd_vput m this txt = do {
     this1 \<leftarrow> fd_format this txt;
     (result, fd) \<leftarrow> write_loop (osd_buffer this1) (int (length txt)) m 0 (osd_fd this1);
     Some (result, this1\<lparr>osd_fd := fd\<rparr>)
   }"

definition fd_flush :: "cad_output_stream_file_descriptor \<Rightarrow> cad_output_stream_file_descriptor" where
  "fd_flush this = this"

definition fd_output :: "int \<Rightarrow> cad_output_stream_file_descriptor cad_output_stream" where
  "fd_output m = \<lparr>cos_put = fd_vput m, cos_flush = fd_flush\<rparr>"

definition new_cad_output_stream_from_file_descriptor :: "c_fd_out \<Rightarrow> cad_output_stream_file_descriptor" where
  "new_cad_output_stream_from_file_descriptor fd =
     \<lparr>osd_fd = fd, osd_buffer = replicate 128 None, osd_capacity = 128\<rparr>"

definition osd_inv :: "cad_output_stream_file_descriptor \<Rightarrow> bool" where
  "osd_inv this \<longleftrightarrow>
     length (osd_buffer this) = osd_capacity this \<and> 0 < osd_capacity this \<and>
     (\<forall>a \<in> set (fo_accepts (osd_fd this)). 0 < a)"

definition fd_written :: "cad_output_stream_file_descriptor \<Rightarrow> char list" where
  "fd_written this = fo_bytes (osd_fd this)"

lemma double_capacity_total:
  assumes "0 < capacity" "2 * n + 2 \<le> INT_MAX"
  shows "\<exists>c. double_capacity n capacity = Some c \<and> n < c"
  using assms
proof (induction n capacity rule: double_capacity.induct)
  case (1 n capacity)
  then show ?case
    by (cases "capacity \<le> n") (fastforce simp: double_capacity.simps [of n capacity] c_int_in)+
qed

lemma vsnprintf_slice:
  assumes "length txt < bufsize" "length buffer = bufsize"
  shows "length (vsnprintf buffer bufsize txt) = bufsize"
    "0 \<le> m \<Longrightarrow> buffer_slice (vsnprintf buffer bufsize txt) m (int (length txt)) = Some (drop (nat m) txt)"
proof -
  have v: "vsnprintf buffer bufsize txt = map Some txt @ map Some [NUL] @ drop (Suc (length txt)) buffer"
    using assms by (simp add: vsnprintf_def filled_def)
  then show "length (vsnprintf buffer bufsize txt) = bufsize" using assms by simp
  show "buffer_slice (vsnprintf buffer bufsize txt) m (int (length txt)) = Some (drop (nat m) txt)" if "0 \<le> m"
  proof -
    have "take (length txt) (vsnprintf buffer bufsize txt) = map Some txt"
      by (simp add: v)
    then show ?thesis
      using that assms by (simp add: buffer_slice_def v drop_map comp_def)
  qed
qed

lemma write_loop_total:
  assumes "\<And>m. 0 \<le> m \<Longrightarrow> buffer_slice buffer m (int (length txt)) = Some (drop (nat m) txt)"
    and "0 \<le> m" "m \<le> int (length txt)" "\<forall>a \<in> set (fo_accepts fd). 0 < a"
  shows "\<exists>fd'. write_loop buffer (int (length txt)) m result fd = Some (result + int (length txt) - m, fd') \<and>
    fo_bytes fd' = fo_bytes fd @ drop (nat m) txt \<and> (\<forall>a \<in> set (fo_accepts fd'). 0 < a)"
  using assms(2-4)
proof (induction "nat (int (length txt) - m)" arbitrary: m result fd rule: less_induct)
  case less
  show ?case
  proof (cases "m < int (length txt)")
    case False
    then show ?thesis using less.prems by (subst write_loop.simps) simp
  next
    case True
    let ?bs = "drop (nat m) txt"
    have len: "length ?bs = length txt - nat m" "?bs \<noteq> []"
      using True less.prems(1) by auto
    obtain k fd1 where w: "write_fd fd ?bs = (int k, fd1)" "0 < k" "k \<le> length ?bs"
        "fo_bytes fd1 = fo_bytes fd @ take k ?bs" "\<forall>a \<in> set (fo_accepts fd1). 0 < a"
    proof (cases "fo_accepts fd")
      case Nil
      then show ?thesis using that [of "length ?bs"] len less.prems by (simp add: write_fd_def)
    next
      case (Cons a later)
      then show ?thesis
        using that [of "min (nat a) (length ?bs)"] len less.prems(3) by (simp add: write_fd_def Let_def)
    qed
    have step: "write_loop buffer (int (length txt)) m result fd =
        write_loop buffer (int (length txt)) (m + int k) (result + int k) fd1"
      using True assms(1) [OF less.prems(1)] w(1,2) by (subst write_loop.simps) simp
    have "nat (int (length txt) - (m + int k)) < nat (int (length txt) - m)"
      using True w(2) by simp
    moreover have "m + int k \<le> int (length txt)" using w(3) len(1) True less.prems(1) by simp
    ultimately obtain fd' where
        "write_loop buffer (int (length txt)) (m + int k) (result + int k) fd1 =
          Some (result + int k + int (length txt) - (m + int k), fd')"
        "fo_bytes fd' = fo_bytes fd1 @ drop (nat (m + int k)) txt" "\<forall>a \<in> set (fo_accepts fd'). 0 < a"
      using less.hyps [of "m + int k" fd1 "result + int k"] less.prems(1) w(5) by fastforce
    moreover have "take k ?bs @ drop (nat (m + int k)) txt = ?bs"
      using less.prems(1) by (simp add: nat_add_distrib add.commute [of "nat m"] drop_drop [symmetric] del: drop_drop)
    ultimately show ?thesis using step w(4) by simp
  qed
qed

lemma fd_format_total:
  assumes inv: "osd_inv this" and fits: "2 * length txt + 2 \<le> INT_MAX"
  shows "\<exists>buffer cap. fd_format this txt =
      Some (this\<lparr>osd_buffer := vsnprintf buffer cap txt, osd_capacity := cap\<rparr>) \<and>
    length txt < cap \<and> length buffer = cap"
proof (cases "osd_capacity this \<le> length txt")
  case True
  then have "c_int (2 * osd_capacity this) = Some (2 * osd_capacity this)"
    using fits by (simp add: c_int_in)
  moreover obtain c where "double_capacity (length txt) (2 * osd_capacity this) = Some c" "length txt < c"
    using double_capacity_total [of "2 * osd_capacity this" "length txt"] inv fits by (auto simp: osd_inv_def)
  ultimately show ?thesis
    using True by (intro exI [of _ c] exI [of _ "replicate c None"]) (simp add: fd_format_def Let_def c_int_in)
next
  case False
  then show ?thesis
    using inv by (intro exI [of _ "osd_capacity this"] exI [of _ "osd_buffer this"])
      (simp add: fd_format_def Let_def osd_inv_def)
qed

text \<open>\<open>vput\<close> writes the text from its byte \<open>m\<close> on.\<close>

lemma fd_vput_from:
  assumes inv: "osd_inv this" and fits: "2 * length txt + 2 \<le> INT_MAX" and m: "0 \<le> m"
  shows "\<exists>this'. fd_vput m this txt = Some (int (length txt - nat m), this') \<and> osd_inv this' \<and>
    fd_written this' = fd_written this @ drop (nat m) txt"
proof -
  obtain buffer cap where b: "fd_format this txt =
      Some (this\<lparr>osd_buffer := vsnprintf buffer cap txt, osd_capacity := cap\<rparr>)"
      "length txt < cap" "length buffer = cap"
    using fd_format_total [OF inv fits] by blast
  note slice = vsnprintf_slice [OF b(2,3)]
  have "\<exists>fd'. write_loop (vsnprintf buffer cap txt) (int (length txt)) m 0 (osd_fd this) =
        Some (int (length txt - nat m), fd') \<and>
      fo_bytes fd' = fo_bytes (osd_fd this) @ drop (nat m) txt \<and> (\<forall>a \<in> set (fo_accepts fd'). 0 < a)"
  proof (cases "m \<le> int (length txt)")
    case True
    then show ?thesis
      using write_loop_total [of "vsnprintf buffer cap txt" "txt" m "osd_fd this" 0] slice(2) inv m
      by (auto simp: osd_inv_def)
  next
    case False
    then show ?thesis
      using inv by (subst write_loop.simps) (simp add: osd_inv_def)
  qed
  then obtain fd' where w: "write_loop (vsnprintf buffer cap txt) (int (length txt)) m 0 (osd_fd this) =
        Some (int (length txt - nat m), fd')"
      "fo_bytes fd' = fo_bytes (osd_fd this) @ drop (nat m) txt" "\<forall>a \<in> set (fo_accepts fd'). 0 < a"
    by blast
  have "fd_vput m this txt = Some (int (length txt - nat m),
      this\<lparr>osd_buffer := vsnprintf buffer cap txt, osd_capacity := cap, osd_fd := fd'\<rparr>)"
    using b(1) w(1) by (simp add: fd_vput_def Let_def)
  then show ?thesis
    using slice(1) w(2,3) b(2) by (auto simp: osd_inv_def fd_written_def)
qed

lemma fd_vput_below:
  assumes "osd_inv this" "2 * length txt + 2 \<le> INT_MAX" "m < 0"
  shows "fd_vput m this txt = None"
  using fd_format_total [OF assms(1,2)] assms(3)
  by (auto simp: fd_vput_def write_loop.simps buffer_slice_def)

text \<open>With \<open>m\<close> at 0 the stream provides the interface.\<close>

interpretation fd_out: output_stream "fd_output 0" fd_written osd_inv "INT_MAX div 2 - 1"
proof
  fix s and t :: cstring
  assume "osd_inv s" "length (fd_written s) + length t \<le> INT_MAX div 2 - 1"
  then show "\<exists>s'. cos_put (fd_output 0) s t = Some (int (length t), s') \<and> osd_inv s' \<and>
      fd_written s' = fd_written s @ t"
    using fd_vput_from [of s t 0] by (simp add: fd_output_def INT_MAX_def)
qed (simp add: fd_output_def fd_flush_def)

end
