(* ===== verification/Cad_Stream_Props.thy ===== *)
theory Cad_Stream_Props
  imports Cad_Stream_String Cad_Stream_Fd
begin

text \<open>
  Properties of the streams: every input stream delivers the bytes of its source in order and
  then \<open>EOF\<close>, whatever the buffer boundaries and the sizes of the reads; every output stream
  delivers the texts put into it in order.
\<close>

section \<open>Input\<close>

text \<open>After \<open>n\<close> calls of \<open>next\<close> on a new stream over a C string, \<open>item\<close> returns its \<open>n\<close>-th
  byte, and \<open>EOF\<close> from its end on.\<close>

theorem string_stream_reads:
  assumes "valid_cstring s" "new_cad_input_stream_from_string malloc_ok s = Some this"
  shows "\<exists>this'. advance string_input n this = Some this' \<and>
    string_item this' = Some (if n < length s then char_int (s ! n) else EOF)"
proof -
  have st: "string_inv this" "string_rest this = s"
    using assms by (auto simp: new_cad_input_stream_from_string_def string_inv_def string_rest_def split: if_splits)
  show ?thesis
    using string_in.item_after [OF st(1), of n] unfolding st(2) by simp
qed

lemma string_stream_reads_witness:
  "\<exists>this this'. new_cad_input_stream_from_string True ''foo'' = Some this \<and>
     advance string_input 3 this = Some this' \<and> string_item this' = Some EOF"
proof -
  obtain this where st: "new_cad_input_stream_from_string True ''foo'' = Some this"
    by (simp add: new_cad_input_stream_from_string_def)
  show ?thesis using string_stream_reads [OF _ st, of 3] st by auto
qed

text \<open>C21: a stream over a file delivers every byte of the file in order and then \<open>EOF\<close>, across the
  refills of its 4096 bytes buffer.\<close>

theorem file_stream_reads:
  assumes "\<not> fi_fails file" "\<not> fi_error file"
  shows "\<exists>this this'. new_cad_input_stream_from_file True file = Some (Some this) \<and>
    advance file_input n this = Some this' \<and>
    file_item this' = Some (if n < length (fi_bytes file) then char_int (fi_bytes file ! n) else EOF)"
proof -
  obtain this where st: "new_cad_input_stream_from_file True file = Some (Some this)" "file_inv this"
      "file_rest this = fi_bytes file"
    using new_file_stream [OF assms] by blast
  then show ?thesis
    using file_in.item_after [OF st(2), of n] unfolding st(3) by auto
qed

definition long_file :: c_file where
  "long_file = \<lparr>fi_bytes = replicate 5000 CHR ''a'' @ [CHR ''b''], fi_fails = False, fi_error = False\<rparr>"

lemma file_stream_reads_witness:
  "\<exists>this this'. new_cad_input_stream_from_file True long_file = Some (Some this) \<and>
     advance file_input 5000 this = Some this' \<and> file_item this' = Some 98"
  using file_stream_reads [of long_file 5000] by (simp add: long_file_def nth_append char_int_def)

text \<open>A stream over a file descriptor delivers every byte in order and then \<open>EOF\<close>, however the
  bytes are split between the results of \<open>read\<close>.\<close>

theorem fd_stream_reads:
  assumes "fd_ok fd"
  shows "\<exists>this this'. new_cad_input_stream_from_file_descriptor True fd = Some (Some this) \<and>
    advance fd_input n this = Some this' \<and>
    fd_item this' = Some (if n < length (fd_bytes fd) then char_int (fd_bytes fd ! n) else EOF)"
proof -
  obtain this where st: "new_cad_input_stream_from_file_descriptor True fd = Some (Some this)" "fd_inv this"
      "fd_rest this = fd_bytes fd"
    using new_fd_stream [OF assms] by blast
  then show ?thesis
    using fd_in.item_after [OF st(2), of n] unfolding st(3) by auto
qed

definition short_reads :: c_fd where
  "short_reads = \<lparr>fd_reads = [Data ''fo'', Data ''o'', Data ''bar'']\<rparr>"

lemma fd_stream_reads_witness:
  "\<exists>this this'. new_cad_input_stream_from_file_descriptor True short_reads = Some (Some this) \<and>
     advance fd_input 3 this = Some this' \<and> fd_item this' = Some 98"
  using fd_stream_reads [of short_reads 3] by (simp add: short_reads_def fd_ok_def fd_bytes_def char_int_def)

section \<open>Output\<close>

text \<open>C22: after any puts of NUL-free texts on a new string stream, the string at the client's
  address is a C string: the texts in order and the terminating NUL.\<close>

theorem string_output_holds_texts:
  assumes "new_cad_output_stream_from_string malloc_ok = Some this"
    and "\<forall>t \<in> set ts. valid_cstring t" "length (concat ts) \<le> INT_MAX div 2 - 1" "ts \<noteq> []"
  shows "\<exists>this' buf. put_all string_output this ts = Some this' \<and> oss_string this' = Some buf \<and>
    strcpy_bytes buf = Some (concat ts @ [NUL]) \<and> oss_count this' = length (concat ts)"
proof -
  have new: "oss_inv this" "string_written this = []" "oss_string this = NULL"
    using assms(1) by (auto simp: new_cad_output_stream_from_string_def oss_inv_def string_written_def split: if_splits)
  then obtain this' where this': "put_all string_output this ts = Some this'" "oss_inv this'"
      "string_written this' = concat ts"
    using string_out.put_all_appends [of this ts] assms(2,3) by auto
  have put_buf: "oss_string s' \<noteq> NULL" if "put_all string_output s us = Some s'" "us \<noteq> [] \<or> oss_string s \<noteq> NULL"
    for s s' us
    using that
  proof (induction us arbitrary: s)
    case (Cons t us)
    then obtain r s1 where "string_vput s t = Some (r, s1)" "put_all string_output s1 us = Some s'"
      by (auto simp: string_output_def split: bind_splits)
    moreover from this(1) have "oss_string s1 \<noteq> NULL"
      by (auto simp: string_vput_def Let_def split: bind_splits)
    ultimately show ?case using Cons.IH by blast
  qed simp
  obtain buf where buf: "oss_string this' = Some buf" using put_buf [OF this'(1)] assms(4) by blast
  show ?thesis
    using this' buf oss_inv_written [OF this'(2)] strcpy_bytes_valid by metis
qed

lemma string_output_holds_texts_witness:
  "\<exists>this this' buf. new_cad_output_stream_from_string True = Some this \<and>
     put_all string_output this [''foo'', ''bar''] = Some this' \<and> oss_string this' = Some buf \<and>
     strcpy_bytes buf = Some (''foobar'' @ [NUL])"
proof -
  obtain this where st: "new_cad_output_stream_from_string True = Some this"
    by (simp add: new_cad_output_stream_from_string_def)
  show ?thesis
    using string_output_holds_texts [OF st, of "[''foo'', ''bar'']"] st by (auto simp: INT_MAX_def)
qed

text \<open>C23: \<open>put\<close> on a file descriptor writes the text from its byte \<open>m\<close> on, through as many \<open>write\<close>s
  as it takes, where \<open>m\<close> is the value that an uninitialised variable of \<open>vput\<close> happens to hold: the
  whole text when it is 0, nothing when it is at least the length of the text, and undefined when it
  is negative.\<close>

theorem fd_put_writes_from_m:
  assumes "osd_inv this" "2 * length txt + 2 \<le> INT_MAX"
  shows "if m < 0 then fd_vput m this txt = None
    else \<exists>this'. fd_vput m this txt = Some (int (length txt - nat m), this') \<and> osd_inv this' \<and>
      fd_written this' = fd_written this @ drop (nat m) txt"
  using fd_vput_from [OF assms, of m] fd_vput_below [OF assms, of m] by auto

lemma fd_put_writes_from_m_witness:
  "\<exists>this'. fd_vput 4 (new_cad_output_stream_from_file_descriptor \<lparr>fo_accepts = [1, 1], fo_bytes = []\<rparr>) ''foobar''
     = Some (2, this') \<and> fd_written this' = ''ar''"
  using fd_put_writes_from_m
    [of "new_cad_output_stream_from_file_descriptor \<lparr>fo_accepts = [1, 1], fo_bytes = []\<rparr>" "''foobar''" 4]
  by (auto simp: new_cad_output_stream_from_file_descriptor_def osd_inv_def INT_MAX_def fd_written_def)

end
