(* ===== verification/Cad_Cgi_Query.thy ===== *)
theory Cad_Cgi_Query
  imports Cad_Table Cad_Stream_String
begin

text \<open>
  Query strings and forms (\<open>parse_query_or_form\<close> in src/cad_cgi.c): a state machine that
  reads an input stream one byte at a time, accumulates the attribute and the value in string
  output streams, and stores the pairs in a hash table. The states are those of the code: 1 and
  11 read an attribute and a value, 2 and 12 the first hexadecimal digit of an escape, 3 and 13
  the second one; the opposite of a state is a failure in it.
\<close>

section \<open>The parser\<close>

text \<open>\<open>qs_out\<close> is the stream the parser writes to, and \<open>qs_on_value\<close> tells whether it was opened on
  the address of \<open>value\<close> or of \<open>attribute\<close>: a \<open>put\<close> may change that variable.\<close>

record query_state =
  qs_s :: int
  qs_attribute :: "char option list ptr"
  qs_value :: "char option list ptr"
  qs_out :: cad_output_stream_string
  qs_on_value :: bool
  qs_encoded :: char
  qs_result :: "(cstring, cstring) cad_hash_impl"

text \<open>The C string at the start of a buffer.\<close>

definition c_string :: "char option list \<Rightarrow> cstring option" where
  "c_string buf = map_option butlast (strcpy_bytes buf)"

definition new_string_stream :: cad_output_stream_string where
  "new_string_stream = \<lparr>oss_string = NULL, oss_capacity = 0, oss_count = 0\<rparr>"

definition query_put :: "query_state \<Rightarrow> cstring \<Rightarrow> query_state option" where
  "query_put st txt = do {
     (_, out) \<leftarrow> string_vput (qs_out st) txt;
     Some (if qs_on_value st then st\<lparr>qs_out := out, qs_value := oss_string out\<rparr>
           else st\<lparr>qs_out := out, qs_attribute := oss_string out\<rparr>)
   }"

definition no_value :: "char option list" where
  "no_value = [Some NUL]"

definition query_set :: "query_state \<Rightarrow> query_state option" where
  "query_set st = do {
     let buf = (case qs_value st of None \<Rightarrow> no_value | Some b \<Rightarrow> b);
     attribute \<leftarrow> qs_attribute st;
     k \<leftarrow> c_string attribute;
     v \<leftarrow> c_string buf;
     (_, t) \<leftarrow> hash_set (qs_result st) k (Some v);
     Some (st\<lparr>qs_result := t\<rparr>)
   }"

definition hex_digit :: "int \<Rightarrow> int option" where
  "hex_digit c =
     (if char_int CHR ''0'' \<le> c \<and> c \<le> char_int CHR ''9'' then Some (c - char_int CHR ''0'')
      else if char_int CHR ''A'' \<le> c \<and> c \<le> char_int CHR ''F'' then Some (c + 10 - char_int CHR ''A'')
      else if char_int CHR ''a'' \<le> c \<and> c \<le> char_int CHR ''f'' then Some (c + 10 - char_int CHR ''a'')
      else None)"

text \<open>\<open>encoded *= 0x10; encoded += d\<close>, on a \<open>char\<close>.\<close>

definition shift_in :: "char \<Rightarrow> int \<Rightarrow> char" where
  "shift_in encoded d = int_char (char_int (int_char (char_int encoded * 16)) + d)"

text \<open>One turn of the \<open>switch (s)\<close>.\<close>

definition query_step :: "query_state \<Rightarrow> int \<Rightarrow> query_state option" where
  "query_step st c =
     (if qs_s st = 1 then
        (if c = char_int CHR ''='' then
           (if qs_attribute st = NULL then Some (st\<lparr>qs_s := - qs_s st\<rparr>)
            else Some (st\<lparr>qs_out := new_string_stream, qs_value := NULL, qs_on_value := True, qs_s := 11\<rparr>))
         else if c = char_int CHR ''%'' then Some (st\<lparr>qs_encoded := NUL, qs_s := 2\<rparr>)
         else if c = char_int CHR ''+'' then query_put st '' ''
         else query_put st [int_char c])
      else if qs_s st = 11 then
        (if c = char_int CHR ''&'' \<or> c = char_int (CHR 0x0A) then do {
           st' \<leftarrow> query_set st;
           Some (st'\<lparr>qs_value := NULL, qs_out := new_string_stream, qs_attribute := NULL,
                     qs_on_value := False, qs_s := 1\<rparr>)
         }
         else if c = char_int CHR ''%'' then Some (st\<lparr>qs_encoded := NUL, qs_s := 12\<rparr>)
         else if c = char_int CHR ''+'' then query_put st '' ''
         else query_put st [int_char c])
      else if qs_s st = 2 \<or> qs_s st = 12 then
        (case hex_digit c of
           None \<Rightarrow> Some (st\<lparr>qs_s := - qs_s st\<rparr>)
         | Some d \<Rightarrow> Some (st\<lparr>qs_encoded := int_char d, qs_s := qs_s st + 1\<rparr>))
      else if qs_s st = 3 \<or> qs_s st = 13 then
        (case hex_digit c of
           None \<Rightarrow> Some (st\<lparr>qs_s := - qs_s st\<rparr>)
         | Some d \<Rightarrow> do {
             let st1 = st\<lparr>qs_encoded := shift_in (qs_encoded st) d\<rparr>;
             st2 \<leftarrow> query_put st1 [qs_encoded st1];
             Some (st2\<lparr>qs_s := qs_s st2 - 2\<rparr>)
           })
      else Some st)"

partial_function (option) query_loop ::
  "'s cad_input_stream \<Rightarrow> query_state \<Rightarrow> 's \<Rightarrow> int \<Rightarrow> (query_state \<times> 's) option" where
  "query_loop ops st ins c =
     (if c \<noteq> -1 \<and> 0 < qs_s st then do {
        st' \<leftarrow> query_step st c;
        (r, ins') \<leftarrow> cis_next ops ins;
        if r \<noteq> 0 then query_loop ops (st'\<lparr>qs_s := - qs_s st'\<rparr>) ins' c
        else do {
          c' \<leftarrow> cis_item ops ins';
          query_loop ops st' ins' c'
        }
      } else Some (st, ins))"

definition query_finish :: "query_state \<Rightarrow> (cstring, cstring) cad_hash_impl option" where
  "query_finish st =
     (if qs_s st = 11 \<or> qs_s st = -11 then do { st' \<leftarrow> query_set st; Some (qs_result st') }
      else Some (qs_result st))"

definition query_start :: "(cstring, cstring) cad_hash_impl \<Rightarrow> query_state" where
  "query_start t =
     \<lparr>qs_s = 1, qs_attribute = NULL, qs_value = NULL, qs_out = new_string_stream,
      qs_on_value = False, qs_encoded = NUL, qs_result = t\<rparr>"

definition parse_query_or_form ::
  "'s cad_input_stream \<Rightarrow> ('w \<Rightarrow> int \<times> 'w) \<Rightarrow> 'w \<Rightarrow> 's
    \<Rightarrow> ((cstring, cstring) cad_hash_impl \<times> 's \<times> 'w) option" where
  "parse_query_or_form ops hash_salt w ins =
     (case cad_new_hash True hash_salt w cad_hash_strings of
        (None, _) \<Rightarrow> None
      | (Some t, w') \<Rightarrow> do {
          c \<leftarrow> cis_item ops ins;
          (st, ins') \<leftarrow> query_loop ops (query_start t) ins c;
          t' \<leftarrow> query_finish st;
          Some (t', ins', w')
        })"

section \<open>The reference parser\<close>

text \<open>
  On the bytes of the stream, with two bytes of look-ahead for the escapes. The byte 0xFF ends the input: its
  \<open>int\<close> value is that of \<open>EOF\<close>. A pair whose value has not been reached, or that holds a bad
  escape, is dropped, and the parse ends there.
\<close>

definition decode_escape :: "char \<Rightarrow> char \<Rightarrow> char option" where
  "decode_escape h1 h2 =
     (case (hex_digit (char_int h1), hex_digit (char_int h2)) of
        (Some d1, Some d2) \<Rightarrow> Some (int_char (16 * d1 + d2))
      | _ \<Rightarrow> None)"

abbreviation FF :: char where
  "FF \<equiv> CHR 0xFF"

function query_pairs :: "char list \<Rightarrow> (cstring \<times> cstring) list"
  and query_attribute :: "cstring \<Rightarrow> char list \<Rightarrow> (cstring \<times> cstring) list"
  and query_value :: "cstring \<Rightarrow> cstring \<Rightarrow> char list \<Rightarrow> (cstring \<times> cstring) list" where
  "query_pairs bs = query_attribute [] bs"
| "query_attribute a [] = []"
| "query_attribute a (c # bs) =
     (if c = FF then []
      else if c = CHR ''='' then (if a = [] then [] else query_value a [] bs)
      else if c = CHR ''%'' then
        (case bs of
           h1 # h2 # bs' \<Rightarrow>
             (case decode_escape h1 h2 of None \<Rightarrow> [] | Some d \<Rightarrow> query_attribute (a @ [d]) bs')
         | _ \<Rightarrow> [])
      else query_attribute (a @ [if c = CHR ''+'' then CHR '' '' else c]) bs)"
| "query_value a v [] = [(a, v)]"
| "query_value a v (c # bs) =
     (if c = FF then [(a, v)]
      else if c = CHR ''&'' \<or> c = CHR 0x0A then (a, v) # query_pairs bs
      else if c = CHR ''%'' then
        (case bs of
           h1 # h2 # bs' \<Rightarrow>
             (case decode_escape h1 h2 of None \<Rightarrow> [] | Some d \<Rightarrow> query_value a (v @ [d]) bs')
         | _ \<Rightarrow> [])
      else query_value a (v @ [if c = CHR ''+'' then CHR '' '' else c]) bs)"
  by pat_completeness auto
termination
  by (relation "measure (\<lambda>x. case x of Inl bs \<Rightarrow> 2 * length bs + 1
      | Inr (Inl (a, bs)) \<Rightarrow> 2 * length bs | Inr (Inr (a, v, bs)) \<Rightarrow> 2 * length bs)") auto

declare query_pairs.simps [simp del] query_attribute.simps(2) [simp del] query_value.simps(2) [simp del]

text \<open>Storing pairs in order: the last one wins.\<close>

definition store_pairs :: "(cstring \<times> cstring) list \<Rightarrow> (cstring \<Rightarrow> cstring ptr option) \<Rightarrow> (cstring \<Rightarrow> cstring ptr option)" where
  "store_pairs ps m = foldl (\<lambda>m (a, v). \<lambda>k. if k = a then Some (Some v) else m k) m ps"

lemma store_pairs_simps [simp]:
  "store_pairs [] m = m"
  "store_pairs ((a, v) # ps) m = store_pairs ps (\<lambda>k. if k = a then Some (Some v) else m k)"
  by (simp_all add: store_pairs_def)

text \<open>No byte of the input is NUL, and none is decoded to NUL.\<close>

definition no_nul :: "char list \<Rightarrow> bool" where
  "no_nul bs \<longleftrightarrow> valid_cstring bs \<and> (\<forall>xs ys. bs \<noteq> xs @ ''%00'' @ ys)"

section \<open>Characters\<close>

lemma char_int_mod: "char_int c mod 256 = of_char c"
  using of_char_bounds [of c] by (simp add: char_int_def Let_def)

lemma of_int_char: "of_char (int_char i) = i mod 256"
  by (simp add: int_char_def)

lemma int_char_cong: "i mod 256 = j mod 256 \<Longrightarrow> int_char i = int_char j"
  by (simp add: int_char_def)

lemma shift_in_decode: "shift_in (int_char d1) d2 = int_char (16 * d1 + d2)"
proof (unfold shift_in_def, rule int_char_cong)
  have "(char_int (int_char (char_int (int_char d1) * 16)) + d2) mod 256
      = (char_int (int_char (char_int (int_char d1) * 16)) mod 256 + d2) mod 256"
    by (simp add: mod_add_left_eq)
  also have "\<dots> = (char_int (int_char d1) * 16 + d2) mod 256"
    by (simp add: char_int_mod of_int_char mod_add_left_eq)
  also have "\<dots> = (char_int (int_char d1) mod 256 * 16 + d2) mod 256"
    by (metis mod_add_left_eq mod_mult_left_eq)
  also have "\<dots> = (16 * d1 + d2) mod 256"
    by (simp add: char_int_mod of_int_char) (metis mod_add_left_eq mod_mult_left_eq mult.commute)
  finally show "(char_int (int_char (char_int (int_char d1) * 16)) + d2) mod 256 = (16 * d1 + d2) mod 256" .
qed

lemma char_int_inject [simp]: "char_int c = char_int d \<longleftrightarrow> c = d"
  by (metis int_char_int)

lemma char_int_FF: "char_int c = -1 \<longleftrightarrow> c = FF"
proof -
  have "char_int FF = -1" by (simp add: char_int_def)
  then show ?thesis by (metis char_int_inject)
qed

lemma hex_digit_bounds: "hex_digit c = Some d \<Longrightarrow> 0 \<le> d \<and> d < 16"
  by (auto simp: hex_digit_def char_int_def split: if_splits)

lemma hex_digit_0: "hex_digit (char_int c) = Some 0 \<Longrightarrow> c = CHR ''0''"
proof -
  assume "hex_digit (char_int c) = Some 0"
  then have "char_int c = char_int CHR ''0''"
    by (auto simp: hex_digit_def char_int_def split: if_splits)
  then show ?thesis by simp
qed

lemma decode_escape_NUL: "decode_escape h1 h2 = Some NUL \<Longrightarrow> h1 = CHR ''0'' \<and> h2 = CHR ''0''"
proof -
  assume "decode_escape h1 h2 = Some NUL"
  then obtain d1 d2 where d: "hex_digit (char_int h1) = Some d1" "hex_digit (char_int h2) = Some d2"
      "int_char (16 * d1 + d2) = NUL"
    by (auto simp: decode_escape_def split: option.splits)
  have "(16 * d1 + d2) mod 256 = of_char NUL"
    using d(3) of_int_char [of "16 * d1 + d2"] by metis
  then have "16 * d1 + d2 = 0"
    using hex_digit_bounds [OF d(1)] hex_digit_bounds [OF d(2)] by simp
  then have "d1 = 0" "d2 = 0"
    using hex_digit_bounds [OF d(1)] hex_digit_bounds [OF d(2)] by linarith+
  then show ?thesis using d hex_digit_0 by blast
qed

lemma no_nul_ConsD: "no_nul (c # bs) \<Longrightarrow> c \<noteq> NUL \<and> no_nul bs"
  unfolding no_nul_def by (metis append_Cons valid_cstring_simps(2))

lemma no_nul_escape:
  assumes "no_nul (CHR ''%'' # h1 # h2 # bs)" "decode_escape h1 h2 = Some d"
  shows "d \<noteq> NUL"
proof
  assume "d = NUL"
  then have "h1 = CHR ''0''" "h2 = CHR ''0''" using decode_escape_NUL assms(2) by auto
  then have "CHR ''%'' # h1 # h2 # bs = [] @ ''%00'' @ bs" by simp
  then show False using assms(1) unfolding no_nul_def by metis
qed

section \<open>The steps on the parser's variables\<close>

definition reads_attribute :: "query_state \<Rightarrow> cstring \<Rightarrow> bool" where
  "reads_attribute st a \<longleftrightarrow>
     \<not> qs_on_value st \<and> qs_value st = NULL \<and> qs_attribute st = oss_string (qs_out st) \<and>
     oss_inv (qs_out st) \<and> string_written (qs_out st) = a \<and> (qs_attribute st = NULL \<longleftrightarrow> a = [])"

definition reads_value :: "query_state \<Rightarrow> cstring \<Rightarrow> cstring \<Rightarrow> bool" where
  "reads_value st a v \<longleftrightarrow>
     qs_on_value st \<and> qs_value st = oss_string (qs_out st) \<and>
     oss_inv (qs_out st) \<and> string_written (qs_out st) = v \<and>
     (\<exists>buf. qs_attribute st = Some buf \<and> c_string buf = Some a)"

lemma new_string_stream_inv [simp]:
  "oss_inv new_string_stream" "string_written new_string_stream = []" "oss_string new_string_stream = NULL"
  by (simp_all add: new_string_stream_def oss_inv_def string_written_def)

lemma oss_c_string: "oss_inv out \<Longrightarrow> oss_string out = Some buf \<Longrightarrow> c_string buf = Some (string_written out)"
  using oss_inv_written(2,3) strcpy_bytes_valid by (fastforce simp: c_string_def)

lemma string_vput_not_NULL: "string_vput out txt = Some (r, out') \<Longrightarrow> oss_string out' \<noteq> NULL"
  by (auto simp: string_vput_def Let_def split: bind_splits)

lemma query_put_attribute:
  assumes "reads_attribute st a" "c \<noteq> NUL" "2 * (length a + 2) \<le> INT_MAX"
  obtains st' where "query_put st [c] = Some st'" "reads_attribute st' (a @ [c])" "qs_s st' = qs_s st"
    "qs_result st' = qs_result st"
proof -
  obtain out where "string_vput (qs_out st) [c] = Some (int (length [c]), out)" "oss_inv out"
      "string_written out = string_written (qs_out st) @ [c]"
    using string_vput_total [of "qs_out st" "[c]"] assms by (auto simp: reads_attribute_def)
  moreover from this(1) have "oss_string out \<noteq> NULL" by (rule string_vput_not_NULL)
  ultimately show ?thesis
    using assms(1) that [of "st\<lparr>qs_out := out, qs_attribute := oss_string out\<rparr>"]
    by (simp add: query_put_def reads_attribute_def)
qed

lemma query_put_value:
  assumes "reads_value st a v" "c \<noteq> NUL" "2 * (length v + 2) \<le> INT_MAX"
  obtains st' where "query_put st [c] = Some st'" "reads_value st' a (v @ [c])" "qs_s st' = qs_s st"
    "qs_result st' = qs_result st"
proof -
  obtain out where "string_vput (qs_out st) [c] = Some (int (length [c]), out)" "oss_inv out"
      "string_written out = string_written (qs_out st) @ [c]"
    using string_vput_total [of "qs_out st" "[c]"] assms by (auto simp: reads_value_def)
  then show ?thesis
    using assms(1) that [of "st\<lparr>qs_out := out, qs_value := oss_string out\<rparr>"]
    by (simp add: query_put_def reads_value_def)
qed

abbreviation strings_inv :: "(cstring, 'v) cad_hash_impl \<Rightarrow> bool" where
  "strings_inv \<equiv> table_inv cad_hash_strings"

lemma query_set_total:
  assumes "reads_value st a v" "strings_inv (qs_result st)" "table_weight (qs_result st) \<le> 2 ^ 29"
  obtains t where "query_set st = Some (st\<lparr>qs_result := t\<rparr>)" "strings_inv t"
    "table_weight t \<le> table_weight (qs_result st) + 3"
    "hash_abs t = (\<lambda>k. if k = a then Some (Some v) else hash_abs (qs_result st) k)"
proof -
  obtain t where t: "hash_set (qs_result st) a (Some v) = Some (or_null (hash_abs (qs_result st) a), t)"
      "strings_inv t" "table_weight t \<le> table_weight (qs_result st) + 3"
      "hash_abs t = (\<lambda>k. if k = a then Some (Some v) else hash_abs (qs_result st) k)"
    using string_table.set_law [OF assms(2,3), of a "Some v"] by auto
  have "c_string (case qs_value st of None \<Rightarrow> no_value | Some b \<Rightarrow> b) = Some v"
    using assms(1) oss_c_string [of "qs_out st"] oss_inv_written(4) [of "qs_out st"]
    by (auto simp: reads_value_def c_string_def no_value_def split: option.splits)
  then have "query_set st = Some (st\<lparr>qs_result := t\<rparr>)"
    using assms(1) t(1) by (auto simp: query_set_def reads_value_def Let_def)
  then show ?thesis using t that by blast
qed

section \<open>The loop follows the reference parser\<close>

lemma query_step_hex1:
  "qs_s st = 2 \<or> qs_s st = 12 \<Longrightarrow> query_step st c =
     (case hex_digit c of
        None \<Rightarrow> Some (st\<lparr>qs_s := - qs_s st\<rparr>)
      | Some d \<Rightarrow> Some (st\<lparr>qs_encoded := int_char d, qs_s := qs_s st + 1\<rparr>))"
  by (elim disjE) (simp_all add: query_step_def)

lemma query_step_hex2:
  "qs_s st = 3 \<or> qs_s st = 13 \<Longrightarrow> query_step st c =
     (case hex_digit c of
        None \<Rightarrow> Some (st\<lparr>qs_s := - qs_s st\<rparr>)
      | Some d \<Rightarrow> do {
          st2 \<leftarrow> query_put (st\<lparr>qs_encoded := shift_in (qs_encoded st) d\<rparr>) [shift_in (qs_encoded st) d];
          Some (st2\<lparr>qs_s := qs_s st2 - 2\<rparr>)
        })"
  by (elim disjE) (simp_all add: query_step_def Let_def split: option.splits)

text \<open>A run of the loop that ends with a table obtained from another one by storing pairs.\<close>

definition finishes_with ::
  "(query_state \<times> 's) option \<Rightarrow> (cstring \<times> cstring) list \<Rightarrow> (cstring, cstring) cad_hash_impl \<Rightarrow> bool" where
  "finishes_with r ps t0 \<longleftrightarrow>
     (\<exists>st ins t. r = Some (st, ins) \<and> query_finish st = Some t \<and> strings_inv t \<and>
        hash_abs t = store_pairs ps (hash_abs t0))"

lemma finishes_with_same:
  "query_finish st = Some t \<Longrightarrow> strings_inv t \<Longrightarrow> finishes_with (Some (st, ins)) [] t"
  by (auto simp: finishes_with_def)

lemma finishes_with_Cons:
  assumes "finishes_with r ps t1" "hash_abs t1 = (\<lambda>k. if k = a then Some (Some v) else hash_abs t0 k)"
  shows "finishes_with r ((a, v) # ps) t0"
  using assms by (auto simp: finishes_with_def)

lemma query_step_attribute:
  "qs_s st = 1 \<Longrightarrow> query_step st (char_int c) =
     (if c = CHR ''='' then
        (if qs_attribute st = NULL then Some (st\<lparr>qs_s := - 1\<rparr>)
         else Some (st\<lparr>qs_out := new_string_stream, qs_value := NULL, qs_on_value := True, qs_s := 11\<rparr>))
      else if c = CHR ''%'' then Some (st\<lparr>qs_encoded := NUL, qs_s := 2\<rparr>)
      else query_put st [if c = CHR ''+'' then CHR '' '' else c])"
  by (simp add: query_step_def int_char_int)

lemma query_step_value:
  "qs_s st = 11 \<Longrightarrow> query_step st (char_int c) =
     (if c = CHR ''&'' \<or> c = CHR 0x0A then do {
        st' \<leftarrow> query_set st;
        Some (st'\<lparr>qs_value := NULL, qs_out := new_string_stream, qs_attribute := NULL,
                  qs_on_value := False, qs_s := 1\<rparr>)
      }
      else if c = CHR ''%'' then Some (st\<lparr>qs_encoded := NUL, qs_s := 12\<rparr>)
      else query_put st [if c = CHR ''+'' then CHR '' '' else c])"
  by (simp add: query_step_def int_char_int)

lemma reads_to_value:
  "reads_attribute st a \<Longrightarrow> a \<noteq> [] \<Longrightarrow>
     reads_value (st\<lparr>qs_out := new_string_stream, qs_value := NULL, qs_on_value := True, qs_s := 11\<rparr>) a []"
  by (cases "oss_string (qs_out st)") (auto simp: reads_attribute_def reads_value_def dest: oss_c_string)

lemma reads_to_attribute:
  "reads_attribute (st\<lparr>qs_value := NULL, qs_out := new_string_stream, qs_attribute := NULL,
     qs_on_value := False, qs_s := 1\<rparr>) []"
  by (simp add: reads_attribute_def)

lemma reads_update [simp]:
  "reads_attribute (st\<lparr>qs_s := s, qs_encoded := e\<rparr>) a = reads_attribute st a"
  "reads_value (st\<lparr>qs_s := s, qs_encoded := e\<rparr>) a v = reads_value st a v"
  "reads_attribute (st\<lparr>qs_encoded := e\<rparr>) a = reads_attribute st a"
  "reads_value (st\<lparr>qs_encoded := e\<rparr>) a v = reads_value st a v"
  "reads_attribute (st\<lparr>qs_s := s\<rparr>) a = reads_attribute st a"
  "reads_value (st\<lparr>qs_s := s\<rparr>) a v = reads_value st a v"
  by (simp_all add: reads_attribute_def reads_value_def)

context input_stream
begin

lemma loop_stops:
  "qs_s st \<le> 0 \<or> bs = [] \<or> hd bs = FF \<Longrightarrow> query_loop ops st ins (head_item bs) = Some (st, ins)"
  by (subst query_loop.simps) (auto simp: head_item_def char_int_FF EOF_def split: list.splits)

lemma loop_step:
  assumes "inv ins" "rest ins = c # bs" "c \<noteq> FF" "0 < qs_s st" "query_step st (char_int c) = Some st1"
  obtains ins1 where "inv ins1" "rest ins1 = bs"
    "query_loop ops st ins (head_item (c # bs)) = query_loop ops st1 ins1 (head_item bs)"
proof -
  obtain ins1 where n: "cis_next ops ins = Some (0, ins1)" "inv ins1" "rest ins1 = bs"
    using next_law [OF assms(1)] assms(2) by auto
  have "query_loop ops st ins (head_item (c # bs)) = query_loop ops st1 ins1 (head_item bs)"
    using assms(3,4,5) n item_law [OF n(2)]
    by (subst query_loop.simps) (simp add: head_item_def [of "c # bs"] char_int_FF)
  then show ?thesis using n that by blast
qed

lemma loop_escape_ends:
  assumes "inv ins" "rest ins = bs" "qs_s st = 2 \<or> qs_s st = 12"
    and "case bs of h1 # h2 # bs' \<Rightarrow> decode_escape h1 h2 = None | _ \<Rightarrow> True"
  shows "\<exists>st' ins'. query_loop ops st ins (head_item bs) = Some (st', ins') \<and> query_finish st' = Some (qs_result st)"
proof (cases bs)
  case Nil
  then show ?thesis using loop_stops [of st bs] assms(3) by (auto simp: query_finish_def)
next
  case bs: (Cons h1 bs1)
  show ?thesis
  proof (cases "h1 = FF")
    case True
    then show ?thesis using loop_stops [of st bs] assms(3) bs by (auto simp: query_finish_def)
  next
    case h1: False
    have s: "0 < qs_s st" using assms(3) by auto
    have r: "rest ins = h1 # bs1" using assms(2) bs by simp
    show ?thesis
    proof (cases "hex_digit (char_int h1)")
      case None
      then have "query_step st (char_int h1) = Some (st\<lparr>qs_s := - qs_s st\<rparr>)"
        using query_step_hex1 [OF assms(3)] by simp
      from loop_step [OF assms(1) r h1 s this] obtain ins1 where
          "query_loop ops st ins (head_item (h1 # bs1)) = query_loop ops (st\<lparr>qs_s := - qs_s st\<rparr>) ins1 (head_item bs1)"
        by blast
      then show ?thesis
        using loop_stops [of "st\<lparr>qs_s := - qs_s st\<rparr>" bs1 ins1] s assms(3) bs by (auto simp: query_finish_def)
    next
      case (Some d1)
      let ?st1 = "st\<lparr>qs_encoded := int_char d1, qs_s := qs_s st + 1\<rparr>"
      have "query_step st (char_int h1) = Some ?st1"
        using query_step_hex1 [OF assms(3)] Some by simp
      from loop_step [OF assms(1) r h1 s this] obtain ins1 where ins1: "inv ins1" "rest ins1 = bs1"
          "query_loop ops st ins (head_item (h1 # bs1)) = query_loop ops ?st1 ins1 (head_item bs1)"
        by blast
      show ?thesis
      proof (cases "bs1 = [] \<or> hd bs1 = FF")
        case True
        then show ?thesis
          using ins1(3) loop_stops [of ?st1 bs1 ins1] assms(3) bs by (auto simp: query_finish_def)
      next
        case False
        then obtain h2 bs2 where bs1: "bs1 = h2 # bs2" "h2 \<noteq> FF" by (cases bs1) auto
        then have "hex_digit (char_int h2) = None"
          using assms(4) bs Some by (auto simp: decode_escape_def split: option.splits)
        then have "query_step ?st1 (char_int h2) = Some (?st1\<lparr>qs_s := - qs_s ?st1\<rparr>)"
          using query_step_hex2 [of ?st1] assms(3) by simp
        moreover have "rest ins1 = h2 # bs2" "0 < qs_s ?st1" using ins1(2) bs1(1) s by simp_all
        ultimately obtain ins2 where
            "query_loop ops ?st1 ins1 (head_item (h2 # bs2))
              = query_loop ops (?st1\<lparr>qs_s := - qs_s ?st1\<rparr>) ins2 (head_item bs2)"
          using loop_step [OF ins1(1) _ bs1(2)] by blast
        then show ?thesis
          using ins1(3) loop_stops [of "?st1\<lparr>qs_s := - qs_s ?st1\<rparr>" bs2 ins2] s assms(3) bs bs1(1)
          by (auto simp: query_finish_def)
      qed
    qed
  qed
qed

lemma loop_escape_decodes:
  assumes "inv ins" "rest ins = h1 # h2 # bs" "qs_s st = 2 \<or> qs_s st = 12" "decode_escape h1 h2 = Some d"
    and put: "query_put (st\<lparr>qs_s := qs_s st + 1, qs_encoded := d\<rparr>) [d] = Some st3"
  obtains ins' where "inv ins'" "rest ins' = bs"
    "query_loop ops st ins (head_item (h1 # h2 # bs)) = query_loop ops (st3\<lparr>qs_s := qs_s st3 - 2\<rparr>) ins' (head_item bs)"
proof -
  obtain d1 d2 where h: "hex_digit (char_int h1) = Some d1" "hex_digit (char_int h2) = Some d2"
      "d = int_char (16 * d1 + d2)"
    using assms(4) by (auto simp: decode_escape_def split: option.splits)
  have "hex_digit (-1) = None" by (simp add: hex_digit_def char_int_def)
  then have ff: "h1 \<noteq> FF" "h2 \<noteq> FF" using h(1,2) char_int_FF by (metis option.distinct(1))+
  let ?st1 = "st\<lparr>qs_encoded := int_char d1, qs_s := qs_s st + 1\<rparr>"
  have "query_step st (char_int h1) = Some ?st1" "0 < qs_s st"
    using query_step_hex1 [OF assms(3)] assms(3) h(1) by auto
  from loop_step [OF assms(1,2) ff(1) this(2,1)] obtain ins1 where ins1: "inv ins1" "rest ins1 = h2 # bs"
      "query_loop ops st ins (head_item (h1 # h2 # bs)) = query_loop ops ?st1 ins1 (head_item (h2 # bs))" .
  have "query_step ?st1 (char_int h2) = Some (st3\<lparr>qs_s := qs_s st3 - 2\<rparr>)" "0 < qs_s ?st1"
    using query_step_hex2 [of ?st1] assms(3) h put by (auto simp: shift_in_decode)
  from loop_step [OF ins1(1,2) ff(2) this(2,1)] obtain ins2 where "inv ins2" "rest ins2 = bs"
      "query_loop ops ?st1 ins1 (head_item (h2 # bs)) = query_loop ops (st3\<lparr>qs_s := qs_s st3 - 2\<rparr>) ins2 (head_item bs)" .
  then show ?thesis using that [of ins2] ins1(3) by simp
qed

definition good :: "nat \<Rightarrow> 's \<Rightarrow> char list \<Rightarrow> (cstring, cstring) cad_hash_impl \<Rightarrow> bool" where
  "good n ins bs t \<longleftrightarrow>
     inv ins \<and> rest ins = bs \<and> no_nul bs \<and> 2 * (n + length bs + 2) \<le> INT_MAX \<and>
     strings_inv t \<and> table_weight t + 3 * length bs \<le> 2 ^ 29"

definition follows :: "nat \<Rightarrow> bool" where
  "follows k \<longleftrightarrow>
     (\<forall>n ins bs st a v. length bs \<le> k \<longrightarrow> good n ins bs (qs_result st) \<longrightarrow>
        (qs_s st = 1 \<longrightarrow> reads_attribute st a \<longrightarrow> length a \<le> n \<longrightarrow>
           finishes_with (query_loop ops st ins (head_item bs)) (query_attribute a bs) (qs_result st)) \<and>
        (qs_s st = 11 \<longrightarrow> reads_value st a v \<longrightarrow> length v \<le> n \<longrightarrow>
           finishes_with (query_loop ops st ins (head_item bs)) (query_value a v bs) (qs_result st)))"

lemma follows_attribute:
  assumes "follows k" "length bs \<le> k" "good n ins bs (qs_result st)" "qs_s st = 1"
    "reads_attribute st a" "length a \<le> n"
  shows "finishes_with (query_loop ops st ins (head_item bs)) (query_attribute a bs) (qs_result st)"
  using assms unfolding follows_def by blast

lemma follows_value:
  assumes "follows k" "length bs \<le> k" "good n ins bs (qs_result st)" "qs_s st = 11"
    "reads_value st a v" "length v \<le> n"
  shows "finishes_with (query_loop ops st ins (head_item bs)) (query_value a v bs) (qs_result st)"
  using assms unfolding follows_def by blast

lemma good_step:
  assumes "good n ins (c # bs) t" "inv ins1" "rest ins1 = bs"
  shows "good (Suc n) ins1 bs t" "good 0 ins1 bs t"
  using assms no_nul_ConsD [of c bs] by (auto simp: good_def)

lemma good_skip: "good n ins (h1 # h2 # bs) t \<Longrightarrow> inv ins1 \<Longrightarrow> rest ins1 = bs \<Longrightarrow> good n ins1 bs t"
  by (auto simp: good_def dest!: no_nul_ConsD)

lemma escape_cases:
  obtains (ends) "case bs of h1 # h2 # bs' \<Rightarrow> decode_escape h1 h2 = None | _ \<Rightarrow> True"
  | (decodes) h1 h2 bs' d where "bs = h1 # h2 # bs'" "decode_escape h1 h2 = Some d"
  by (cases bs rule: remdups_adj.cases) auto

lemma attribute_escape:
  assumes "follows k" "length bs \<le> k" "good n ins bs (qs_result st)" "no_nul (CHR ''%'' # bs)"
    "qs_s st = 2" "reads_attribute st a" "length a < n"
  shows "finishes_with (query_loop ops st ins (head_item bs)) (query_attribute a (CHR ''%'' # bs)) (qs_result st)"
proof (cases bs rule: escape_cases)
  case ends
  have "query_attribute a (CHR ''%'' # bs) = []"
    using ends by (auto simp: query_attribute.simps(2) split: list.splits)
  moreover obtain st' ins' where "query_loop ops st ins (head_item bs) = Some (st', ins')"
      "query_finish st' = Some (qs_result st)"
    using loop_escape_ends [OF _ _ _ ends, of ins st] assms(3,5) by (auto simp: good_def)
  ultimately show ?thesis
    using assms(3) finishes_with_same by (auto simp: good_def)
next
  case (decodes h1 h2 bs' d)
  let ?st = "st\<lparr>qs_s := qs_s st + 1, qs_encoded := d\<rparr>"
  have d: "d \<noteq> NUL" "2 * (length a + 2) \<le> INT_MAX"
    using no_nul_escape assms(3,4,7) decodes by (auto simp: good_def)
  obtain st3 where st3: "query_put ?st [d] = Some st3" "reads_attribute st3 (a @ [d])" "qs_s st3 = 3"
      "qs_result st3 = qs_result st"
    using query_put_attribute [of ?st a d] d assms(5,6) by auto
  obtain ins' where ins': "inv ins'" "rest ins' = bs'" "query_loop ops st ins (head_item bs) =
      query_loop ops (st3\<lparr>qs_s := 1\<rparr>) ins' (head_item bs')"
    using loop_escape_decodes [of ins h1 h2 bs' st d st3] assms(3,5) decodes st3(1,3) by (auto simp: good_def)
  have "good n ins' bs' (qs_result st)"
    using good_skip assms(3) ins'(1,2) unfolding decodes(1) .
  then have "finishes_with (query_loop ops (st3\<lparr>qs_s := 1\<rparr>) ins' (head_item bs')) (query_attribute (a @ [d]) bs') (qs_result st)"
    using follows_attribute [OF assms(1), of bs' n ins' "st3\<lparr>qs_s := 1\<rparr>" "a @ [d]"] st3 assms(2,7) decodes(1) by simp
  then show ?thesis
    using decodes ins'(3) by (simp add: query_attribute.simps(2))
qed

lemma value_escape:
  assumes "follows k" "length bs \<le> k" "good n ins bs (qs_result st)" "no_nul (CHR ''%'' # bs)"
    "qs_s st = 12" "reads_value st a v" "length v < n"
  shows "finishes_with (query_loop ops st ins (head_item bs)) (query_value a v (CHR ''%'' # bs)) (qs_result st)"
proof (cases bs rule: escape_cases)
  case ends
  have "query_value a v (CHR ''%'' # bs) = []"
    using ends by (auto simp: query_value.simps(2) split: list.splits)
  moreover obtain st' ins' where "query_loop ops st ins (head_item bs) = Some (st', ins')"
      "query_finish st' = Some (qs_result st)"
    using loop_escape_ends [OF _ _ _ ends, of ins st] assms(3,5) by (auto simp: good_def)
  ultimately show ?thesis
    using assms(3) finishes_with_same by (auto simp: good_def)
next
  case (decodes h1 h2 bs' d)
  let ?st = "st\<lparr>qs_s := qs_s st + 1, qs_encoded := d\<rparr>"
  have d: "d \<noteq> NUL" "2 * (length v + 2) \<le> INT_MAX"
    using no_nul_escape assms(3,4,7) decodes by (auto simp: good_def)
  obtain st3 where st3: "query_put ?st [d] = Some st3" "reads_value st3 a (v @ [d])" "qs_s st3 = 13"
      "qs_result st3 = qs_result st"
    using query_put_value [of ?st a v d] d assms(5,6) by auto
  obtain ins' where ins': "inv ins'" "rest ins' = bs'" "query_loop ops st ins (head_item bs) =
      query_loop ops (st3\<lparr>qs_s := 11\<rparr>) ins' (head_item bs')"
    using loop_escape_decodes [of ins h1 h2 bs' st d st3] assms(3,5) decodes st3(1,3) by (auto simp: good_def)
  have "good n ins' bs' (qs_result st)"
    using good_skip assms(3) ins'(1,2) unfolding decodes(1) .
  then have "finishes_with (query_loop ops (st3\<lparr>qs_s := 11\<rparr>) ins' (head_item bs')) (query_value a (v @ [d]) bs') (qs_result st)"
    using follows_value [OF assms(1), of bs' n ins' "st3\<lparr>qs_s := 11\<rparr>" a "v @ [d]"] st3 assms(2,7) decodes(1) by simp
  then show ?thesis
    using decodes ins'(3) by (simp add: query_value.simps(2))
qed

lemma attribute_step:
  assumes k: "follows k" "length bs \<le> k" and g: "good n ins (c # bs) (qs_result st)"
    and st: "qs_s st = 1" "reads_attribute st a" "length a \<le> n"
  shows "finishes_with (query_loop ops st ins (head_item (c # bs))) (query_attribute a (c # bs)) (qs_result st)"
proof (cases "c = FF")
  case True
  then show ?thesis
    using loop_stops [of st "c # bs" ins] g st(1) finishes_with_same [of st "qs_result st"]
    by (auto simp: query_attribute.simps(2) query_finish_def good_def)
next
  case ff: False
  have step: "\<exists>ins1. inv ins1 \<and> rest ins1 = bs \<and>
      query_loop ops st ins (head_item (c # bs)) = query_loop ops st1 ins1 (head_item bs)"
    if "query_step st (char_int c) = Some st1" for st1
    using loop_step [OF _ _ ff _ that, of ins bs] g st(1) by (auto simp: good_def)
  note qstep = query_step_attribute [OF st(1), of c]
  consider (eq) "c = CHR ''=''" | (esc) "c = CHR ''%''" | (other) "c \<noteq> CHR ''=''" "c \<noteq> CHR ''%''" by blast
  then show ?thesis
  proof cases
    case eq
    show ?thesis
    proof (cases "a = []")
      case True
      then have "qs_attribute st = NULL" using st(2) unfolding reads_attribute_def by metis
      then have "query_step st (char_int c) = Some (st\<lparr>qs_s := - 1\<rparr>)"
        using qstep eq by simp
      with step obtain ins1 where "query_loop ops st ins (head_item (c # bs)) =
          query_loop ops (st\<lparr>qs_s := - 1\<rparr>) ins1 (head_item bs)" by blast
      then show ?thesis
        using loop_stops [of "st\<lparr>qs_s := - 1\<rparr>" bs ins1] eq True g
          finishes_with_same [of "st\<lparr>qs_s := - 1\<rparr>" "qs_result st"]
        by (simp add: query_attribute.simps(2) query_finish_def good_def)
    next
      case False
      let ?st1 = "st\<lparr>qs_out := new_string_stream, qs_value := NULL, qs_on_value := True, qs_s := 11\<rparr>"
      have "qs_attribute st \<noteq> NULL" using st(2) False unfolding reads_attribute_def by metis
      then have "query_step st (char_int c) = Some ?st1"
        using qstep eq by auto
      with step obtain ins1 where i: "inv ins1" "rest ins1 = bs"
          "query_loop ops st ins (head_item (c # bs)) = query_loop ops ?st1 ins1 (head_item bs)" by blast
      from follows_value [OF k, of 0 ins1 ?st1 a "[]"] good_step(2) [OF g i(1,2)] reads_to_value [OF st(2) False]
      have "finishes_with (query_loop ops ?st1 ins1 (head_item bs)) (query_value a [] bs) (qs_result st)" by simp
      then show ?thesis using eq False i(3) by (simp add: query_attribute.simps(2))
    qed
  next
    case esc
    then have "query_step st (char_int c) = Some (st\<lparr>qs_encoded := NUL, qs_s := 2\<rparr>)"
      using qstep by simp
    with step obtain ins1 where i: "inv ins1" "rest ins1 = bs" "query_loop ops st ins (head_item (c # bs)) =
        query_loop ops (st\<lparr>qs_encoded := NUL, qs_s := 2\<rparr>) ins1 (head_item bs)" by blast
    have "finishes_with (query_loop ops (st\<lparr>qs_encoded := NUL, qs_s := 2\<rparr>) ins1 (head_item bs))
        (query_attribute a (CHR ''%'' # bs)) (qs_result (st\<lparr>qs_encoded := NUL, qs_s := 2\<rparr>))"
      by (rule attribute_escape [OF k, of "Suc n"])
        (use good_step(1) [OF g i(1,2)] g esc st in \<open>auto simp: good_def\<close>)
    then show ?thesis using i(3) esc by simp
  next
    case other
    let ?d = "if c = CHR ''+'' then CHR '' '' else c"
    have d: "?d \<noteq> NUL" "2 * (length a + 2) \<le> INT_MAX"
      using g st(3) no_nul_ConsD [of c bs] by (auto simp: good_def)
    obtain st1 where st1: "query_put st [?d] = Some st1" "reads_attribute st1 (a @ [?d])" "qs_s st1 = qs_s st"
        "qs_result st1 = qs_result st"
      by (rule query_put_attribute [OF st(2) d])
    have "query_step st (char_int c) = Some st1"
      using qstep other st1(1) by simp
    with step obtain ins1 where i: "inv ins1" "rest ins1 = bs"
        "query_loop ops st ins (head_item (c # bs)) = query_loop ops st1 ins1 (head_item bs)" by blast
    have "finishes_with (query_loop ops st1 ins1 (head_item bs)) (query_attribute (a @ [?d]) bs) (qs_result st1)"
      by (rule follows_attribute [OF k, of "Suc n"]) (use good_step(1) [OF g i(1,2)] st st1 in auto)
    then show ?thesis using i(3) other ff st1(4) by (simp add: query_attribute.simps(2))
  qed
qed

lemma value_step:
  assumes k: "follows k" "length bs \<le> k" and g: "good n ins (c # bs) (qs_result st)"
    and st: "qs_s st = 11" "reads_value st a v" "length v \<le> n"
  shows "finishes_with (query_loop ops st ins (head_item (c # bs))) (query_value a v (c # bs)) (qs_result st)"
proof -
  have w: "strings_inv (qs_result st)" "table_weight (qs_result st) + 3 \<le> 2 ^ 29"
    using g by (simp_all add: good_def)
  obtain t where t: "query_set st = Some (st\<lparr>qs_result := t\<rparr>)" "strings_inv t"
      "table_weight t \<le> table_weight (qs_result st) + 3"
      "hash_abs t = (\<lambda>k. if k = a then Some (Some v) else hash_abs (qs_result st) k)"
    using query_set_total [OF st(2) w(1)] w(2) by auto
  show ?thesis
  proof (cases "c = FF")
    case True
    then show ?thesis
      using loop_stops [of st "c # bs" ins] t st(1)
      by (auto simp: query_value.simps(2) query_finish_def finishes_with_def)
  next
    case ff: False
    have step: "\<exists>ins1. inv ins1 \<and> rest ins1 = bs \<and>
        query_loop ops st ins (head_item (c # bs)) = query_loop ops st1 ins1 (head_item bs)"
      if "query_step st (char_int c) = Some st1" for st1
      using loop_step [OF _ _ ff _ that, of ins bs] g st(1) by (auto simp: good_def)
    note qstep = query_step_value [OF st(1), of c]
    consider (sep) "c = CHR ''&'' \<or> c = CHR 0x0A" | (esc) "c = CHR ''%''"
      | (other) "\<not> (c = CHR ''&'' \<or> c = CHR 0x0A)" "c \<noteq> CHR ''%''" by blast
    then show ?thesis
    proof cases
      case sep
      let ?st0 = "st\<lparr>qs_result := t\<rparr>"
      let ?st1 = "?st0\<lparr>qs_value := NULL, qs_out := new_string_stream, qs_attribute := NULL,
        qs_on_value := False, qs_s := 1\<rparr>"
      have "query_step st (char_int c) = Some ?st1"
        using qstep sep t(1) by auto
      with step obtain ins1 where i: "inv ins1" "rest ins1 = bs"
          "query_loop ops st ins (head_item (c # bs)) = query_loop ops ?st1 ins1 (head_item bs)" by blast
      have "good 0 ins1 bs t"
        using good_step(2) [OF g i(1,2)] g t(2,3) by (simp add: good_def)
      then have "finishes_with (query_loop ops ?st1 ins1 (head_item bs)) (query_attribute [] bs) t"
        using follows_attribute [OF k, of 0 ins1 ?st1 "[]"] reads_to_attribute [of ?st0] by simp
      then have "finishes_with (query_loop ops ?st1 ins1 (head_item bs)) ((a, v) # query_attribute [] bs) (qs_result st)"
        using t(4) by (rule finishes_with_Cons)
      then show ?thesis using i(3) sep by (auto simp: query_value.simps(2) query_pairs.simps)
    next
      case esc
      then have "query_step st (char_int c) = Some (st\<lparr>qs_encoded := NUL, qs_s := 12\<rparr>)"
        using qstep by simp
      with step obtain ins1 where i: "inv ins1" "rest ins1 = bs" "query_loop ops st ins (head_item (c # bs)) =
          query_loop ops (st\<lparr>qs_encoded := NUL, qs_s := 12\<rparr>) ins1 (head_item bs)" by blast
      have "finishes_with (query_loop ops (st\<lparr>qs_encoded := NUL, qs_s := 12\<rparr>) ins1 (head_item bs))
          (query_value a v (CHR ''%'' # bs)) (qs_result (st\<lparr>qs_encoded := NUL, qs_s := 12\<rparr>))"
        by (rule value_escape [OF k, of "Suc n"])
          (use good_step(1) [OF g i(1,2)] g esc st in \<open>auto simp: good_def\<close>)
      then show ?thesis using i(3) esc by simp
    next
      case other
      let ?d = "if c = CHR ''+'' then CHR '' '' else c"
      have d: "?d \<noteq> NUL" "2 * (length v + 2) \<le> INT_MAX"
        using g st(3) no_nul_ConsD [of c bs] by (auto simp: good_def)
      obtain st1 where st1: "query_put st [?d] = Some st1" "reads_value st1 a (v @ [?d])" "qs_s st1 = qs_s st"
          "qs_result st1 = qs_result st"
        by (rule query_put_value [OF st(2) d])
      have "query_step st (char_int c) = Some st1"
        using qstep other st1(1) by simp
      with step obtain ins1 where i: "inv ins1" "rest ins1 = bs"
          "query_loop ops st ins (head_item (c # bs)) = query_loop ops st1 ins1 (head_item bs)" by blast
      have "finishes_with (query_loop ops st1 ins1 (head_item bs)) (query_value a (v @ [?d]) bs) (qs_result st1)"
        by (rule follows_value [OF k, of "Suc n"]) (use good_step(1) [OF g i(1,2)] st st1 in auto)
      then show ?thesis using i(3) other ff st1(4) by (simp add: query_value.simps(2))
    qed
  qed
qed

lemma follows_all: "follows k"
proof (induction k)
  case 0
  show ?case
  proof (unfold follows_def, intro allI impI conjI)
    fix n ins bs and st :: query_state and a v
    assume bs: "length bs \<le> 0" and g: "good n ins bs (qs_result st)"
    have stop: "query_loop ops st ins (head_item bs) = Some (st, ins)"
      using bs loop_stops by simp
    show "finishes_with (query_loop ops st ins (head_item bs)) (query_attribute a bs) (qs_result st)" if "qs_s st = 1"
      using stop that bs g finishes_with_same [of st "qs_result st"] by (simp add: query_finish_def good_def)
    show "finishes_with (query_loop ops st ins (head_item bs)) (query_value a v bs) (qs_result st)"
      if st: "qs_s st = 11" "reads_value st a v"
    proof -
      have "strings_inv (qs_result st)" "table_weight (qs_result st) \<le> 2 ^ 29" "bs = []"
        using g bs by (simp_all add: good_def)
      from query_set_total [OF st(2) this(1,2)] obtain t where "query_set st = Some (st\<lparr>qs_result := t\<rparr>)"
          "strings_inv t" "hash_abs t = (\<lambda>k. if k = a then Some (Some v) else hash_abs (qs_result st) k)"
        by blast
      then show ?thesis
        unfolding stop finishes_with_def using st(1) \<open>bs = []\<close> by (simp add: query_finish_def)
    qed
  qed
next
  case (Suc k)
  show ?case
  proof (unfold follows_def, intro allI impI)
    fix n ins bs and st :: query_state and a v
    assume len: "length bs \<le> Suc k" and g: "good n ins bs (qs_result st)"
    show "(qs_s st = 1 \<longrightarrow> reads_attribute st a \<longrightarrow> length a \<le> n \<longrightarrow>
           finishes_with (query_loop ops st ins (head_item bs)) (query_attribute a bs) (qs_result st)) \<and>
        (qs_s st = 11 \<longrightarrow> reads_value st a v \<longrightarrow> length v \<le> n \<longrightarrow>
           finishes_with (query_loop ops st ins (head_item bs)) (query_value a v bs) (qs_result st))"
    proof (cases bs)
      case Nil
      then have "length bs \<le> k" by simp
      then show ?thesis
        using follows_attribute [OF Suc.IH, of bs n ins st a] follows_value [OF Suc.IH, of bs n ins st a v] g by blast
    next
      case (Cons c bs')
      then show ?thesis using attribute_step [OF Suc.IH, of bs' n ins c st a] value_step [OF Suc.IH, of bs' n ins c st a v] g len by simp
    qed
  qed
qed

lemma parse_query_or_form_correct:
  assumes "inv ins" "no_nul (rest ins)" "length (rest ins) \<le> 2 ^ 27"
  shows "\<exists>t ins' w'. parse_query_or_form ops salt w ins = Some (t, ins', w') \<and> strings_inv t \<and>
    hash_abs t = store_pairs (query_pairs (rest ins)) (\<lambda>_. None)"
proof -
  obtain t0 :: "(cstring, cstring) cad_hash_impl" and w' where new: "cad_new_hash True salt w cad_hash_strings = (Some t0, w')"
    by (cases "salt w") (simp add: cad_new_hash_def)
  from new_table [OF this] have t0: "strings_inv t0" "table_weight t0 = 4" "hash_abs t0 = (\<lambda>_. None)" by auto
  have "good 0 ins (rest ins) (qs_result (query_start t0))"
    using assms t0 by (simp add: good_def query_start_def INT_MAX_def)
  moreover have "reads_attribute (query_start t0) []" "qs_s (query_start t0) = 1" "qs_result (query_start t0) = t0"
    by (simp_all add: query_start_def reads_attribute_def)
  ultimately have "finishes_with (query_loop ops (query_start t0) ins (head_item (rest ins)))
      (query_attribute [] (rest ins)) t0"
    using follows_attribute [OF follows_all order.refl, where a = "[]"] by fastforce
  then show ?thesis
    using new t0(3) item_law [OF assms(1)]
    by (auto simp: parse_query_or_form_def finishes_with_def query_pairs.simps)
qed

end

end
