(* ===== verification/Cad_Format.thy ===== *)
theory Cad_Format
  imports Cad_Prelude
begin

text \<open>
  Decimal numbers as the C library reads and writes them: the \<open>%d\<close> of \<open>printf\<close>, \<open>strtol\<close> in
  base 10, and the accumulation \<open>n = n * 10 + *c - '0'\<close> that the code uses to read version
  numbers, with \<open>int\<close> overflow undefined.
\<close>

section \<open>Signed int arithmetic\<close>

definition s_int :: "int \<Rightarrow> int option" where
  "s_int i = (if - int INT_MAX - 1 \<le> i \<and> i \<le> int INT_MAX then Some i else None)"

lemma s_int_in [c_access]: "- int INT_MAX - 1 \<le> i \<Longrightarrow> i \<le> int INT_MAX \<Longrightarrow> s_int i = Some i"
  by (simp add: s_int_def)

section \<open>Writing\<close>

definition digit_char :: "nat \<Rightarrow> char" where
  "digit_char d = ''0123456789'' ! d"

fun decimal :: "nat \<Rightarrow> cstring" where
  "decimal n = (if n < 10 then [digit_char n] else decimal (n div 10) @ [digit_char (n mod 10)])"

declare decimal.simps [simp del]

text \<open>\<open>%d\<close>\<close>

definition format_int :: "int \<Rightarrow> cstring" where
  "format_int i = (if i < 0 then ''-'' @ decimal (nat (- i)) else decimal (nat i))"

lemma less_10_cases: "d < (10::nat) \<Longrightarrow> d = 0 \<or> d = 1 \<or> d = 2 \<or> d = 3 \<or> d = 4 \<or> d = 5 \<or> d = 6 \<or> d = 7 \<or> d = 8 \<or> d = 9"
  by arith

lemma char_int_digit: "d < 10 \<Longrightarrow> char_int (digit_char d) = 48 + int d"
  by (drule less_10_cases) (elim disjE; simp add: digit_char_def char_int_def)

lemma digit_char_range: "d < 10 \<Longrightarrow> digit_char d \<in> set ''0123456789''"
  unfolding digit_char_def by (rule nth_mem) simp

lemma set_decimal: "set (decimal n) \<subseteq> set ''0123456789''"
proof (induction n rule: decimal.induct)
  case (1 n)
  then show ?case
    using digit_char_range [of n] digit_char_range [of "n mod 10"]
    by (subst decimal.simps) (auto split: if_splits)
qed

lemma decimal_not_Nil [simp]: "decimal n \<noteq> []"
  by (subst decimal.simps) simp

section \<open>Reading\<close>

text \<open>\<open>n = n * 10 + *c - '0'\<close> over a string: \<open>int\<close> arithmetic from left to right.\<close>

definition push_digit :: "int \<Rightarrow> char \<Rightarrow> int option" where
  "push_digit n c = do {
     n10 \<leftarrow> s_int (n * 10);
     sum \<leftarrow> s_int (n10 + char_int c);
     s_int (sum - char_int CHR ''0'')
   }"

fun push_digits :: "int \<Rightarrow> cstring \<Rightarrow> int option" where
  "push_digits n [] = Some n"
| "push_digits n (c # cs) = do { n' \<leftarrow> push_digit n c; push_digits n' cs }"

lemma push_digits_append: "push_digits n (xs @ ys) = do { n' \<leftarrow> push_digits n xs; push_digits n' ys }"
  by (induction xs arbitrary: n) (auto split: bind_split)

lemma push_digit_decimal:
  assumes "d < 10" "0 \<le> n" "n * 10 + 57 \<le> int INT_MAX"
  shows "push_digit n (digit_char d) = Some (n * 10 + int d)"
  using assms by (simp add: push_digit_def char_int_digit s_int_def) (simp add: char_int_def)

text \<open>Reading a number that was written gives it back, below a bound that leaves room for \<open>'9'\<close>.\<close>

lemma push_digits_decimal: "int n + 57 \<le> int INT_MAX \<Longrightarrow> push_digits 0 (decimal n) = Some (int n)"
proof (induction n rule: decimal.induct)
  case (1 n)
  show ?case
  proof (cases "n < 10")
    case True
    then show ?thesis using push_digit_decimal [of n 0] "1.prems" by (subst decimal.simps) (simp add: INT_MAX_def)
  next
    case False
    have q: "int (n div 10) * 10 + 57 \<le> int INT_MAX" "int (n div 10) + 57 \<le> int INT_MAX"
      using "1.prems" by linarith+
    have "push_digit (int (n div 10)) (digit_char (n mod 10)) = Some (int (n div 10) * 10 + int (n mod 10))"
      using push_digit_decimal [of "n mod 10" "int (n div 10)"] q(1) by simp
    also have "int (n div 10) * 10 + int (n mod 10) = int n"
      by (metis div_mult_mod_eq of_nat_add of_nat_mult of_nat_numeral)
    finally show ?thesis
      using "1.IH" [OF False q(2)] False by (subst decimal.simps) (simp add: push_digits_append)
  qed
qed

text \<open>\<open>strtol\<close> in base 10: white space, a sign, digits; the value is clamped to a \<open>long\<close>.\<close>

definition is_digit :: "char \<Rightarrow> bool" where
  "is_digit c \<longleftrightarrow> c \<in> set ''0123456789''"

definition is_space :: "char \<Rightarrow> bool" where
  "is_space c \<longleftrightarrow> c = CHR '' '' \<or> c \<in> {CHR 0x09, CHR 0x0A, CHR 0x0B, CHR 0x0C, CHR 0x0D}"

definition digits_value :: "cstring \<Rightarrow> int" where
  "digits_value ds = foldl (\<lambda>n c. n * 10 + (char_int c - 48)) 0 ds"

definition strtol :: "cstring \<Rightarrow> int" where
  "strtol s =
     (let s1 = dropWhile is_space s;
          negative = (case s1 of c # _ \<Rightarrow> c = CHR ''-'' | [] \<Rightarrow> False);
          s2 = (case s1 of c # cs \<Rightarrow> if c = CHR ''-'' \<or> c = CHR ''+'' then cs else s1 | [] \<Rightarrow> []);
          n = digits_value (takeWhile is_digit s2)
      in if negative then max (- (2 ^ 63)) (- n) else min (2 ^ 63 - 1) n)"

lemma digits_value_decimal: "digits_value (decimal n) = int n"
proof (induction n rule: decimal.induct)
  case (1 n)
  show ?case
  proof (cases "n < 10")
    case True
    then show ?thesis by (subst decimal.simps) (simp add: digits_value_def char_int_digit)
  next
    case False
    have "int (n div 10) * 10 + int (n mod 10) = int n"
      by (metis div_mult_mod_eq of_nat_add of_nat_mult of_nat_numeral)
    then show ?thesis
      using 1 False by (subst decimal.simps) (simp add: digits_value_def char_int_digit)
  qed
qed

lemma takeWhile_decimal: "takeWhile is_digit (decimal n) = decimal n" "dropWhile is_space (decimal n) = decimal n"
  "hd (decimal n) \<notin> {CHR ''-'', CHR ''+''}"
proof -
  have d: "\<And>c. c \<in> set (decimal n) \<Longrightarrow> c \<in> set ''0123456789''" using set_decimal by blast
  then show "takeWhile is_digit (decimal n) = decimal n"
    by (simp only: takeWhile_eq_all_conv is_digit_def) blast
  have "hd (decimal n) \<in> set ''0123456789''" using d by (metis decimal_not_Nil hd_in_set)
  then show "hd (decimal n) \<notin> {CHR ''-'', CHR ''+''}" by auto
  have "\<not> is_space (hd (decimal n))"
    using \<open>hd (decimal n) \<in> set ''0123456789''\<close> by (auto simp: is_space_def)
  then show "dropWhile is_space (decimal n) = decimal n"
    by (cases "decimal n") auto
qed

lemma strtol_decimal: "strtol (decimal n) = min (2 ^ 63 - 1) (int n)"
proof -
  obtain c cs where d: "decimal n = c # cs" by (cases "decimal n") auto
  then have "c \<noteq> CHR ''-''" "c \<noteq> CHR ''+''" using takeWhile_decimal(3) [of n] by auto
  then show ?thesis
    using d takeWhile_decimal(1,2) [of n] digits_value_decimal [of n] by (simp add: strtol_def Let_def)
qed

end
