(* ===== verification/Cad_Cgi_Meta.thy ===== *)
theory Cad_Cgi_Meta
  imports Cad_Cgi_Query Cad_Format
begin

text \<open>
  The CGI meta-variables (\<open>meta_impl\<close> in src/cad_cgi.c): each operation reads the process
  environment the first time and keeps what it found. The environment is an argument,
  and a result of \<open>server_protocol\<close>, which writes into it. Releases of memory are
  modelled in the hash table only.
\<close>

type_synonym environ = "cstring \<Rightarrow> cstring option"

type_synonym string_table = "(cstring, cstring) cad_hash_impl"

record 's meta_impl =
  mi_auth_type :: int
  mi_content_length :: int
  mi_ct_type :: "char option list ptr"
  mi_ct_subtype :: "char option list ptr"
  mi_ct_parameters :: string_table
  mi_gi_major :: int
  mi_gi_minor :: int
  mi_path_info :: "cstring ptr"
  mi_path_translated :: "cstring ptr"
  mi_query_string :: "string_table ptr"
  mi_input_as_form :: "string_table ptr"
  mi_remote_addr :: "cstring ptr"
  mi_remote_host :: "cstring ptr"
  mi_remote_ident :: "cstring ptr"
  mi_remote_user :: "cstring ptr"
  mi_request_method :: "cstring ptr"
  mi_script_name :: "cstring ptr"
  mi_server_name :: "cstring ptr"
  mi_server_port :: int
  mi_sp_protocol :: "cstring ptr"
  mi_sp_major :: int
  mi_sp_minor :: int
  mi_server_software :: "cstring ptr"
  mi_in :: "'s ptr"

section \<open>Authentication and content length\<close>

datatype cad_cgi_auth_type_e = Auth_invalid | Auth_none | Auth_basic | Auth_digest

fun auth_code :: "cad_cgi_auth_type_e \<Rightarrow> int" where
  "auth_code Auth_invalid = -1"
| "auth_code Auth_none = 0"
| "auth_code Auth_basic = 1"
| "auth_code Auth_digest = 2"

text \<open>The cached code is never written: it stays at the \<open>-2\<close> of \<open>new_meta\<close>.\<close>

definition auth_type :: "environ \<Rightarrow> 's meta_impl \<Rightarrow> int" where
  "auth_type env this =
     (if mi_auth_type this = -2 then
        (case env ''AUTH_TYPE'' of
           None \<Rightarrow> auth_code Auth_none
         | Some a \<Rightarrow>
             if a = [] then auth_code Auth_none
             else if strcmp a ''Basic'' = 0 then auth_code Auth_basic
             else if strcmp a ''Digest'' = 0 then auth_code Auth_digest
             else auth_code Auth_invalid)
      else mi_auth_type this)"

definition content_length :: "'s meta_impl \<Rightarrow> int" where
  "content_length this = mi_content_length this"

section \<open>Content type\<close>

datatype content_target = To_Type | To_Subtype | To_Attribute | To_Value

record content_state =
  cs_s :: int
  cs_type :: "char option list ptr"
  cs_subtype :: "char option list ptr"
  cs_attribute :: "char option list ptr"
  cs_value :: "char option list ptr"
  cs_out :: cad_output_stream_string
  cs_target :: content_target
  cs_parameters :: string_table

text \<open>The stream writes through to the variable it was opened on.\<close>

definition content_write :: "content_state \<Rightarrow> cad_output_stream_string \<Rightarrow> content_state" where
  "content_write st out =
     (case cs_target st of
        To_Type \<Rightarrow> st\<lparr>cs_out := out, cs_type := oss_string out\<rparr>
      | To_Subtype \<Rightarrow> st\<lparr>cs_out := out, cs_subtype := oss_string out\<rparr>
      | To_Attribute \<Rightarrow> st\<lparr>cs_out := out, cs_attribute := oss_string out\<rparr>
      | To_Value \<Rightarrow> st\<lparr>cs_out := out, cs_value := oss_string out\<rparr>)"

definition content_put :: "content_state \<Rightarrow> char \<Rightarrow> content_state option" where
  "content_put st c = do { (_, out) \<leftarrow> string_vput (cs_out st) [c]; Some (content_write st out) }"

definition content_open :: "content_state \<Rightarrow> content_target \<Rightarrow> content_state" where
  "content_open st target = content_write (st\<lparr>cs_target := target\<rparr>) new_string_stream"

definition content_set :: "content_state \<Rightarrow> content_state option" where
  "content_set st = do {
     attribute \<leftarrow> cs_attribute st;
     k \<leftarrow> c_string attribute;
     v \<leftarrow> (case cs_value st of None \<Rightarrow> Some NULL | Some buf \<Rightarrow> map_option Some (c_string buf));
     (_, t) \<leftarrow> hash_set (cs_parameters st) k v;
     Some (st\<lparr>cs_parameters := t\<rparr>)
   }"

text \<open>After \<open>';'\<close>: the pair is stored and the next attribute starts.\<close>

definition content_next :: "content_state \<Rightarrow> content_state option" where
  "content_next st = do {
     st' \<leftarrow> content_set st;
     Some ((content_open (st'\<lparr>cs_attribute := NULL, cs_value := NULL\<rparr>) To_Attribute)\<lparr>cs_s := 2\<rparr>)
   }"

text \<open>The \<open>case 4\<close> of the switch, which \<open>case 3\<close> falls through into.\<close>

definition content_quoted :: "content_state \<Rightarrow> char \<Rightarrow> content_state option" where
  "content_quoted st c = (if c = CHR 0x22 then Some (st\<lparr>cs_s := 5\<rparr>) else content_put st c)"

definition content_step :: "content_state \<Rightarrow> char \<Rightarrow> content_state option" where
  "content_step st c =
     (if cs_s st = 0 then
        (if c = CHR ''/'' then Some ((content_open st To_Subtype)\<lparr>cs_s := 1\<rparr>) else content_put st c)
      else if cs_s st = 1 then
        (if c = CHR '';'' then Some ((content_open st To_Attribute)\<lparr>cs_s := 2\<rparr>) else content_put st c)
      else if cs_s st = 2 then
        (if c = CHR ''='' then Some ((content_open st To_Value)\<lparr>cs_s := 3\<rparr>) else content_put st c)
      else if cs_s st = 3 then do {
        st' \<leftarrow> (if c = CHR '';'' then content_next st
               else if c = CHR 0x22 then
                 Some (if cs_attribute st = NULL then st\<lparr>cs_s := 4\<rparr> else st)
               else content_put st c);
        content_quoted st' c
      }
      else if cs_s st = 4 then content_quoted st c
      else if cs_s st = 5 then (if c = CHR '';'' then content_next st else Some st)
      else Some st)"

fun content_loop :: "content_state \<Rightarrow> cstring \<Rightarrow> content_state option" where
  "content_loop st [] = Some st"
| "content_loop st (c # cs) = do { st' \<leftarrow> content_step st c; content_loop st' cs }"

definition content_type :: "environ \<Rightarrow> 's meta_impl \<Rightarrow> 's meta_impl option" where
  "content_type env this =
     (if mi_ct_type this = NULL then
        (case env ''CONTENT_TYPE'' of
           None \<Rightarrow> Some (this\<lparr>mi_ct_type := Some no_value, mi_ct_subtype := Some no_value\<rparr>)
         | Some ct \<Rightarrow>
             if ct = [] then Some (this\<lparr>mi_ct_type := Some no_value, mi_ct_subtype := Some no_value\<rparr>)
             else do {
               st \<leftarrow> content_loop
                 \<lparr>cs_s = 0, cs_type = NULL, cs_subtype = mi_ct_subtype this, cs_attribute = NULL, cs_value = NULL,
                  cs_out = new_string_stream, cs_target = To_Type, cs_parameters = mi_ct_parameters this\<rparr> ct;
               st' \<leftarrow> (if cs_s st = 3 \<or> cs_s st = 5 then content_set st else Some st);
               Some (this\<lparr>mi_ct_type := cs_type st', mi_ct_subtype := cs_subtype st',
                          mi_ct_parameters := cs_parameters st'\<rparr>)
             })
      else Some this)"

section \<open>Versions\<close>

text \<open>The state machine of \<open>gateway_interface\<close>: states 0 to 3 match \<open>CGI/\<close>, 4 reads the major number
  and 5 the minor one; a negative number stops it.\<close>

definition gateway_step :: "int \<Rightarrow> int \<Rightarrow> int \<Rightarrow> char \<Rightarrow> (int \<times> int \<times> int) option" where
  "gateway_step s major minor c =
     (if s = 0 then Some (if c = CHR ''C'' then 1 else -1, major, minor)
      else if s = 1 then Some (if c = CHR ''G'' then 2 else -1, major, minor)
      else if s = 2 then Some (if c = CHR ''I'' then 3 else -1, major, minor)
      else if s = 3 then Some (if c = CHR ''/'' then 4 else -1, major, minor)
      else if s = 4 then
        (if c = CHR ''.'' then Some (5, major, minor)
         else do { major' \<leftarrow> push_digit major c; Some (if major' < 0 then -1 else s, major', minor) })
      else if s = 5 then do { minor' \<leftarrow> push_digit minor c; Some (if minor' < 0 then -1 else s, major, minor') }
      else Some (-1, major, minor))"

fun gateway_loop :: "int \<Rightarrow> int \<Rightarrow> int \<Rightarrow> cstring \<Rightarrow> (int \<times> int) option" where
  "gateway_loop s major minor [] = Some (major, minor)"
| "gateway_loop s major minor (c # cs) =
     (if s < 0 then Some (major, minor)
      else do { (s', major', minor') \<leftarrow> gateway_step s major minor c; gateway_loop s' major' minor' cs })"

definition gateway_interface :: "environ \<Rightarrow> 's meta_impl \<Rightarrow> 's meta_impl option" where
  "gateway_interface env this =
     (if mi_gi_major this = 0 then
        (case env ''GATEWAY_INTERFACE'' of
           None \<Rightarrow> Some this
         | Some g \<Rightarrow> do {
             (major, minor) \<leftarrow> gateway_loop 0 (mi_gi_major this) (mi_gi_minor this) g;
             Some (this\<lparr>mi_gi_major := major, mi_gi_minor := minor\<rparr>)
           })
      else Some this)"

text \<open>The version loop of \<open>server_protocol\<close>: state 0 reads the major number, 1 the minor one.\<close>

fun protocol_loop :: "int \<Rightarrow> int \<Rightarrow> int \<Rightarrow> cstring \<Rightarrow> (int \<times> int) option" where
  "protocol_loop s major minor [] = Some (major, minor)"
| "protocol_loop s major minor (c # cs) =
     (if s < 0 then Some (major, minor)
      else if s = 0 then
        (if c = CHR ''.'' then protocol_loop 1 major minor cs
         else do {
           major' \<leftarrow> push_digit major c;
           protocol_loop (if major' < 0 then -1 else s) major' minor cs
         })
      else do {
        minor' \<leftarrow> push_digit minor c;
        protocol_loop (if minor' < 0 then -1 else s) major minor' cs
      })"

text \<open>The string of the environment is cut at its first \<open>'/'\<close>.\<close>

definition server_protocol :: "environ \<Rightarrow> 's meta_impl \<Rightarrow> (environ \<times> 's meta_impl) option" where
  "server_protocol env this =
     (if mi_sp_protocol this = NULL then
        (case env ''SERVER_PROTOCOL'' of
           None \<Rightarrow> Some (env, this\<lparr>mi_sp_protocol := Some []\<rparr>)
         | Some p \<Rightarrow>
             (case dropWhile (\<lambda>c. c \<noteq> CHR ''/'') p of
                [] \<Rightarrow> Some (env, this\<lparr>mi_sp_protocol := Some p\<rparr>)
              | _ # version \<Rightarrow> do {
                  (major, minor) \<leftarrow> protocol_loop 0 0 0 version;
                  let cut = takeWhile (\<lambda>c. c \<noteq> CHR ''/'') p;
                  Some (env(''SERVER_PROTOCOL'' \<mapsto> cut),
                        this\<lparr>mi_sp_protocol := Some cut, mi_sp_major := major, mi_sp_minor := minor\<rparr>)
                }))
      else Some (env, this))"

definition server_port :: "environ \<Rightarrow> 's meta_impl \<Rightarrow> int \<times> 's meta_impl" where
  "server_port env this =
     (if mi_server_port this = -1 then
        (case env ''SERVER_PORT'' of
           None \<Rightarrow> (-1, this)
         | Some p \<Rightarrow>
             (let sp = strtol p in
              if int INT_MAX < sp then (int INT_MAX, this\<lparr>mi_server_port := int INT_MAX\<rparr>)
              else if 0 < sp then (sp, this\<lparr>mi_server_port := sp\<rparr>)
              else (-1, this)))
      else (mi_server_port this, this))"

section \<open>Plain variables\<close>

text \<open>The cached string, or the variable, or the empty string.\<close>

definition cached_getenv :: "environ \<Rightarrow> cstring \<Rightarrow> cstring ptr \<Rightarrow> cstring" where
  "cached_getenv env variable cache =
     (case cache of
        Some s \<Rightarrow> s
      | None \<Rightarrow> (case env variable of None \<Rightarrow> [] | Some s \<Rightarrow> s))"

definition path_info :: "environ \<Rightarrow> 's meta_impl \<Rightarrow> cstring \<times> 's meta_impl" where
  "path_info env this =
     (let r = cached_getenv env ''PATH_INFO'' (mi_path_info this) in (r, this\<lparr>mi_path_info := Some r\<rparr>))"

definition path_translated :: "environ \<Rightarrow> 's meta_impl \<Rightarrow> cstring \<times> 's meta_impl" where
  "path_translated env this =
     (let r = cached_getenv env ''PATH_TRANSLATED'' (mi_path_translated this)
      in (r, this\<lparr>mi_path_translated := Some r\<rparr>))"

definition remote_addr :: "environ \<Rightarrow> 's meta_impl \<Rightarrow> cstring \<times> 's meta_impl" where
  "remote_addr env this =
     (let r = cached_getenv env ''REMOTE_ADDR'' (mi_remote_addr this) in (r, this\<lparr>mi_remote_addr := Some r\<rparr>))"

definition remote_host :: "environ \<Rightarrow> 's meta_impl \<Rightarrow> cstring \<times> 's meta_impl" where
  "remote_host env this =
     (let r = cached_getenv env ''REMOTE_HOST'' (mi_remote_host this) in (r, this\<lparr>mi_remote_host := Some r\<rparr>))"

definition remote_ident :: "environ \<Rightarrow> 's meta_impl \<Rightarrow> cstring \<times> 's meta_impl" where
  "remote_ident env this =
     (let r = cached_getenv env ''REMOTE_IDENT'' (mi_remote_ident this) in (r, this\<lparr>mi_remote_ident := Some r\<rparr>))"

definition remote_user :: "environ \<Rightarrow> 's meta_impl \<Rightarrow> cstring \<times> 's meta_impl" where
  "remote_user env this =
     (let r = cached_getenv env ''REMOTE_USER'' (mi_remote_user this) in (r, this\<lparr>mi_remote_user := Some r\<rparr>))"

definition request_method :: "environ \<Rightarrow> 's meta_impl \<Rightarrow> cstring \<times> 's meta_impl" where
  "request_method env this =
     (let r = cached_getenv env ''REQUEST_METHOD'' (mi_request_method this)
      in (r, this\<lparr>mi_request_method := Some r\<rparr>))"

definition script_name :: "environ \<Rightarrow> 's meta_impl \<Rightarrow> cstring \<times> 's meta_impl" where
  "script_name env this =
     (let r = cached_getenv env ''SCRIPT_NAME'' (mi_script_name this) in (r, this\<lparr>mi_script_name := Some r\<rparr>))"

definition server_name :: "environ \<Rightarrow> 's meta_impl \<Rightarrow> cstring \<times> 's meta_impl" where
  "server_name env this =
     (let r = cached_getenv env ''SERVER_NAME'' (mi_server_name this) in (r, this\<lparr>mi_server_name := Some r\<rparr>))"

definition server_software :: "environ \<Rightarrow> 's meta_impl \<Rightarrow> cstring \<times> 's meta_impl" where
  "server_software env this =
     (let r = cached_getenv env ''SERVER_SOFTWARE'' (mi_server_software this)
      in (r, this\<lparr>mi_server_software := Some r\<rparr>))"

section \<open>Query string and form\<close>

definition query_string ::
  "('w \<Rightarrow> int \<times> 'w) \<Rightarrow> environ \<Rightarrow> 'w \<Rightarrow> 's meta_impl \<Rightarrow> (string_table ptr \<times> 's meta_impl \<times> 'w) option" where
  "query_string hash_salt env w this =
     (case mi_query_string this of
        Some t \<Rightarrow> Some (Some t, this, w)
      | None \<Rightarrow>
          (case env ''QUERY_STRING'' of
             None \<Rightarrow> Some (NULL, this, w)
           | Some q \<Rightarrow>
               (case new_cad_input_stream_from_string True q of
                  None \<Rightarrow> Some (NULL, this, w)
                | Some ins \<Rightarrow> do {
                    (t, _, w') \<leftarrow> parse_query_or_form string_input hash_salt w ins;
                    Some (Some t, this\<lparr>mi_query_string := Some t\<rparr>, w')
                  })))"

text \<open>The input stream is released after the form has been read, but \<open>mi_in\<close> keeps its address.\<close>

definition input_as_form ::
  "'s cad_input_stream \<Rightarrow> ('w \<Rightarrow> int \<times> 'w) \<Rightarrow> 'w \<Rightarrow> 's meta_impl
    \<Rightarrow> (string_table ptr \<times> 's meta_impl \<times> 'w) option" where
  "input_as_form ops hash_salt w this =
     (case mi_input_as_form this of
        Some t \<Rightarrow> Some (Some t, this, w)
      | None \<Rightarrow>
          (case mi_in this of
             None \<Rightarrow> Some (NULL, this, w)
           | Some ins \<Rightarrow> do {
               (t, ins', w') \<leftarrow> parse_query_or_form ops hash_salt w ins;
               Some (Some t, this\<lparr>mi_input_as_form := Some t, mi_in := Some ins'\<rparr>, w')
             }))"

section \<open>Creation and release\<close>

text \<open>\<open>new_meta\<close> leaves \<open>input_as_form\<close> and \<open>server_name\<close> uninitialised; what they happen to hold are the
  arguments \<open>form\<close> and \<open>srv\<close>.\<close>

definition new_meta ::
  "string_table ptr \<Rightarrow> cstring ptr \<Rightarrow> ('w \<Rightarrow> int \<times> 'w) \<Rightarrow> environ \<Rightarrow> 'w \<Rightarrow> 's ptr \<Rightarrow> ('s meta_impl \<times> 'w) option" where
  "new_meta form srv hash_salt env w ins =
     (case cad_new_hash True hash_salt w cad_hash_strings of
        (None, _) \<Rightarrow> None
      | (Some t, w') \<Rightarrow> Some
          (\<lparr>mi_auth_type = -2,
            mi_content_length =
              (case env ''CONTENT_LENGTH'' of
                 None \<Rightarrow> 0
               | Some l \<Rightarrow> (let cl = strtol l in
                   if int INT_MAX < cl then int INT_MAX else if 0 < cl then cl else 0)),
            mi_ct_type = NULL, mi_ct_subtype = NULL, mi_ct_parameters = t,
            mi_gi_major = 0, mi_gi_minor = 0, mi_path_info = NULL, mi_path_translated = NULL,
            mi_query_string = NULL, mi_input_as_form = form, mi_remote_addr = NULL, mi_remote_host = NULL,
            mi_remote_ident = NULL, mi_remote_user = NULL, mi_request_method = NULL, mi_script_name = NULL,
            mi_server_name = srv, mi_server_port = -1, mi_sp_protocol = NULL, mi_sp_major = 0, mi_sp_minor = 0,
            mi_server_software = NULL, mi_in = ins\<rparr>, w'))"

text \<open>The iterator that releases the values of a table only frees them: as data it counts them.\<close>

definition clean_string :: "(cstring, cstring, nat) hash_iterator" where
  "clean_string i k v freed = Suc freed"

text \<open>Releasing a table: \<open>clean\<close>, then \<open>free\<close>; the result is the number of values and the keys left.\<close>

definition release_table :: "string_table \<Rightarrow> (nat \<times> cstring multiset) option" where
  "release_table t = do {
     (freed, t') \<leftarrow> hash_clean t clean_string 0;
     live \<leftarrow> hash_free t';
     Some (freed, live)
   }"

definition free_meta :: "'s meta_impl \<Rightarrow> (nat \<times> cstring multiset) option" where
  "free_meta this = do {
     (n1, l1) \<leftarrow> (case mi_input_as_form this of None \<Rightarrow> Some (0, {#}) | Some t \<Rightarrow> release_table t);
     (n2, l2) \<leftarrow> (case mi_query_string this of None \<Rightarrow> Some (0, {#}) | Some t \<Rightarrow> release_table t);
     (n3, l3) \<leftarrow> release_table (mi_ct_parameters this);
     Some (n1 + n2 + n3, l1 + l2 + l3)
   }"

section \<open>The interface\<close>

text \<open>\<open>struct cad_cgi_meta\<close>, in the order of its slots. Each function reads the environment; those that cache what
  they have read return the object too.\<close>

record ('s, 'w) cad_cgi_meta =
  meta_auth_type_slot :: "environ \<Rightarrow> 's meta_impl \<Rightarrow> int"
  meta_content_length_slot :: "'s meta_impl \<Rightarrow> int"
  meta_content_type_slot :: "environ \<Rightarrow> 's meta_impl \<Rightarrow> 's meta_impl option"
  meta_gateway_interface_slot :: "environ \<Rightarrow> 's meta_impl \<Rightarrow> 's meta_impl option"
  meta_path_info_slot :: "environ \<Rightarrow> 's meta_impl \<Rightarrow> cstring \<times> 's meta_impl"
  meta_path_translated_slot :: "environ \<Rightarrow> 's meta_impl \<Rightarrow> cstring \<times> 's meta_impl"
  meta_query_string_slot :: "('w \<Rightarrow> int \<times> 'w) \<Rightarrow> environ \<Rightarrow> 'w \<Rightarrow> 's meta_impl \<Rightarrow> (string_table ptr \<times> 's meta_impl \<times> 'w) option"
  meta_input_as_form_slot :: "'s cad_input_stream \<Rightarrow> ('w \<Rightarrow> int \<times> 'w) \<Rightarrow> 'w \<Rightarrow> 's meta_impl
    \<Rightarrow> (string_table ptr \<times> 's meta_impl \<times> 'w) option"
  meta_remote_addr_slot :: "environ \<Rightarrow> 's meta_impl \<Rightarrow> cstring \<times> 's meta_impl"
  meta_remote_host_slot :: "environ \<Rightarrow> 's meta_impl \<Rightarrow> cstring \<times> 's meta_impl"
  meta_remote_ident_slot :: "environ \<Rightarrow> 's meta_impl \<Rightarrow> cstring \<times> 's meta_impl"
  meta_remote_user_slot :: "environ \<Rightarrow> 's meta_impl \<Rightarrow> cstring \<times> 's meta_impl"
  meta_request_method_slot :: "environ \<Rightarrow> 's meta_impl \<Rightarrow> cstring \<times> 's meta_impl"
  meta_script_name_slot :: "environ \<Rightarrow> 's meta_impl \<Rightarrow> cstring \<times> 's meta_impl"
  meta_server_name_slot :: "environ \<Rightarrow> 's meta_impl \<Rightarrow> cstring \<times> 's meta_impl"
  meta_server_port_slot :: "environ \<Rightarrow> 's meta_impl \<Rightarrow> int \<times> 's meta_impl"
  meta_server_protocol_slot :: "environ \<Rightarrow> 's meta_impl \<Rightarrow> (environ \<times> 's meta_impl) option"
  meta_server_software_slot :: "environ \<Rightarrow> 's meta_impl \<Rightarrow> cstring \<times> 's meta_impl"

definition meta_fn :: "('s, 'w) cad_cgi_meta" where
  "meta_fn =
     \<lparr>meta_auth_type_slot = auth_type,
      meta_content_length_slot = content_length,
      meta_content_type_slot = content_type,
      meta_gateway_interface_slot = gateway_interface,
      meta_path_info_slot = path_info,
      meta_path_translated_slot = path_translated,
      meta_query_string_slot = query_string,
      meta_input_as_form_slot = input_as_form,
      meta_remote_addr_slot = remote_addr,
      meta_remote_host_slot = remote_host,
      meta_remote_ident_slot = remote_ident,
      meta_remote_user_slot = remote_user,
      meta_request_method_slot = request_method,
      meta_script_name_slot = script_name,
      meta_server_name_slot = server_name,
      meta_server_port_slot = server_port,
      meta_server_protocol_slot = server_protocol,
      meta_server_software_slot = server_software\<rparr>"

end
