(* ===== verification/Cad_Cgi_Laws.thy ===== *)
theory Cad_Cgi_Laws
  imports Cad_Cgi_Meta
begin

text \<open>
  What the parsers of the CGI meta-variables compute: the content type and its parameters, version
  numbers, and the inverse of the query string parser on strings in percent encoding.
\<close>

section \<open>The content type loop\<close>

definition content_at :: "content_state \<Rightarrow> cstring \<Rightarrow> bool" where
  "content_at st w \<longleftrightarrow>
     content_write st (cs_out st) = st \<and> oss_inv (cs_out st) \<and> string_written (cs_out st) = w"

lemma content_write_simps [simp]:
  "content_write (content_write st o1) o2 = content_write st o2"
  "cs_out (content_write st out) = out"
  "cs_s (content_write st out) = cs_s st"
  "cs_target (content_write st out) = cs_target st"
  "cs_parameters (content_write st out) = cs_parameters st"
  by (cases "cs_target st"; simp add: content_write_def)+

lemma content_put_total:
  assumes "content_at st w" "c \<noteq> NUL" "2 * (length w + 2) \<le> INT_MAX"
  obtains out where "content_put st c = Some (content_write st out)" "content_at (content_write st out) (w @ [c])"
proof -
  obtain out where "string_vput (cs_out st) [c] = Some (int (length [c]), out)" "oss_inv out"
      "string_written out = string_written (cs_out st) @ [c]"
    using string_vput_total [of "cs_out st" "[c]"] assms by (auto simp: content_at_def)
  then show ?thesis
    using assms(1) that [of out] by (simp add: content_put_def content_at_def)
qed

lemma content_at_open: "content_at (content_open st target) []" "cs_target (content_open st target) = target"
  by (cases target; simp add: content_at_def content_open_def content_write_def)+

lemma content_at_s [simp]: "content_at (st\<lparr>cs_s := s\<rparr>) w = content_at st w"
  by (cases "cs_target st"; cases st; simp add: content_at_def content_write_def)

lemma content_step_copies:
  "cs_s st = 0 \<Longrightarrow> c \<noteq> CHR ''/'' \<Longrightarrow> content_step st c = content_put st c"
  "cs_s st = 1 \<Longrightarrow> c \<noteq> CHR '';'' \<Longrightarrow> content_step st c = content_put st c"
  "cs_s st = 2 \<Longrightarrow> c \<noteq> CHR ''='' \<Longrightarrow> content_step st c = content_put st c"
  by (simp_all add: content_step_def)

text \<open>A text without the character that ends it is copied.\<close>

lemma content_loop_copies:
  assumes "content_at st w" "cs_s st = 0 \<and> CHR ''/'' \<notin> set cs \<or> cs_s st = 1 \<and> CHR '';'' \<notin> set cs \<or>
      cs_s st = 2 \<and> CHR ''='' \<notin> set cs"
    and "valid_cstring cs" "2 * (length w + length cs + 2) \<le> INT_MAX"
  shows "\<exists>out. content_loop st (cs @ later) = content_loop (content_write st out) later \<and>
    content_at (content_write st out) (w @ cs)"
  using assms
proof (induction cs arbitrary: st w)
  case Nil
  then show ?case by (intro exI [of _ "cs_out st"]) (simp add: content_at_def)
next
  case (Cons c cs)
  obtain out where out: "content_put st c = Some (content_write st out)"
      "content_at (content_write st out) (w @ [c])"
    using content_put_total [OF Cons.prems(1), of c] Cons.prems(3,4) by auto
  have "content_step st c = content_put st c"
    using Cons.prems(2) content_step_copies [of st c] by fastforce
  moreover have "cs_s (content_write st out) = 0 \<and> CHR ''/'' \<notin> set cs \<or>
      cs_s (content_write st out) = 1 \<and> CHR '';'' \<notin> set cs \<or> cs_s (content_write st out) = 2 \<and> CHR ''='' \<notin> set cs"
    using Cons.prems(2) by fastforce
  from Cons.IH [OF out(2) this] Cons.prems(3,4) obtain out' where "content_loop (content_write st out) (cs @ later) =
        content_loop (content_write st out') later" "content_at (content_write st out') (w @ c # cs)"
    by auto
  ultimately show ?case using out(1) by auto
qed

text \<open>In state 3 the fall-through copies every character twice.\<close>

lemma content_loop_doubles:
  assumes "content_at st w" "cs_s st = 3" "CHR '';'' \<notin> set cs" "CHR 0x22 \<notin> set cs"
    and "valid_cstring cs" "2 * (length w + 2 * length cs + 3) \<le> INT_MAX"
  shows "\<exists>out. content_loop st cs = Some (content_write st out) \<and>
    content_at (content_write st out) (w @ concat (map (\<lambda>c. [c, c]) cs))"
  using assms
proof (induction cs arbitrary: st w)
  case Nil
  then show ?case by (intro exI [of _ "cs_out st"]) (simp add: content_at_def)
next
  case (Cons c cs)
  obtain o1 where o1: "content_put st c = Some (content_write st o1)" "content_at (content_write st o1) (w @ [c])"
    using content_put_total [OF Cons.prems(1), of c] Cons.prems(5,6) by auto
  obtain o2 where o2: "content_put (content_write st o1) c = Some (content_write st o2)"
      "content_at (content_write st o2) (w @ [c, c])"
    using content_put_total [OF o1(2), of c] Cons.prems(5,6) by auto
  have "content_step st c = Some (content_write st o2)"
    using Cons.prems(2-4) o1(1) o2(1) by (auto simp: content_step_def content_quoted_def)
  moreover obtain out where "content_loop (content_write st o2) cs = Some (content_write st out)"
      "content_at (content_write st out) (w @ [c, c] @ concat (map (\<lambda>c. [c, c]) cs))"
    using Cons.IH [OF o2(2)] Cons.prems by auto
  ultimately show ?case by auto
qed

lemma content_at_string:
  assumes "content_at st w" "w \<noteq> []"
  obtains buf where "oss_string (cs_out st) = Some buf" "c_string buf = Some w"
  using assms oss_c_string [of "cs_out st"] oss_inv_written(4) [of "cs_out st"]
  by (cases "oss_string (cs_out st)") (auto simp: content_at_def)

lemma content_loop_media:
  assumes "valid_cstring (t @ st)" "CHR ''/'' \<notin> set t" "CHR '';'' \<notin> set st" "t \<noteq> []" "st \<noteq> []"
    and "2 * (length t + length st + 2) \<le> INT_MAX"
    and s0: "content_at s0 []" "cs_s s0 = 0" "cs_target s0 = To_Type"
  shows "\<exists>s tb sb. content_loop s0 (t @ CHR ''/'' # st @ later) = content_loop s later \<and>
    cs_s s = 1 \<and> cs_type s = Some tb \<and> c_string tb = Some t \<and> cs_subtype s = Some sb \<and> c_string sb = Some st \<and>
    cs_parameters s = cs_parameters s0"
proof -
  obtain o1 where o1: "content_loop s0 (t @ CHR ''/'' # st @ later) =
        content_loop (content_write s0 o1) (CHR ''/'' # st @ later)" "content_at (content_write s0 o1) t"
    using content_loop_copies [OF s0(1), of t "CHR ''/'' # st @ later"] assms(1,2,6) s0(2) by auto
  let ?s1 = "(content_open (content_write s0 o1) To_Subtype)\<lparr>cs_s := 1\<rparr>"
  have "content_step (content_write s0 o1) CHR ''/'' = Some ?s1"
    using s0(2) by (simp add: content_step_def)
  moreover have "content_at ?s1 []" by (simp add: content_at_open)
  then obtain o2 where o2: "content_loop ?s1 (st @ later) = content_loop (content_write ?s1 o2) later"
      "content_at (content_write ?s1 o2) st"
    using content_loop_copies [of ?s1 "[]" st later] assms(1,3,6) by auto
  moreover obtain tb where "oss_string o1 = Some tb" "c_string tb = Some t"
    using content_at_string [OF o1(2) assms(4)] by auto
  moreover obtain sb where "oss_string o2 = Some sb" "c_string sb = Some st"
    using content_at_string [OF o2(2) assms(5)] by auto
  ultimately show ?thesis
    using o1(1) s0(3)
    by (intro exI [of _ "content_write ?s1 o2"] exI [of _ tb] exI [of _ sb])
      (simp add: content_open_def content_write_def)
qed

lemma content_loop_parameter:
  assumes "valid_cstring (a @ v)" "CHR ''='' \<notin> set a" "CHR '';'' \<notin> set v" "CHR 0x22 \<notin> set v" "a \<noteq> []" "v \<noteq> []"
    and "2 * (length a + 2 * length v + 3) \<le> INT_MAX" "cs_s s = 1"
  shows "\<exists>s' ab vb. content_loop s (CHR '';'' # a @ CHR ''='' # v) = Some s' \<and> cs_s s' = 3 \<and>
    cs_type s' = cs_type s \<and> cs_subtype s' = cs_subtype s \<and> cs_parameters s' = cs_parameters s \<and>
    cs_attribute s' = Some ab \<and> c_string ab = Some a \<and>
    cs_value s' = Some vb \<and> c_string vb = Some (concat (map (\<lambda>c. [c, c]) v))"
proof -
  let ?s1 = "(content_open s To_Attribute)\<lparr>cs_s := 2\<rparr>"
  have "content_step s CHR '';'' = Some ?s1"
    using assms(8) by (simp add: content_step_def)
  moreover have "content_at ?s1 []" by (simp add: content_at_open)
  then obtain o1 where o1: "content_loop ?s1 (a @ CHR ''='' # v) = content_loop (content_write ?s1 o1) (CHR ''='' # v)"
      "content_at (content_write ?s1 o1) a"
    using content_loop_copies [of ?s1 "[]" a "CHR ''='' # v"] assms(1,2,7) by auto
  let ?s2 = "(content_open (content_write ?s1 o1) To_Value)\<lparr>cs_s := 3\<rparr>"
  have "content_step (content_write ?s1 o1) CHR ''='' = Some ?s2"
    by (simp add: content_step_def)
  moreover have "content_at ?s2 []" by (simp add: content_at_open)
  then obtain o2 where o2: "content_loop ?s2 v = Some (content_write ?s2 o2)"
      "content_at (content_write ?s2 o2) (concat (map (\<lambda>c. [c, c]) v))"
    using content_loop_doubles [of ?s2 "[]" v] assms(1,3,4,7) by auto
  moreover obtain ab where "oss_string o1 = Some ab" "c_string ab = Some a"
    using content_at_string [OF o1(2) assms(5)] by auto
  moreover have "concat (map (\<lambda>c. [c, c]) v) \<noteq> []" using assms(6) by (cases v) auto
  then obtain vb where "oss_string o2 = Some vb" "c_string vb = Some (concat (map (\<lambda>c. [c, c]) v))"
    using content_at_string [OF o2(2)] by auto
  ultimately show ?thesis
    using o1(1)
    by (intro exI [of _ "content_write ?s2 o2"] exI [of _ ab] exI [of _ vb])
      (simp add: content_open_def content_write_def)
qed

section \<open>Versions\<close>

lemma push_digit_nonneg: "d \<in> set ''0123456789'' \<Longrightarrow> 0 \<le> n \<Longrightarrow> push_digit n d = Some n' \<Longrightarrow> 0 \<le> n'"
  by (auto simp: push_digit_def s_int_def char_int_def split: bind_splits if_splits)

lemma gateway_loop_major:
  "push_digits major cs = Some major' \<Longrightarrow> 0 \<le> major \<Longrightarrow> set cs \<subseteq> set ''0123456789'' \<Longrightarrow>
   gateway_loop 4 major minor (cs @ later) = gateway_loop 4 major' minor later \<and> 0 \<le> major'"
proof (induction cs arbitrary: major)
  case (Cons c cs)
  from Cons.prems(1) obtain n where n: "push_digit major c = Some n" "push_digits n cs = Some major'"
    by (auto split: bind_splits)
  moreover have "0 \<le> n" "c \<noteq> CHR ''.''" using push_digit_nonneg [OF _ Cons.prems(2) n(1)] Cons.prems(3) by auto
  ultimately show ?case using Cons.IH [OF n(2)] Cons.prems(3) by (simp add: gateway_step_def)
qed simp

lemma gateway_loop_minor:
  "push_digits minor cs = Some minor' \<Longrightarrow> 0 \<le> minor \<Longrightarrow> set cs \<subseteq> set ''0123456789'' \<Longrightarrow>
   gateway_loop 5 major minor cs = Some (major, minor')"
proof (induction cs arbitrary: minor)
  case (Cons c cs)
  from Cons.prems(1) obtain n where n: "push_digit minor c = Some n" "push_digits n cs = Some minor'"
    by (auto split: bind_splits)
  moreover have "0 \<le> n" using push_digit_nonneg [OF _ Cons.prems(2) n(1)] Cons.prems(3) by auto
  ultimately show ?case using Cons.IH [OF n(2)] Cons.prems(3) by (simp add: gateway_step_def)
qed simp

lemma protocol_loop_major:
  "push_digits major cs = Some major' \<Longrightarrow> 0 \<le> major \<Longrightarrow> set cs \<subseteq> set ''0123456789'' \<Longrightarrow>
   protocol_loop 0 major minor (cs @ later) = protocol_loop 0 major' minor later \<and> 0 \<le> major'"
proof (induction cs arbitrary: major)
  case (Cons c cs)
  from Cons.prems(1) obtain n where n: "push_digit major c = Some n" "push_digits n cs = Some major'"
    by (auto split: bind_splits)
  moreover have "0 \<le> n" "c \<noteq> CHR ''.''" using push_digit_nonneg [OF _ Cons.prems(2) n(1)] Cons.prems(3) by auto
  ultimately show ?case using Cons.IH [OF n(2)] Cons.prems(3) by simp
qed simp

lemma protocol_loop_minor:
  "push_digits minor cs = Some minor' \<Longrightarrow> 0 \<le> minor \<Longrightarrow> set cs \<subseteq> set ''0123456789'' \<Longrightarrow>
   protocol_loop 1 major minor cs = Some (major, minor')"
proof (induction cs arbitrary: minor)
  case (Cons c cs)
  from Cons.prems(1) obtain n where n: "push_digit minor c = Some n" "push_digits n cs = Some minor'"
    by (auto split: bind_splits)
  moreover have "0 \<le> n" using push_digit_nonneg [OF _ Cons.prems(2) n(1)] Cons.prems(3) by auto
  ultimately show ?case using Cons.IH [OF n(2)] Cons.prems(3) by simp
qed simp

lemma gateway_loop_version:
  assumes "int major + 57 \<le> int INT_MAX" "int minor + 57 \<le> int INT_MAX"
  shows "gateway_loop 0 0 0 (''CGI/'' @ decimal major @ ''.'' @ decimal minor) = Some (int major, int minor)"
  using gateway_loop_major [OF push_digits_decimal [OF assms(1)] _ set_decimal, of 0 "''.'' @ decimal minor"]
    gateway_loop_minor [OF push_digits_decimal [OF assms(2)] _ set_decimal, of "int major"]
  by (simp add: gateway_step_def)

lemma protocol_loop_version:
  assumes "int major + 57 \<le> int INT_MAX" "int minor + 57 \<le> int INT_MAX"
  shows "protocol_loop 0 0 0 (decimal major @ ''.'' @ decimal minor) = Some (int major, int minor)"
  using protocol_loop_major [OF push_digits_decimal [OF assms(1)] _ set_decimal, of 0 "''.'' @ decimal minor"]
    protocol_loop_minor [OF push_digits_decimal [OF assms(2)] _ set_decimal, of "int major"]
  by simp

section \<open>Percent encoding\<close>

definition hex_char :: "nat \<Rightarrow> char" where
  "hex_char d = ''0123456789ABCDEF'' ! d"

definition escape_char :: "char \<Rightarrow> cstring" where
  "escape_char c = [CHR ''%'', hex_char (of_char c div 16), hex_char (of_char c mod 16)]"

definition url_encode :: "(char \<Rightarrow> bool) \<Rightarrow> cstring \<Rightarrow> cstring" where
  "url_encode safe s = concat (map (\<lambda>c. if safe c then [c] else escape_char c) s)"

text \<open>What may be left as it is.\<close>

definition url_safe :: "(char \<Rightarrow> bool) \<Rightarrow> bool" where
  "url_safe safe \<longleftrightarrow> (\<forall>c. safe c \<longrightarrow> c \<notin> {CHR ''='', CHR ''&'', CHR ''%'', CHR ''+'', CHR 0x0A, FF, NUL})"

fun url_query :: "(char \<Rightarrow> bool) \<Rightarrow> (cstring \<times> cstring) list \<Rightarrow> cstring" where
  "url_query safe [] = []"
| "url_query safe [(a, v)] = url_encode safe a @ ''='' @ url_encode safe v"
| "url_query safe ((a, v) # p # ps) = url_encode safe a @ ''='' @ url_encode safe v @ ''&'' @ url_query safe (p # ps)"

lemma less_16_cases: "d < (16::nat) \<Longrightarrow> d = 0 \<or> d = 1 \<or> d = 2 \<or> d = 3 \<or> d = 4 \<or> d = 5 \<or> d = 6 \<or> d = 7 \<or>
    d = 8 \<or> d = 9 \<or> d = 10 \<or> d = 11 \<or> d = 12 \<or> d = 13 \<or> d = 14 \<or> d = 15"
  by arith

lemma hex_digit_hex_char: "d < 16 \<Longrightarrow> hex_digit (char_int (hex_char d)) = Some (int d)"
  by (drule less_16_cases) (elim disjE; simp add: hex_char_def hex_digit_def char_int_def)

lemma decode_escape_char: "decode_escape (hex_char (of_char c div 16)) (hex_char (of_char c mod 16)) = Some c"
proof -
  have "(of_char c :: nat) div 16 < 16" using nat_of_char_less_256 [of c] by (simp add: less_mult_imp_div_less)
  moreover have "int (of_char c div 16) * 16 + int (of_char c mod 16) = of_char c"
    by (metis div_mult_mod_eq of_nat_add of_nat_mult of_nat_numeral of_nat_of_char)
  ultimately show ?thesis
    using of_char_bounds [of c]
    by (simp add: decode_escape_def hex_digit_hex_char int_char_def mult.commute)
qed

lemma query_attribute_encoded:
  assumes "url_safe safe"
  shows "query_attribute a (url_encode safe s @ later) = query_attribute (a @ s) later"
proof (induction s arbitrary: a)
  case (Cons c s)
  then show ?case
    using assms decode_escape_char [of c]
    by (auto simp: url_encode_def url_safe_def escape_char_def query_attribute.simps(2))
qed (simp add: url_encode_def)

lemma query_value_encoded:
  assumes "url_safe safe"
  shows "query_value a v (url_encode safe s @ later) = query_value a (v @ s) later"
proof (induction s arbitrary: v)
  case (Cons c s)
  then show ?case
    using assms decode_escape_char [of c]
    by (auto simp: url_encode_def url_safe_def escape_char_def query_value.simps(2))
qed (simp add: url_encode_def)

lemma query_pairs_encoded:
  assumes "url_safe safe" "\<forall>(a, v) \<in> set ps. a \<noteq> []"
  shows "query_pairs (url_query safe ps) = ps"
  using assms
proof (induction safe ps rule: url_query.induct)
  case (1 safe)
  then show ?case by (simp add: query_pairs.simps)
next
  case (2 safe a v)
  then show ?case
    using query_value_encoded [OF "2.prems"(1), of a "[]" v "[]"]
    by (simp add: query_pairs.simps query_attribute_encoded query_attribute.simps(2))
next
  case (3 safe a v p ps)
  then show ?case
    by (simp add: query_pairs.simps [of "url_encode _ _ @ _"] query_attribute_encoded
        query_attribute.simps(2) query_value_encoded query_value.simps(2))
qed

end
