(* ===== verification/Cad_Cookies.thy ===== *)
theory Cad_Cookies
  imports Cad_Table Cad_Stream Cad_Format
begin

text \<open>
  CGI cookies (src/cad_cgi_cookies.c). The jar is a hash table from names to pointers: a
  cookie is at an address of a store, because the handler of a request changes cookies that the
  jar holds, and because cookies are released one by one. \<open>new_cad_cgi_cookie\<close> does not
  initialise the value; what the fresh memory holds there is an argument.
\<close>

section \<open>A cookie\<close>

text \<open>The pointer to the value: \<open>NULL\<close>, a string the cookie owns, or an indeterminate pointer.\<close>

datatype value_ptr = Null_Value | Owned cstring | Wild

record cookie_impl =
  ck_changed :: bool
  ck_name :: cstring
  ck_value :: value_ptr
  ck_expires :: int
  ck_max_age :: int
  ck_flag :: int
  ck_domain :: "cstring ptr"
  ck_path :: "cstring ptr"

definition Cookie_default :: int where "Cookie_default = 0"

definition Cookie_secure :: int where "Cookie_secure = 1"

definition Cookie_http_only :: int where "Cookie_http_only = 2"

definition new_cad_cgi_cookie :: "value_ptr \<Rightarrow> bool \<Rightarrow> cstring \<Rightarrow> cookie_impl ptr" where
  "new_cad_cgi_cookie fresh malloc_ok name =
     (if \<not> malloc_ok then NULL
      else Some \<lparr>ck_changed = False, ck_name = name, ck_value = fresh, ck_expires = 0, ck_max_age = 0,
                 ck_flag = Cookie_default, ck_domain = NULL, ck_path = NULL\<rparr>)"

definition cookie_name :: "cookie_impl \<Rightarrow> cstring" where
  "cookie_name this = ck_name this"

definition cookie_value :: "cookie_impl \<Rightarrow> value_ptr" where
  "cookie_value this = ck_value this"

text \<open>\<open>free\<close> of an indeterminate pointer is undefined. The first result is the code's.\<close>

definition cookie_set_value :: "bool \<Rightarrow> cookie_impl \<Rightarrow> cstring \<Rightarrow> (int \<times> cookie_impl) option" where
  "cookie_set_value malloc_ok this v =
     (if ck_value this = Wild then None
      else if malloc_ok then Some (0, this\<lparr>ck_value := Owned v, ck_changed := True\<rparr>)
      else Some (-1, this\<lparr>ck_value := Null_Value\<rparr>))"

definition cookie_expires :: "cookie_impl \<Rightarrow> int" where
  "cookie_expires this = ck_expires this"

definition cookie_set_expires :: "cookie_impl \<Rightarrow> int \<Rightarrow> int \<times> cookie_impl" where
  "cookie_set_expires this e =
     (if ck_max_age this = 0 then (0, this\<lparr>ck_expires := e, ck_changed := True\<rparr>) else (-1, this))"

definition cookie_max_age :: "cookie_impl \<Rightarrow> int" where
  "cookie_max_age this = ck_max_age this"

definition cookie_set_max_age :: "cookie_impl \<Rightarrow> int \<Rightarrow> int \<times> cookie_impl" where
  "cookie_set_max_age this m =
     (if ck_expires this = 0 then (0, this\<lparr>ck_max_age := m, ck_changed := True\<rparr>) else (-1, this))"

definition cookie_domain :: "cookie_impl \<Rightarrow> cstring ptr" where
  "cookie_domain this = ck_domain this"

definition cookie_set_domain :: "bool \<Rightarrow> cookie_impl \<Rightarrow> cstring \<Rightarrow> int \<times> cookie_impl" where
  "cookie_set_domain malloc_ok this d =
     (if malloc_ok then (0, this\<lparr>ck_domain := Some d, ck_changed := True\<rparr>)
      else (-1, this\<lparr>ck_domain := NULL\<rparr>))"

definition cookie_path :: "cookie_impl \<Rightarrow> cstring ptr" where
  "cookie_path this = ck_path this"

definition cookie_set_path :: "bool \<Rightarrow> cookie_impl \<Rightarrow> cstring \<Rightarrow> int \<times> cookie_impl" where
  "cookie_set_path malloc_ok this p =
     (if malloc_ok then (0, this\<lparr>ck_path := Some p, ck_changed := True\<rparr>)
      else (-1, this\<lparr>ck_path := NULL\<rparr>))"

definition cookie_flag :: "cookie_impl \<Rightarrow> int" where
  "cookie_flag this = ck_flag this"

definition cookie_set_flag :: "cookie_impl \<Rightarrow> int \<Rightarrow> int \<times> cookie_impl" where
  "cookie_set_flag this f = (0, this\<lparr>ck_flag := f, ck_changed := True\<rparr>)"

section \<open>The store and the jar\<close>

record cookie_store =
  cm_cookies :: "nat \<Rightarrow> cookie_impl option"
  cm_next :: nat

definition store_new :: "cookie_store \<Rightarrow> cookie_impl \<Rightarrow> nat \<times> cookie_store" where
  "store_new m c = (cm_next m, m\<lparr>cm_cookies := (cm_cookies m)(cm_next m \<mapsto> c), cm_next := cm_next m + 1\<rparr>)"

text \<open>\<open>free_cookie\<close> also releases the value: an indeterminate one, or an address that is not allocated, is undefined.\<close>

definition free_cookie :: "cookie_store \<Rightarrow> nat \<Rightarrow> cookie_store option" where
  "free_cookie m addr = do {
     c \<leftarrow> cm_cookies m addr;
     if ck_value c = Wild then None else Some (m\<lparr>cm_cookies := (cm_cookies m)(addr := None)\<rparr>)
   }"

record cookies_impl =
  jar :: "(cstring, nat) cad_hash_impl"
  store :: cookie_store

definition cookies_get :: "cookies_impl \<Rightarrow> cstring \<Rightarrow> nat ptr option" where
  "cookies_get this name = hash_get (jar this) name"

definition cookies_set :: "cookies_impl \<Rightarrow> nat \<Rightarrow> (int \<times> cookies_impl) option" where
  "cookies_set this cookie = do {
     c \<leftarrow> cm_cookies (store this) cookie;
     (old, j) \<leftarrow> hash_set (jar this) (ck_name c) (Some cookie);
     m \<leftarrow> (case old of None \<Rightarrow> Some (store this) | Some addr \<Rightarrow> free_cookie (store this) addr);
     Some (0, this\<lparr>jar := j, store := m\<rparr>)
   }"

text \<open>The iterator of the client gets each cookie; what it does is a function on its data.\<close>

definition jar_iterate :: "(nat ptr \<Rightarrow> 'd \<Rightarrow> 'd) \<Rightarrow> (cstring, nat, 'd) hash_iterator" where
  "jar_iterate iterator i key cookie data = iterator cookie data"

definition cookies_iterate :: "cookies_impl \<Rightarrow> (nat ptr \<Rightarrow> 'd \<Rightarrow> 'd) \<Rightarrow> 'd \<Rightarrow> 'd option" where
  "cookies_iterate this iterator data = hash_iterate (jar this) (jar_iterate iterator) data"

definition clean_cookie :: "(cstring, nat, cookie_store option) hash_iterator" where
  "clean_cookie i key cookie data = do { m \<leftarrow> data; addr \<leftarrow> cookie; free_cookie m addr }"

definition free_cookies :: "cookies_impl \<Rightarrow> (cookie_store \<times> cstring multiset) option" where
  "free_cookies this = do {
     (m, j) \<leftarrow> hash_clean (jar this) clean_cookie (Some (store this));
     m' \<leftarrow> m;
     live \<leftarrow> hash_free j;
     Some (m', live)
   }"

section \<open>Parsing\<close>

text \<open>The bytes from \<open>start\<close> to \<open>end\<close>.\<close>

definition parse_cookie_name :: "cstring \<Rightarrow> nat \<Rightarrow> nat \<Rightarrow> cstring" where
  "parse_cookie_name s start finish = take (finish - start) (drop start s)"

definition hex :: "char \<Rightarrow> int" where
  "hex c =
     (if c \<in> set ''0123456789'' then char_int c - char_int CHR ''0''
      else if c \<in> set ''ABCDEF'' then char_int c + 10 - char_int CHR ''A''
      else if c \<in> set ''abcdef'' then char_int c + 10 - char_int CHR ''a''
      else 0)"

text \<open>First the number of bytes to allocate, then the decoding into them; writing one byte too many is undefined.\<close>

fun value_count :: "cstring \<Rightarrow> nat" where
  "value_count [] = 0"
| "value_count (c # cs) = Suc (value_count (if c = CHR ''%'' then drop 2 cs else cs))"

fun value_decode :: "nat \<Rightarrow> int \<Rightarrow> int \<Rightarrow> cstring \<Rightarrow> cstring \<Rightarrow> cstring option" where
  "value_decode n s d out [] = (if length out < n + 1 then Some out else None)"
| "value_decode n s d out (c # cs) =
     (if s = 0 then
        (if c = CHR ''%'' then value_decode n 1 d out cs
         else if length out < n + 1 then value_decode n 0 d (out @ [c]) cs else None)
      else if s = 1 then value_decode n 2 (hex c) out cs
      else
        (let d' = push_bit 4 d OR hex c in
         if length out < n + 1 then value_decode n 0 d' (out @ [int_char d']) cs else None))"

definition parse_cookie_value :: "cstring \<Rightarrow> nat \<Rightarrow> nat \<Rightarrow> cstring option" where
  "parse_cookie_value s start finish =
     (let bs = take (finish - start) (drop start s) in value_decode (value_count bs) 0 0 [] bs)"

text \<open>A cookie of the request is put into the jar; a cookie it replaces there is lost.\<close>

definition jar_add :: "cookies_impl \<Rightarrow> cookie_impl \<Rightarrow> cookies_impl option" where
  "jar_add this c = do {
     let (addr, m) = store_new (store this) c;
     (_, j) \<leftarrow> hash_set (jar this) (ck_name c) (Some addr);
     Some (this\<lparr>jar := j, store := m\<rparr>)
   }"

text \<open>\<open>at s i\<close> reads a byte of the string or its terminating NUL.\<close>

definition byte_at :: "cstring \<Rightarrow> nat \<Rightarrow> char option" where
  "byte_at s i = nth_opt (s @ [NUL]) i"

definition add_name_only :: "value_ptr \<Rightarrow> cstring \<Rightarrow> nat \<Rightarrow> nat \<Rightarrow> cookies_impl \<Rightarrow> cookies_impl option" where
  "add_name_only fresh s name i this = do {
     c \<leftarrow> new_cad_cgi_cookie fresh True (parse_cookie_name s name i);
     jar_add this (c\<lparr>ck_changed := False\<rparr>)
   }"

text \<open>\<open>set_value\<close> copies a C string: a decoded \<open>%00\<close> ends the value.\<close>

definition add_name_value :: "value_ptr \<Rightarrow> cstring \<Rightarrow> nat \<Rightarrow> nat \<Rightarrow> nat \<Rightarrow> cookies_impl \<Rightarrow> cookies_impl option" where
  "add_name_value fresh s name val i this = do {
     v \<leftarrow> parse_cookie_value s val i;
     c \<leftarrow> new_cad_cgi_cookie fresh True (parse_cookie_name s name (val - 1));
     (_, c') \<leftarrow> cookie_set_value True c (takeWhile (\<lambda>ch. ch \<noteq> NUL) v);
     jar_add this (c'\<lparr>ck_changed := False\<rparr>)
   }"

text \<open>One turn of the loop at the byte \<open>i\<close>: the new state, \<open>name\<close> and \<open>value\<close>.\<close>

definition cookies_step ::
  "value_ptr \<Rightarrow> cstring \<Rightarrow> nat \<Rightarrow> nat \<Rightarrow> nat \<Rightarrow> nat \<Rightarrow> cookies_impl
    \<Rightarrow> (nat \<times> nat \<times> nat \<times> cookies_impl) option" where
  "cookies_step fresh s state name val i this = do {
     c \<leftarrow> byte_at s i;
     if state = 1 then
       (if c = CHR ''='' then Some (2, name, i + 1, this)
        else if c = NUL \<or> c = CHR '';'' then do {
          this' \<leftarrow> add_name_only fresh s name i this;
          Some (if c \<noteq> NUL then 3 else 0, name, val, this')
        } else Some (state, name, val, this))
     else if state = 2 then
       (if c = NUL \<or> c = CHR '';'' then do {
          this' \<leftarrow> add_name_value fresh s name val i this;
          Some (if c \<noteq> NUL then 3 else 0, name, val, this')
        } else Some (state, name, val, this))
     else
       (if c = CHR '' '' then Some (state, name, val, this)
        else Some (if c \<noteq> NUL then 1 else 0, i, 0, this))
   }"

lemma cookies_step_in_bounds:
  "cookies_step fresh s state name val i this = Some (state', name', val', this') \<Longrightarrow> state \<noteq> 0 \<Longrightarrow>
   i \<le> length s \<and> (state' \<noteq> 0 \<longrightarrow> state' \<in> {1, 2, 3, state})"
  by (auto simp: cookies_step_def byte_at_def split: bind_splits if_splits)

function parse_cookies_loop ::
  "value_ptr \<Rightarrow> cstring \<Rightarrow> nat \<Rightarrow> nat \<Rightarrow> nat \<Rightarrow> nat \<Rightarrow> cookies_impl \<Rightarrow> cookies_impl option" where
  "parse_cookies_loop fresh s state name val i this =
     (if state = 0 then Some this
      else do {
        (state', name', val', this') \<leftarrow> cookies_step fresh s state name val i this;
        parse_cookies_loop fresh s state' name' val' (if state' \<noteq> 0 then i + 1 else i) this'
      })"
  by pat_completeness auto

termination
  by (relation "measure (\<lambda>(fresh, s, state, name, val, i, this). if state = 0 then 0 else Suc (Suc (length s) - i))")
    (auto dest!: cookies_step_in_bounds)

declare parse_cookies_loop.simps [simp del]

definition parse_cookies :: "value_ptr \<Rightarrow> cstring \<Rightarrow> cookies_impl \<Rightarrow> cookies_impl option" where
  "parse_cookies fresh http_cookie this =
     parse_cookies_loop fresh http_cookie (if http_cookie \<noteq> [] then 1 else 0) 0 0 0 this"

definition new_cookies ::
  "value_ptr \<Rightarrow> ('w \<Rightarrow> int \<times> 'w) \<Rightarrow> 'w \<Rightarrow> (cstring \<Rightarrow> cstring option) \<Rightarrow> cookie_store
    \<Rightarrow> (cookies_impl \<times> 'w) option" where
  "new_cookies fresh hash_salt w env m =
     (case cad_new_hash True hash_salt w cad_hash_strings of
        (None, _) \<Rightarrow> None
      | (Some j, w') \<Rightarrow> do {
          this \<leftarrow> (case env ''HTTP_COOKIE'' of
             None \<Rightarrow> Some \<lparr>jar = j, store = m\<rparr>
           | Some s \<Rightarrow> parse_cookies fresh s \<lparr>jar = j, store = m\<rparr>);
          Some (this, w')
        })"

section \<open>Dates\<close>

definition DAY_NAMES :: "cstring list" where
  "DAY_NAMES = [''Sun'', ''Mon'', ''Tue'', ''Wed'', ''Thu'', ''Fri'', ''Sat'']"

definition MONTH_NAMES :: "cstring list" where
  "MONTH_NAMES = [''Jan'', ''Feb'', ''Mar'', ''Apr'', ''May'', ''Jun'',
                  ''Jul'', ''Aug'', ''Sep'', ''Oct'', ''Nov'', ''Dec'']"

text \<open>\<open>gmtime_r\<close> for the times from 1970 on that \<open>flush_cookie\<close> prints: days since the epoch to year, month and
  day of the proleptic Gregorian calendar, counted in years that start in March.\<close>

record tm =
  tm_year :: int
  tm_mon :: nat
  tm_mday :: int
  tm_hour :: int
  tm_min :: int
  tm_sec :: int
  tm_wday :: nat

definition gmtime :: "int \<Rightarrow> tm" where
  "gmtime t =
     (let days = t div 86400; secs = t mod 86400;
          z = days + 719468;
          era = z div 146097;
          doe = z mod 146097;
          yoe = (doe - doe div 1460 + doe div 36524 - doe div 146096) div 365;
          doy = doe - (365 * yoe + yoe div 4 - yoe div 100);
          mp = (5 * doy + 2) div 153;
          mon = (if mp < 10 then mp + 2 else mp - 10)
      in \<lparr>tm_year = yoe + era * 400 + (if mon \<le> 1 then 1 else 0),
          tm_mon = nat mon,
          tm_mday = doy - (153 * mp + 2) div 5 + 1,
          tm_hour = secs div 3600, tm_min = secs mod 3600 div 60, tm_sec = secs mod 60,
          tm_wday = nat ((days + 4) mod 7)\<rparr>)"

text \<open>\<open>%d\<close>, \<open>%H\<close>, \<open>%M\<close> and \<open>%S\<close> of \<open>strftime\<close> print two digits.\<close>

definition two_digits :: "int \<Rightarrow> cstring" where
  "two_digits i = [digit_char (nat (i div 10)), digit_char (nat (i mod 10))]"

text \<open>The buffer has 30 bytes: \<open>strftime\<close> leaves it indeterminate when the text does not fit.\<close>

definition rfc1123 :: "int \<Rightarrow> nat \<Rightarrow> cstring option" where
  "rfc1123 t buflen =
     (let tm = gmtime t;
          text = ''---, '' @ two_digits (tm_mday tm) @ '' --- '' @ format_int (tm_year tm) @ '' '' @
            two_digits (tm_hour tm) @ '':'' @ two_digits (tm_min tm) @ '':'' @ two_digits (tm_sec tm) @ '' GMT''
      in if length text < buflen
         then Some (DAY_NAMES ! tm_wday tm @ take 5 (drop 3 text) @ MONTH_NAMES ! tm_mon tm @ drop 11 text)
         else None)"

section \<open>Printing\<close>

fun encode_count :: "cstring \<Rightarrow> nat" where
  "encode_count [] = 1"
| "encode_count (c # cs) = (if c \<in> {CHR ''%'', CHR ''='', CHR '';''} then 3 else 1) + encode_count cs"

text \<open>Writing the encoded bytes, then the NUL, into a buffer of the given size.\<close>

fun encode_bytes :: "nat \<Rightarrow> cstring \<Rightarrow> cstring \<Rightarrow> cstring option" where
  "encode_bytes bufsize out [] = (if length out < bufsize then Some out else None)"
| "encode_bytes bufsize out (c # cs) =
     (let bs = (if c = CHR ''%'' then ''%25'' else if c = CHR ''='' then ''%3d''
                else if c = CHR '';'' then ''%3b'' else [c])
      in if length out + length bs \<le> bufsize then encode_bytes bufsize (out @ bs) cs else None)"

definition encode_value :: "cstring \<Rightarrow> cstring option" where
  "encode_value v = encode_bytes (encode_count v) [] v"

text \<open>The puts of a cookie, in order; a text that cannot be computed (the value is read when it is \<open>NULL\<close>) is undefined.\<close>

definition cookie_texts :: "cookie_impl \<Rightarrow> cstring list option" where
  "cookie_texts c = do {
     v \<leftarrow> (case ck_value c of Owned v \<Rightarrow> Some v | _ \<Rightarrow> None);
     encoded \<leftarrow> encode_value v;
     expires \<leftarrow> (if 0 < ck_expires c then map_option (\<lambda>d. [''; Expires='' @ d]) (rfc1123 (ck_expires c) 30) else Some []);
     Some ([''Set-Cookie: '' @ ck_name c @ ''='' @ encoded] @ expires @
       (if 0 < ck_max_age c then [''; Max-Age='' @ format_int (ck_max_age c)] else []) @
       (case ck_domain c of None \<Rightarrow> [] | Some d \<Rightarrow> [''; Domain='' @ d]) @
       (case ck_path c of None \<Rightarrow> [] | Some p \<Rightarrow> [''; Path='' @ p]) @
       (if ck_flag c AND Cookie_secure \<noteq> 0 then [''; Secure''] else []) @
       (if ck_flag c AND Cookie_http_only \<noteq> 0 then [''; HttpOnly''] else []) @
       [[CHR 0x0D, CHR 0x0A]])
   }"

definition flush_cookie ::
  "'o cad_output_stream \<Rightarrow> (cstring, nat, (cookie_store \<times> 'o) option) hash_iterator" where
  "flush_cookie ops i key cookie data = do {
     (m, out) \<leftarrow> data;
     addr \<leftarrow> cookie;
     c \<leftarrow> cm_cookies m addr;
     out' \<leftarrow> (if ck_changed c then do { ts \<leftarrow> cookie_texts c; put_all ops out ts } else Some out);
     Some (m\<lparr>cm_cookies := (cm_cookies m)(addr \<mapsto> c\<lparr>ck_changed := False\<rparr>)\<rparr>, out')
   }"

definition flush_cookies :: "'o cad_output_stream \<Rightarrow> cookies_impl \<Rightarrow> 'o \<Rightarrow> (cookies_impl \<times> 'o) option" where
  "flush_cookies ops this out = do {
     r \<leftarrow> hash_iterate (jar this) (flush_cookie ops) (Some (store this, out));
     (m, out') \<leftarrow> r;
     Some (this\<lparr>store := m\<rparr>, out')
   }"

section \<open>The interfaces\<close>

text \<open>\<open>struct cad_cgi_cookie\<close> and \<open>struct cad_cgi_cookies\<close>, in the order of their slots. A cookie is released at its
  address; the allocations of the setters succeed.\<close>

record cad_cgi_cookie =
  cookie_free_slot :: "cookie_store \<Rightarrow> nat \<Rightarrow> cookie_store option"
  cookie_name_slot :: "cookie_impl \<Rightarrow> cstring"
  cookie_value_slot :: "cookie_impl \<Rightarrow> value_ptr"
  cookie_set_value_slot :: "cookie_impl \<Rightarrow> cstring \<Rightarrow> (int \<times> cookie_impl) option"
  cookie_expires_slot :: "cookie_impl \<Rightarrow> int"
  cookie_set_expires_slot :: "cookie_impl \<Rightarrow> int \<Rightarrow> int \<times> cookie_impl"
  cookie_max_age_slot :: "cookie_impl \<Rightarrow> int"
  cookie_set_max_age_slot :: "cookie_impl \<Rightarrow> int \<Rightarrow> int \<times> cookie_impl"
  cookie_domain_slot :: "cookie_impl \<Rightarrow> cstring ptr"
  cookie_set_domain_slot :: "cookie_impl \<Rightarrow> cstring \<Rightarrow> int \<times> cookie_impl"
  cookie_path_slot :: "cookie_impl \<Rightarrow> cstring ptr"
  cookie_set_path_slot :: "cookie_impl \<Rightarrow> cstring \<Rightarrow> int \<times> cookie_impl"
  cookie_flag_slot :: "cookie_impl \<Rightarrow> int"
  cookie_set_flag_slot :: "cookie_impl \<Rightarrow> int \<Rightarrow> int \<times> cookie_impl"

definition cookie_fn :: cad_cgi_cookie where
  "cookie_fn =
     \<lparr>cookie_free_slot = free_cookie,
      cookie_name_slot = cookie_name,
      cookie_value_slot = cookie_value,
      cookie_set_value_slot = cookie_set_value True,
      cookie_expires_slot = cookie_expires,
      cookie_set_expires_slot = cookie_set_expires,
      cookie_max_age_slot = cookie_max_age,
      cookie_set_max_age_slot = cookie_set_max_age,
      cookie_domain_slot = cookie_domain,
      cookie_set_domain_slot = cookie_set_domain True,
      cookie_path_slot = cookie_path,
      cookie_set_path_slot = cookie_set_path True,
      cookie_flag_slot = cookie_flag,
      cookie_set_flag_slot = cookie_set_flag\<rparr>"

record 'd cad_cgi_cookies =
  cookies_get_slot :: "cookies_impl \<Rightarrow> cstring \<Rightarrow> nat ptr option"
  cookies_set_slot :: "cookies_impl \<Rightarrow> nat \<Rightarrow> (int \<times> cookies_impl) option"
  cookies_iterate_slot :: "cookies_impl \<Rightarrow> (nat ptr \<Rightarrow> 'd \<Rightarrow> 'd) \<Rightarrow> 'd \<Rightarrow> 'd option"

definition cookies_fn :: "'d cad_cgi_cookies" where
  "cookies_fn =
     \<lparr>cookies_get_slot = cookies_get,
      cookies_set_slot = cookies_set,
      cookies_iterate_slot = cookies_iterate\<rparr>"

end
