(* ===== verification/Cad_Cookies_Laws.thy ===== *)
theory Cad_Cookies_Laws
  imports Cad_Cookies
begin

text \<open>
  Facts on cookies: the encoding of values and its inverse, the parser of the request's cookies on
  a jar printed pair by pair, and the effect of flushing the jar.
\<close>

section \<open>Values\<close>

text \<open>How many bytes the decoder can still write, in each of its states.\<close>

definition decode_cost :: "int \<Rightarrow> cstring \<Rightarrow> nat" where
  "decode_cost s cs =
     (if s = 0 then value_count cs
      else if s = 1 then (if 2 \<le> length cs then Suc (value_count (drop 2 cs)) else 0)
      else (case cs of [] \<Rightarrow> 0 | _ # cs' \<Rightarrow> Suc (value_count cs')))"

lemma value_decode_safe:
  "length out + decode_cost s cs \<le> n \<Longrightarrow> \<exists>r. value_decode n s d out cs = Some r"
proof (induction cs arbitrary: s d out)
  case (Cons c cs)
  consider (plain) "s = 0" "c \<noteq> CHR ''%''" | (esc) "s = 0" "c = CHR ''%''" | (h1) "s = 1"
    | (h2) "s \<noteq> 0" "s \<noteq> 1" by blast
  then show ?case
  proof cases
    case plain
    then show ?thesis using Cons.IH [of "out @ [c]" 0] Cons.prems by (simp add: decode_cost_def)
  next
    case esc
    then show ?thesis using Cons.IH [of out 1] Cons.prems by (auto simp: decode_cost_def split: if_splits)
  next
    case h1
    then show ?thesis
      using Cons.IH [of out 2] Cons.prems by (cases cs) (auto simp: decode_cost_def)
  next
    case h2
    then show ?thesis
      using Cons.IH [of "out @ [int_char (push_bit 4 d OR hex c)]" 0] Cons.prems
      by (simp add: decode_cost_def Let_def)
  qed
qed simp

definition escape_value :: "char \<Rightarrow> cstring" where
  "escape_value c = (if c = CHR ''%'' then ''%25'' else if c = CHR ''='' then ''%3d''
                     else if c = CHR '';'' then ''%3b'' else [c])"

lemma encode_bytes_total:
  "length out + encode_count v \<le> n \<Longrightarrow> encode_bytes n out v = Some (out @ concat (map escape_value v))"
  by (induction v arbitrary: out) (auto simp: escape_value_def split: if_splits)

lemma encode_value_total: "encode_value v = Some (concat (map escape_value v))"
  by (simp add: encode_value_def encode_bytes_total)

lemma value_decode_escaped:
  "length out + length v \<le> n \<Longrightarrow> \<exists>d'. value_decode n 0 d out (concat (map escape_value v) @ later) =
     value_decode n 0 d' (out @ v) later"
proof (induction v arbitrary: out d)
  case Nil
  then show ?case by auto
next
  case (Cons c v)
  have "\<exists>d'. value_decode n 0 d out (escape_value c @ concat (map escape_value v) @ later) =
      value_decode n 0 d' (out @ [c]) (concat (map escape_value v) @ later)"
    using Cons.prems
    by (auto simp: escape_value_def Let_def hex_def char_int_def int_char_def char_of_def)
  then show ?case
    using Cons.IH [of "out @ [c]"] Cons.prems by fastforce
qed

lemma value_count_escaped: "value_count (concat (map escape_value v)) = length v"
  by (induction v) (auto simp: escape_value_def)

lemma parse_cookie_value_encoded:
  assumes "take (finish - start) (drop start s) = concat (map escape_value v)"
  shows "parse_cookie_value s start finish = Some v"
  using value_decode_escaped [of "[]" v "length v" 0 "[]"] assms
  by (auto simp: parse_cookie_value_def value_count_escaped)

lemma escaped_plain:
  "CHR '';'' \<notin> set (concat (map escape_value v))" "CHR ''='' \<notin> set (concat (map escape_value v))"
  "NUL \<notin> set v \<Longrightarrow> NUL \<notin> set (concat (map escape_value v))"
  by (auto simp: escape_value_def split: if_splits)

section \<open>The jar\<close>

definition plain_cookie :: "cstring \<Rightarrow> cstring \<Rightarrow> cookie_impl" where
  "plain_cookie n v =
     \<lparr>ck_changed = False, ck_name = n, ck_value = Owned v, ck_expires = 0, ck_max_age = 0,
      ck_flag = Cookie_default, ck_domain = NULL, ck_path = NULL\<rparr>"

text \<open>The store has no cookie at an address that is still to be taken.\<close>

definition store_ok :: "cookie_store \<Rightarrow> bool" where
  "store_ok m \<longleftrightarrow> (\<forall>a \<ge> cm_next m. cm_cookies m a = None)"

text \<open>The jar took its cookies after the store was \<open>m0\<close>, and every other cookie is as it was then: none is lost.\<close>

definition jar_frame :: "cookie_store \<Rightarrow> cookies_impl \<Rightarrow> bool" where
  "jar_frame m0 this \<longleftrightarrow>
     cm_next m0 \<le> cm_next (store this) \<and>
     (\<forall>k addr. hash_abs (jar this) k = Some (Some addr) \<longrightarrow> cm_next m0 \<le> addr) \<and>
     (\<forall>a. cm_cookies (store this) a = cm_cookies m0 a \<or> (\<exists>k. hash_abs (jar this) k = Some (Some a)))"

text \<open>The jar holds the last value given to each name of a list of pairs, and nothing else. A name that comes
  twice loses a cookie.\<close>

definition jar_holds :: "cookie_store \<Rightarrow> cookies_impl \<Rightarrow> (cstring \<times> cstring) list \<Rightarrow> bool" where
  "jar_holds m0 this ps \<longleftrightarrow>
     (distinct (map fst ps) \<longrightarrow> jar_frame m0 this) \<and>
     table_inv cad_hash_strings (jar this) \<and> table_weight (jar this) \<le> 4 + 3 * length ps \<and>
     (\<forall>k addr. hash_abs (jar this) k = Some (Some addr) \<longrightarrow> addr < cm_next (store this)) \<and>
     (\<forall>k. case map_of (rev ps) k of
            None \<Rightarrow> hash_abs (jar this) k = None
          | Some v \<Rightarrow> \<exists>addr. hash_abs (jar this) k = Some (Some addr) \<and>
                        cm_cookies (store this) addr = Some (plain_cookie k v))"

lemma jar_holds_add:
  assumes h: "jar_holds m0 this ps" and len: "3 * length ps + 4 \<le> 2 ^ 29"
  obtains this' where "jar_add this (plain_cookie n v) = Some this'" "jar_holds m0 this' (ps @ [(n, v)])"
proof -
  let ?addr = "cm_next (store this)"
  let ?m = "\<lparr>cm_cookies = (cm_cookies (store this))(?addr \<mapsto> plain_cookie n v), cm_next = ?addr + 1\<rparr>"
  have t: "table_inv cad_hash_strings (jar this)" "table_weight (jar this) \<le> 2 ^ 29"
    using h len by (simp_all add: jar_holds_def)
  obtain j where j: "hash_set (jar this) n (Some ?addr) = Some (or_null (hash_abs (jar this) n), j)"
      "table_inv cad_hash_strings j" "table_weight j \<le> table_weight (jar this) + 3"
      "hash_abs j = (\<lambda>k. if k = n then Some (Some ?addr) else hash_abs (jar this) k)"
    using string_table.set_law [OF t, of n "Some ?addr"] by auto
  have "jar_add this (plain_cookie n v) = Some (this\<lparr>jar := j, store := ?m\<rparr>)"
    using j(1) by (simp add: jar_add_def store_new_def plain_cookie_def)
  moreover have "jar_holds m0 (this\<lparr>jar := j, store := ?m\<rparr>) (ps @ [(n, v)])"
  proof -
    have old: "\<exists>addr. hash_abs (jar this) k = Some (Some addr) \<and> addr \<noteq> ?addr \<and>
        cm_cookies (store this) addr = Some (plain_cookie k u)" if mk: "map_of (rev ps) k = Some u" for k u
    proof -
      have "case map_of (rev ps) k of
              None \<Rightarrow> hash_abs (jar this) k = None
            | Some v \<Rightarrow> \<exists>addr. hash_abs (jar this) k = Some (Some addr) \<and>
                          cm_cookies (store this) addr = Some (plain_cookie k v)"
        using h unfolding jar_holds_def by blast
      then obtain addr where "hash_abs (jar this) k = Some (Some addr)"
          "cm_cookies (store this) addr = Some (plain_cookie k u)"
        using mk by auto
      moreover have "addr < ?addr" using h calculation(1) unfolding jar_holds_def by blast
      ultimately show ?thesis by blast
    qed
    have none: "hash_abs (jar this) k = None" if "map_of (rev ps) k = None" for k
      using h that unfolding jar_holds_def by (metis (mono_tags, lifting) option.simps(4))
    have lt: "\<forall>k addr. hash_abs (jar this) k = Some (Some addr) \<longrightarrow> addr < ?addr"
      using h by (simp add: jar_holds_def)
    then have "\<forall>k addr. hash_abs j k = Some (Some addr) \<longrightarrow> addr < ?addr + 1"
      unfolding j(4) by (auto intro: less_SucI)
    moreover have "case map_of (rev (ps @ [(n, v)])) k of
            None \<Rightarrow> hash_abs j k = None
          | Some u \<Rightarrow> \<exists>addr. hash_abs j k = Some (Some addr) \<and>
                        cm_cookies ?m addr = Some (plain_cookie k u)" for k
      using old [of k] none [of k] by (auto simp: j(4) split: option.splits)
    moreover have "table_weight j \<le> 4 + 3 * length (ps @ [(n, v)])"
      using j(3) h by (simp add: jar_holds_def)
    moreover have "jar_frame m0 (this\<lparr>jar := j, store := ?m\<rparr>)" if d: "distinct (map fst (ps @ [(n, v)]))"
    proof -
      have f: "jar_frame m0 this" using h d by (simp add: jar_holds_def)
      have "map_of (rev ps) n = None" using d by (auto simp: map_of_eq_None_iff)
      then have none': "hash_abs (jar this) n = None" by (rule none)
      note F = f [unfolded jar_frame_def]
      have "cm_cookies ?m a = cm_cookies m0 a \<or> (\<exists>k. hash_abs j k = Some (Some a))" for a
      proof (cases "a = ?addr")
        case True
        then show ?thesis by (auto simp: j(4) intro!: exI [of _ n])
      next
        case False
        then have "cm_cookies ?m a = cm_cookies (store this) a" by simp
        moreover have "hash_abs j k = hash_abs (jar this) k" if "hash_abs (jar this) k = Some (Some a)" for k
          using that none' by (auto simp: j(4))
        ultimately show ?thesis using F by metis
      qed
      then show ?thesis using F by (simp add: jar_frame_def j(4))
    qed
    moreover have sel: "jar (this\<lparr>jar := j, store := ?m\<rparr>) = j" "store (this\<lparr>jar := j, store := ?m\<rparr>) = ?m"
        "cm_next ?m = ?addr + 1" by simp_all
    ultimately show ?thesis
      using j(2) unfolding jar_holds_def sel by blast
  qed
  ultimately show ?thesis using that by blast
qed

section \<open>Parsing a printed jar\<close>

lemma byte_at_append: "byte_at (pre @ c # post) (length pre) = Some c" "byte_at s (length s) = Some NUL"
  by (simp_all add: byte_at_def nth_append)

lemma loop_turn:
  assumes "state \<noteq> 0" "cookies_step fresh s state name val i this = Some (state', name', val', this')"
  shows "parse_cookies_loop fresh s state name val i this =
    parse_cookies_loop fresh s state' name' val' (if state' \<noteq> 0 then i + 1 else i) this'"
  using assms by (subst parse_cookies_loop.simps) simp

lemma loop_name:
  assumes "CHR ''='' \<notin> set w" "CHR '';'' \<notin> set w" "NUL \<notin> set w"
  shows "parse_cookies_loop fresh (pre @ w @ post) 1 name val (length pre) this =
    parse_cookies_loop fresh (pre @ w @ post) 1 name val (length pre + length w) this"
  using assms
proof (induction w arbitrary: pre)
  case (Cons c w)
  have "cookies_step fresh (pre @ c # w @ post) 1 name val (length pre) this = Some (1, name, val, this)"
    using Cons.prems by (auto simp: cookies_step_def byte_at_append)
  then show ?case
    using Cons.IH [of "pre @ [c]"] Cons.prems by (simp add: loop_turn)
qed simp

lemma loop_value:
  assumes "CHR '';'' \<notin> set w" "NUL \<notin> set w"
  shows "parse_cookies_loop fresh (pre @ w @ post) 2 name val (length pre) this =
    parse_cookies_loop fresh (pre @ w @ post) 2 name val (length pre + length w) this"
  using assms
proof (induction w arbitrary: pre)
  case (Cons c w)
  have "cookies_step fresh (pre @ c # w @ post) 2 name val (length pre) this = Some (2, name, val, this)"
    using Cons.prems by (auto simp: cookies_step_def byte_at_append)
  then show ?case
    using Cons.IH [of "pre @ [c]"] Cons.prems by (simp add: loop_turn)
qed simp

lemma add_name_value_plain:
  assumes "fresh \<noteq> Wild" "s = pre @ n @ CHR ''='' # concat (map escape_value v) @ post" "NUL \<notin> set v"
  shows "add_name_value fresh s (length pre) (length pre + length n + 1)
      (length pre + length n + 1 + length (concat (map escape_value v))) this = jar_add this (plain_cookie n v)"
proof -
  have "parse_cookie_value s (length pre + length n + 1)
      (length pre + length n + 1 + length (concat (map escape_value v))) = Some v"
    using assms(2) by (intro parse_cookie_value_encoded) simp
  moreover have "parse_cookie_name s (length pre) (length pre + length n) = n"
    using assms(2) by (simp add: parse_cookie_name_def)
  moreover have "takeWhile (\<lambda>ch. ch \<noteq> NUL) v = v"
    using assms(3) by (auto simp: takeWhile_eq_all_conv)
  ultimately show ?thesis
    using assms(1)
    by (simp del: takeWhile_eq_all_conv add: add_name_value_def new_cad_cgi_cookie_def cookie_set_value_def plain_cookie_def)
qed

text \<open>One pair: from inside its name to the \<open>';'\<close> or the end after its value.\<close>

lemma loop_pair:
  assumes "fresh \<noteq> Wild" and s: "s = pre @ n @ CHR ''='' # concat (map escape_value v) @ post"
    and n: "n = n1 @ n2" "CHR ''='' \<notin> set n2" "CHR '';'' \<notin> set n2" "NUL \<notin> set n2"
    and v: "NUL \<notin> set v" and post: "post = [] \<or> (\<exists>later. post = CHR '';'' # later)"
    and add: "jar_add this (plain_cookie n v) = Some this'"
  shows "parse_cookies_loop fresh s 1 (length pre) val (length pre + length n1) this =
    (if post = [] then Some this'
     else parse_cookies_loop fresh s 3 (length pre) (length pre + length n + 1)
            (length s - length post + 1) this')"
proof -
  let ?e = "concat (map escape_value v)"
  let ?val = "length pre + length n + 1"
  have "parse_cookies_loop fresh s 1 (length pre) val (length pre + length n1) this =
      parse_cookies_loop fresh s 1 (length pre) val (length pre + length n) this"
    using loop_name [OF n(2-4), of fresh "pre @ n1" "CHR ''='' # ?e @ post"] s n(1)
    by (simp add: add.assoc)
  also have "cookies_step fresh s 1 (length pre) val (length pre + length n) this = Some (2, length pre, ?val, this)"
    using byte_at_append(1) [of "pre @ n" "CHR ''=''" "?e @ post"] s by (simp add: cookies_step_def)
  then have "parse_cookies_loop fresh s 1 (length pre) val (length pre + length n) this =
      parse_cookies_loop fresh s 2 (length pre) ?val ?val this"
    by (simp add: loop_turn)
  also have "\<dots> = parse_cookies_loop fresh s 2 (length pre) ?val (?val + length ?e) this"
    using loop_value [OF escaped_plain(1) escaped_plain(3) [OF v], of fresh "pre @ n @ ''=''" post] s by simp
  finally have 1: "parse_cookies_loop fresh s 1 (length pre) val (length pre + length n1) this =
      parse_cookies_loop fresh s 2 (length pre) ?val (?val + length ?e) this" .
  have a: "add_name_value fresh s (length pre) ?val (?val + length ?e) this = Some this'"
    using add_name_value_plain [OF assms(1) s v] add by simp
  show ?thesis
  proof (cases "post = []")
    case True
    then have "byte_at s (?val + length ?e) = Some NUL"
      using s byte_at_append(2) [of s] by (simp add: add.assoc)
    then have "cookies_step fresh s 2 (length pre) ?val (?val + length ?e) this = Some (0, length pre, ?val, this')"
      using a by (simp add: cookies_step_def)
    then show ?thesis using 1 True by (simp add: loop_turn parse_cookies_loop.simps [of _ _ 0])
  next
    case False
    then obtain later where p: "post = CHR '';'' # later" using post by blast
    then have "byte_at s (?val + length ?e) = Some CHR '';''"
      using s byte_at_append(1) [of "pre @ n @ CHR ''='' # ?e" "CHR '';''" later] by (simp add: add.assoc)
    then have "cookies_step fresh s 2 (length pre) ?val (?val + length ?e) this = Some (3, length pre, ?val, this')"
      using a by (simp add: cookies_step_def)
    moreover have "length s - length post = ?val + length ?e" using s by simp
    ultimately show ?thesis using 1 False by (simp add: loop_turn)
  qed
qed

text \<open>The header that a client sends for a list of cookies.\<close>

fun cookie_header :: "(cstring \<times> cstring) list \<Rightarrow> cstring" where
  "cookie_header [] = []"
| "cookie_header [(n, v)] = n @ ''='' @ concat (map escape_value v)"
| "cookie_header ((n, v) # p # ps) = n @ ''='' @ concat (map escape_value v) @ ''; '' @ cookie_header (p # ps)"

definition valid_pair :: "cstring \<times> cstring \<Rightarrow> bool" where
  "valid_pair = (\<lambda>(n, v). n \<noteq> [] \<and> hd n \<noteq> CHR '' '' \<and> CHR ''='' \<notin> set n \<and> CHR '';'' \<notin> set n \<and>
     valid_cstring n \<and> valid_cstring v)"

text \<open>\<open>seen\<close> are the pairs parsed so far; the first character of the next name has been read or not.\<close>

lemma loop_header:
  assumes "fresh \<noteq> Wild" "\<forall>p \<in> set ps. valid_pair p" "ps \<noteq> []" "jar_holds m0 this seen"
    "3 * (length seen + length ps) + 4 \<le> 2 ^ 29" "k \<le> 1"
  shows "\<exists>this'. parse_cookies_loop fresh (pre @ cookie_header ps) 1 (length pre) val (length pre + k) this = Some this' \<and>
    jar_holds m0 this' (seen @ ps)"
  using assms
proof (induction ps arbitrary: pre this seen val k rule: cookie_header.induct)
  case 1
  then show ?case by simp
next
  case (2 n v)
  then have n: "n = take k n @ drop k n" "length (take k n) = k" "valid_pair (n, v)"
    by (auto simp: valid_pair_def neq_Nil_conv min_def)
  obtain this' where a: "jar_add this (plain_cookie n v) = Some this'" "jar_holds m0 this' (seen @ [(n, v)])"
    using jar_holds_add [OF "2.prems"(4), of n v] "2.prems"(5) by auto
  have "parse_cookies_loop fresh (pre @ cookie_header [(n, v)]) 1 (length pre) val (length pre + length (take k n)) this =
      Some this'"
    using loop_pair [OF "2.prems"(1) _ n(1), of _ pre v "[]" this this' val] n(3) a(1)
    by (auto simp: valid_pair_def valid_cstring_def dest: in_set_dropD)
  then show ?case using a(2) n(2) by auto
next
  case (3 n v p ps)
  then have n: "n = take k n @ drop k n" "length (take k n) = k" "valid_pair (n, v)" "valid_pair p"
    by (auto simp: valid_pair_def neq_Nil_conv min_def)
  obtain this1 where a: "jar_add this (plain_cookie n v) = Some this1" "jar_holds m0 this1 (seen @ [(n, v)])"
    using jar_holds_add [OF "3.prems"(4), of n v] "3.prems"(5) by auto
  let ?s = "pre @ cookie_header ((n, v) # p # ps)"
  let ?later = "CHR '' '' # cookie_header (p # ps)"
  let ?pre = "pre @ n @ CHR ''='' # concat (map escape_value v) @ [CHR '';'']"
  have 1: "parse_cookies_loop fresh ?s 1 (length pre) val (length pre + k) this =
      parse_cookies_loop fresh ?s 3 (length pre) (length pre + length n + 1) (length ?pre) this1"
    using loop_pair [OF "3.prems"(1) _ n(1), of ?s pre v "CHR '';'' # ?later" this this1 val] n(2,3) a(1)
    by (auto simp: valid_pair_def valid_cstring_def dest: in_set_dropD)
  have s: "?s = ?pre @ ?later" by simp
  have "cookies_step fresh ?s 3 (length pre) (length pre + length n + 1) (length ?pre) this1 =
      Some (3, length pre, length pre + length n + 1, this1)"
    unfolding s cookies_step_def using byte_at_append(1) [of ?pre] by simp
  then have 2: "parse_cookies_loop fresh ?s 3 (length pre) (length pre + length n + 1) (length ?pre) this1 =
      parse_cookies_loop fresh ?s 3 (length pre) (length pre + length n + 1) (length ?pre + 1) this1"
    by (simp add: loop_turn)
  let ?pre' = "?pre @ [CHR '' '']"
  obtain c cs where c: "cookie_header (p # ps) = c # cs" "c \<noteq> CHR '' ''" "c \<noteq> NUL"
    using n(4) by (cases p; cases ps; cases "fst p") (auto simp: valid_pair_def)
  have s': "?s = ?pre' @ c # cs" using c(1) by simp
  have "cookies_step fresh ?s 3 (length pre) (length pre + length n + 1) (length ?pre') this1 =
      Some (1, length ?pre', 0, this1)"
    unfolding s' cookies_step_def using byte_at_append(1) [of ?pre' c cs] c(2,3) by simp
  then have 3: "parse_cookies_loop fresh ?s 3 (length pre) (length pre + length n + 1) (length ?pre + 1) this1 =
      parse_cookies_loop fresh ?s 1 (length ?pre') 0 (length ?pre' + 1) this1"
    by (simp add: loop_turn)
  have "\<exists>this'. parse_cookies_loop fresh (?pre' @ cookie_header (p # ps)) 1 (length ?pre') 0 (length ?pre' + 1) this1 = Some this' \<and>
      jar_holds m0 this' ((seen @ [(n, v)]) @ p # ps)"
    using "3.prems" a(2) by (intro "3.IH") auto
  then show ?case using 1 2 3 by simp
qed

section \<open>Flushing the jar\<close>

text \<open>The values of a table, in the order in which it is iterated.\<close>

definition table_values :: "('k, 'v) cad_hash_impl \<Rightarrow> 'v ptr list" where
  "table_values t = map he_value (filter (\<lambda>e. ekey e \<noteq> None) (hi_entries t))"

lemma fold_entries_values:
  assumes "\<And>i k v d. iterator i k v d = f v d"
  shows "fold_entries iterator idx es d = fold f (map he_value (filter (\<lambda>e. ekey e \<noteq> None) es)) d"
proof (induction es arbitrary: idx d)
  case (Cons e es)
  then show ?case using assms by (cases "ekey e") simp_all
qed simp

text \<open>The \<open>Set-Cookie\<close> line of a cookie as RFC 6265 writes it, built from the data of the cookie alone: the value in
  percent encoding, the date with the names of the day and the month, and the attributes that are set.\<close>

definition http_date :: "int \<Rightarrow> cstring" where
  "http_date e =
     (let t = gmtime e in
      [''Sun'', ''Mon'', ''Tue'', ''Wed'', ''Thu'', ''Fri'', ''Sat''] ! tm_wday t @ '', '' @ two_digits (tm_mday t) @ '' '' @
      [''Jan'', ''Feb'', ''Mar'', ''Apr'', ''May'', ''Jun'', ''Jul'', ''Aug'', ''Sep'', ''Oct'', ''Nov'', ''Dec''] ! tm_mon t @ '' '' @
      format_int (tm_year t) @ '' '' @
      two_digits (tm_hour t) @ '':'' @ two_digits (tm_min t) @ '':'' @ two_digits (tm_sec t) @ '' GMT'')"

definition set_cookie_line :: "cookie_impl \<Rightarrow> cstring" where
  "set_cookie_line c =
     ''Set-Cookie: '' @ ck_name c @ ''='' @
     (case ck_value c of Owned v \<Rightarrow> concat (map escape_value v) | _ \<Rightarrow> []) @
     (if 0 < ck_expires c then ''; Expires='' @ http_date (ck_expires c) else []) @
     (if 0 < ck_max_age c then ''; Max-Age='' @ format_int (ck_max_age c) else []) @
     (case ck_domain c of None \<Rightarrow> [] | Some d \<Rightarrow> ''; Domain='' @ d) @
     (case ck_path c of None \<Rightarrow> [] | Some p \<Rightarrow> ''; Path='' @ p) @
     (if odd (ck_flag c) then ''; Secure'' else []) @
     (if odd (ck_flag c div 2) then ''; HttpOnly'' else []) @
     [CHR 0x0D, CHR 0x0A]"

text \<open>A cookie that can be printed: it has a value, its texts are C strings, and its date fits the buffer.\<close>

definition cookie_printable :: "cookie_impl \<Rightarrow> bool" where
  "cookie_printable c \<longleftrightarrow>
     (\<exists>v. ck_value c = Owned v \<and> valid_cstring v) \<and> valid_cstring (ck_name c) \<and>
     (\<forall>d. ck_domain c = Some d \<longrightarrow> valid_cstring d) \<and> (\<forall>p. ck_path c = Some p \<longrightarrow> valid_cstring p) \<and>
     (0 < ck_expires c \<longrightarrow>
        length (format_int (tm_year (gmtime (ck_expires c)))) \<le> 4 \<and> valid_cstring (http_date (ck_expires c)))"

lemma rfc1123_date: "length (format_int (tm_year (gmtime e))) \<le> 4 \<Longrightarrow> rfc1123 e 30 = Some (http_date e)"
  by (simp add: rfc1123_def http_date_def two_digits_def DAY_NAMES_def MONTH_NAMES_def Let_def)

lemma flag_bits:
  "f AND Cookie_secure \<noteq> 0 \<longleftrightarrow> odd f" "f AND Cookie_http_only \<noteq> 0 \<longleftrightarrow> odd (f div 2)" for f :: int
proof -
  show "f AND Cookie_secure \<noteq> 0 \<longleftrightarrow> odd f"
    by (simp add: Cookie_secure_def and_one_eq odd_iff_mod_2_eq_one)
  have "bit f 1 \<longleftrightarrow> f AND push_bit 1 1 \<noteq> 0" by (rule bit_iff_and_push_bit_not_eq_0)
  then show "f AND Cookie_http_only \<noteq> 0 \<longleftrightarrow> odd (f div 2)"
    by (simp add: Cookie_http_only_def bit_iff_odd)
qed

lemma valid_format_int: "valid_cstring (format_int i)"
  using set_decimal by (fastforce simp: format_int_def valid_cstring_def)

lemma valid_escaped: "valid_cstring v \<Longrightarrow> valid_cstring (concat (map escape_value v))"
  using escaped_plain(3) [of v] by (simp add: valid_cstring_def)

text \<open>The puts of \<open>flush_cookie\<close> make that line.\<close>

lemma cookie_texts_line:
  assumes "cookie_printable c"
  obtains ts where "cookie_texts c = Some ts" "\<forall>t \<in> set ts. valid_cstring t" "concat ts = set_cookie_line c"
proof -
  obtain v where v: "ck_value c = Owned v" "valid_cstring v"
    using assms by (auto simp: cookie_printable_def)
  let ?e = "if 0 < ck_expires c then [''; Expires='' @ http_date (ck_expires c)] else []"
  let ?ts = "[''Set-Cookie: '' @ ck_name c @ ''='' @ concat (map escape_value v)] @ ?e @
       (if 0 < ck_max_age c then [''; Max-Age='' @ format_int (ck_max_age c)] else []) @
       (case ck_domain c of None \<Rightarrow> [] | Some d \<Rightarrow> [''; Domain='' @ d]) @
       (case ck_path c of None \<Rightarrow> [] | Some p \<Rightarrow> [''; Path='' @ p]) @
       (if odd (ck_flag c) then [''; Secure''] else []) @
       (if odd (ck_flag c div 2) then [''; HttpOnly''] else []) @ [[CHR 0x0D, CHR 0x0A]]"
  have "(if 0 < ck_expires c then map_option (\<lambda>d. [''; Expires='' @ d]) (rfc1123 (ck_expires c) 30) else Some []) = Some ?e"
    using assms rfc1123_date by (simp add: cookie_printable_def)
  then have ts: "cookie_texts c = Some ?ts"
    by (simp add: cookie_texts_def v(1) encode_value_total flag_bits)
  have "\<forall>t \<in> set ?ts. valid_cstring t"
    using assms v valid_escaped [OF v(2)] valid_format_int
    by (auto simp: cookie_printable_def split: option.splits)
  moreover have "concat ?ts = set_cookie_line c"
    by (simp add: set_cookie_line_def v(1) split: option.splits)
  ultimately show ?thesis using ts that by blast
qed

text \<open>What a cookie adds to the output, and its record once flushed.\<close>

definition cookie_output :: "cookie_store \<Rightarrow> nat \<Rightarrow> char list" where
  "cookie_output m addr =
     (case cm_cookies m addr of None \<Rightarrow> [] | Some c \<Rightarrow> if ck_changed c then set_cookie_line c else [])"

definition unchanged :: "cookie_store \<Rightarrow> nat set \<Rightarrow> cookie_store" where
  "unchanged m A =
     m\<lparr>cm_cookies := (\<lambda>a. if a \<in> A then map_option (\<lambda>c. c\<lparr>ck_changed := False\<rparr>) (cm_cookies m a) else cm_cookies m a)\<rparr>"

text \<open>The cookies at the addresses exist, and those to print can be printed.\<close>

definition printable :: "cookie_store \<Rightarrow> nat list \<Rightarrow> bool" where
  "printable m addrs \<longleftrightarrow>
     (\<forall>a \<in> set addrs. \<exists>c. cm_cookies m a = Some c \<and> (ck_changed c \<longrightarrow> cookie_printable c))"

lemma printable_update:
  "printable m (a # addrs) \<Longrightarrow> a \<notin> set addrs \<Longrightarrow> printable (m\<lparr>cm_cookies := (cm_cookies m)(a \<mapsto> c)\<rparr>) addrs"
  by (auto simp: printable_def)

lemma unchanged_update:
  "cm_cookies m a = Some c \<Longrightarrow> a \<notin> A \<Longrightarrow>
   unchanged (m\<lparr>cm_cookies := (cm_cookies m)(a \<mapsto> c\<lparr>ck_changed := False\<rparr>)\<rparr>) A = unchanged m (insert a A)"
  by (auto simp: unchanged_def fun_eq_iff intro!: arg_cong [where f = "\<lambda>f. m\<lparr>cm_cookies := f\<rparr>"])

lemma cookie_output_update:
  "a \<notin> set addrs \<Longrightarrow> map (cookie_output (m\<lparr>cm_cookies := (cm_cookies m)(a \<mapsto> c)\<rparr>)) addrs = map (cookie_output m) addrs"
  by (auto simp: cookie_output_def)

context output_stream
begin

lemma flush_one:
  assumes "inv out" "cm_cookies m a = Some c" "printable m (a # addrs)"
    "length (written out) + length (cookie_output m a) \<le> limit"
  obtains out' where "flush_cookie ops i k (Some a) (Some (m, out)) =
      Some (m\<lparr>cm_cookies := (cm_cookies m)(a \<mapsto> c\<lparr>ck_changed := False\<rparr>)\<rparr>, out')"
    "inv out'" "written out' = written out @ cookie_output m a"
proof (cases "ck_changed c")
  case False
  then show ?thesis
    using that [of out] assms(1,2) by (simp add: flush_cookie_def cookie_output_def)
next
  case True
  then have "cookie_printable c" using assms(2,3) by (auto simp: printable_def)
  then obtain ts where ts: "cookie_texts c = Some ts" "\<forall>t \<in> set ts. valid_cstring t" "concat ts = set_cookie_line c"
    by (rule cookie_texts_line)
  then have o: "cookie_output m a = concat ts" using True assms(2) by (simp add: cookie_output_def)
  obtain out' where "put_all ops out ts = Some out'" "inv out'" "written out' = written out @ concat ts"
    using put_all_appends [OF assms(1) ts(2)] assms(4) o by auto
  then show ?thesis
    using that [of out'] True ts(1) o assms(2) by (simp add: flush_cookie_def)
qed

lemma flush_fold:
  assumes "inv out" "distinct addrs" "printable m addrs"
    "length (written out) + length (concat (map (cookie_output m) addrs)) \<le> limit"
  shows "\<exists>out'. fold (flush_cookie ops 0 []) (map Some addrs) (Some (m, out)) = Some (unchanged m (set addrs), out') \<and>
    inv out' \<and> written out' = written out @ concat (map (cookie_output m) addrs)"
  using assms
proof (induction addrs arbitrary: m out)
  case Nil
  then show ?case by (simp add: unchanged_def)
next
  case (Cons a addrs)
  from Cons.prems(3) obtain c where c: "cm_cookies m a = Some c" by (auto simp: printable_def)
  let ?m = "m\<lparr>cm_cookies := (cm_cookies m)(a \<mapsto> c\<lparr>ck_changed := False\<rparr>)\<rparr>"
  obtain out1 where 1: "flush_cookie ops 0 [] (Some a) (Some (m, out)) = Some (?m, out1)" "inv out1"
      "written out1 = written out @ cookie_output m a"
    using flush_one [OF Cons.prems(1) c Cons.prems(3)] Cons.prems(4) by auto
  have a: "a \<notin> set addrs" "distinct addrs" using Cons.prems(2) by auto
  obtain out' where "fold (flush_cookie ops 0 []) (map Some addrs) (Some (?m, out1)) =
        Some (unchanged ?m (set addrs), out')"
      "inv out'" "written out' = written out1 @ concat (map (cookie_output ?m) addrs)"
    using Cons.IH [OF 1(2) a(2) printable_update [OF Cons.prems(3) a(1)]] Cons.prems(4) 1(3)
    by (auto simp: cookie_output_update [OF a(1)])
  then show ?case
    using 1 a c by (simp add: unchanged_update cookie_output_update)
qed

lemma flush_cookies_prints:
  assumes "hash_inv (jar this)" "table_values (jar this) = map Some addrs" "distinct addrs"
    "printable (store this) addrs" "inv out"
    "length (written out) + length (concat (map (cookie_output (store this)) addrs)) \<le> limit"
  shows "\<exists>out'. flush_cookies ops this out = Some (this\<lparr>store := unchanged (store this) (set addrs)\<rparr>, out') \<and>
    inv out' \<and> written out' = written out @ concat (map (cookie_output (store this)) addrs)"
proof -
  have "fold_entries (flush_cookie ops) 0 (hi_entries (jar this)) (Some (store this, out)) =
      fold (flush_cookie ops 0 []) (map Some addrs) (Some (store this, out))"
    using assms(2) by (subst fold_entries_values [of _ "flush_cookie ops 0 []"])
      (simp_all add: flush_cookie_def table_values_def)
  then show ?thesis
    using flush_fold [OF assms(5,3,4,6)] hash_iterate_total [OF assms(1), of "flush_cookie ops"]
    by (auto simp: flush_cookies_def)
qed

end

lemma cookie_output_unchanged: "a \<in> A \<Longrightarrow> cookie_output (unchanged m A) a = []"
  by (auto simp: cookie_output_def unchanged_def split: option.splits)

lemma printable_unchanged: "printable m addrs \<Longrightarrow> printable (unchanged m (set addrs)) addrs"
  by (fastforce simp: printable_def unchanged_def)

lemma unchanged_idem: "unchanged (unchanged m A) A = unchanged m A"
  by (auto simp: unchanged_def option.map_comp comp_def fun_eq_iff intro!: arg_cong [where f = "\<lambda>f. m\<lparr>cm_cookies := f\<rparr>"])

end
