(* ===== verification/Cad_Cgi_Response.thy ===== *)
theory Cad_Cgi_Response
  imports Cad_Cookies_Laws Cad_Cgi_Meta
begin

text \<open>
  The CGI response and the CGI runner (src/cad_cgi.c). The body is written to a string
  output stream; \<open>flush_response\<close> writes the headers, the cookies and the body to the output.
  The output stream that the response shares with the runner is passed beside it.
\<close>

section \<open>The response\<close>

record 's response_impl =
  rs_cookies :: cookies_impl
  rs_body_stream :: cad_output_stream_string
  rs_redirect_path :: "cstring ptr"
  rs_redirect_fragment :: "cstring ptr"
  rs_status :: int
  rs_content_type :: "cstring ptr"
  rs_headers :: string_table
  rs_meta :: "'s meta_impl"
  rs_fd :: int

text \<open>\<open>body\<close> is the variable that the body stream was opened on.\<close>

definition rs_body :: "'s response_impl \<Rightarrow> char option list ptr" where
  "rs_body this = oss_string (rs_body_stream this)"

definition response_cookies :: "'s response_impl \<Rightarrow> cookies_impl" where
  "response_cookies this = rs_cookies this"

definition response_meta_variables :: "'s response_impl \<Rightarrow> 's meta_impl" where
  "response_meta_variables this = rs_meta this"

definition response_fd :: "'s response_impl \<Rightarrow> int" where
  "response_fd this = rs_fd this"

definition response_body :: "'s response_impl \<Rightarrow> cad_output_stream_string" where
  "response_body this = rs_body_stream this"

text \<open>The results of the two allocations of \<open>redirect\<close> are arguments.\<close>

definition redirect ::
  "bool \<Rightarrow> bool \<Rightarrow> 's response_impl \<Rightarrow> cstring ptr \<Rightarrow> cstring ptr \<Rightarrow> int \<times> 's response_impl" where
  "redirect malloc1 malloc2 this path fragment =
     (case (rs_body this, path, fragment) of
        (None, Some p, Some f) \<Rightarrow>
          if malloc1 then
            (if malloc2 then (0, this\<lparr>rs_redirect_path := Some p, rs_redirect_fragment := Some f\<rparr>)
             else (-1, this\<lparr>rs_redirect_path := NULL, rs_redirect_fragment := NULL\<rparr>))
          else (-1, this\<lparr>rs_redirect_path := NULL, rs_redirect_fragment := NULL\<rparr>)
      | _ \<Rightarrow> (-1, this))"

definition set_status :: "'s response_impl \<Rightarrow> int \<Rightarrow> int \<times> 's response_impl" where
  "set_status this status = (0, this\<lparr>rs_status := status\<rparr>)"

definition set_content_type :: "bool \<Rightarrow> 's response_impl \<Rightarrow> cstring ptr \<Rightarrow> int \<times> 's response_impl" where
  "set_content_type malloc_ok this ctype =
     (case ctype of
        None \<Rightarrow> (-1, this)
      | Some t \<Rightarrow>
          if malloc_ok then (0, this\<lparr>rs_content_type := Some t\<rparr>)
          else (-1, this\<lparr>rs_content_type := NULL\<rparr>))"

text \<open>\<open>strcasecmp\<close>, with the letters of ASCII.\<close>

definition tolower :: "char \<Rightarrow> int" where
  "tolower c = (let i = char_int c in if char_int CHR ''A'' \<le> i \<and> i \<le> char_int CHR ''Z'' then i + 32 else i)"

fun strcasecmp :: "cstring \<Rightarrow> cstring \<Rightarrow> int" where
  "strcasecmp [] [] = 0"
| "strcasecmp [] (d # ds) = - 1"
| "strcasecmp (c # cs) [] = 1"
| "strcasecmp (c # cs) (d # ds) =
     (if tolower c = tolower d then strcasecmp cs ds else tolower c - tolower d)"

definition reserved_headers :: "cstring list" where
  "reserved_headers = [''Status'', ''Content-Type'', ''Location'', ''Cookie'', ''Set-Cookie'']"

definition set_header :: "bool \<Rightarrow> 's response_impl \<Rightarrow> cstring ptr \<Rightarrow> cstring ptr \<Rightarrow> (int \<times> 's response_impl) option" where
  "set_header malloc_ok this field val =
     (case (field, val) of
        (Some f, Some v) \<Rightarrow>
          if list_all (\<lambda>r. strcasecmp f r \<noteq> 0) reserved_headers \<and> malloc_ok then do {
            (_, headers) \<leftarrow> hash_set (rs_headers this) f (Some v);
            Some (0, this\<lparr>rs_headers := headers\<rparr>)
          } else Some (-1, this)
      | _ \<Rightarrow> Some (-1, this))"

section \<open>Flushing\<close>

text \<open>The puts of \<open>flush_body\<close>: status 1 is after a CR whose LF has not been written.\<close>

fun body_texts :: "nat \<Rightarrow> cstring \<Rightarrow> cstring list" where
  "body_texts status [] = []"
| "body_texts status (c # cs) =
     (if status = 0 then
        (if c = CHR 0x0D then [[CHR 0x0D]] @ body_texts 1 cs
         else if c = CHR 0x0A then [[CHR 0x0D, CHR 0x0A]] @ body_texts 0 cs
         else [[c]] @ body_texts 0 cs)
      else
        (if c = CHR 0x0D then [[CHR 0x0A, CHR 0x0D]] @ body_texts 1 cs
         else if c = CHR 0x0A then [[CHR 0x0A]] @ body_texts 0 cs
         else [[CHR 0x0A, c]] @ body_texts 0 cs))"

text \<open>The body is read as a C string; reading through \<open>NULL\<close> is undefined.\<close>

definition flush_body :: "'o cad_output_stream \<Rightarrow> char option list ptr \<Rightarrow> 'o \<Rightarrow> 'o option" where
  "flush_body ops body out = do {
     buf \<leftarrow> body;
     cs \<leftarrow> c_string buf;
     put_all ops out (body_texts 0 cs)
   }"

definition CRLF :: cstring where
  "CRLF = [CHR 0x0D, CHR 0x0A]"

definition header_text :: "cstring \<Rightarrow> cstring ptr \<Rightarrow> cstring" where
  "header_text key val = key @ '': '' @ (case val of None \<Rightarrow> [] | Some v \<Rightarrow> v) @ CRLF"

definition flush_header :: "'o cad_output_stream \<Rightarrow> (cstring, cstring, 'o option) hash_iterator" where
  "flush_header ops i key val data = do {
     out \<leftarrow> data;
     (_, out') \<leftarrow> cos_put ops out (header_text key val);
     Some out'
   }"

definition status_texts :: "'s response_impl \<Rightarrow> cstring list option" where
  "status_texts this = do {
     location \<leftarrow> (case rs_redirect_path this of
        None \<Rightarrow> Some []
      | Some p \<Rightarrow> do {
          f \<leftarrow> rs_redirect_fragment this;
          Some [if f \<noteq> [] then ''Location: '' @ p @ ''#'' @ f @ CRLF else ''Location: '' @ p @ CRLF]
        });
     Some ([''Content-Type: '' @ (case rs_content_type this of None \<Rightarrow> ''text/plain'' | Some t \<Rightarrow> t) @ CRLF,
            ''Status: '' @ format_int (if rs_status this = 0 then 200 else rs_status this) @ CRLF] @ location)
   }"

definition flush_response :: "'o cad_output_stream \<Rightarrow> 's response_impl \<Rightarrow> 'o \<Rightarrow> ('s response_impl \<times> 'o) option" where
  "flush_response ops this out = do {
     ts \<leftarrow> status_texts this;
     out1 \<leftarrow> put_all ops out ts;
     r \<leftarrow> hash_iterate (rs_headers this) (flush_header ops) (Some out1);
     out2 \<leftarrow> r;
     (cookies, out3) \<leftarrow> flush_cookies ops (rs_cookies this) out2;
     (_, out4) \<leftarrow> cos_put ops out3 CRLF;
     out5 \<leftarrow> flush_body ops (rs_body this) out4;
     Some (this\<lparr>rs_cookies := cookies\<rparr>, out5)
   }"

section \<open>Creation and release\<close>

definition new_cad_cgi_response ::
  "value_ptr \<Rightarrow> string_table ptr \<Rightarrow> cstring ptr \<Rightarrow> bool \<Rightarrow> ('w \<Rightarrow> int \<times> 'w) \<Rightarrow> environ \<Rightarrow> cookie_store \<Rightarrow> 'w
    \<Rightarrow> 's ptr \<Rightarrow> int \<Rightarrow> ('s response_impl ptr \<times> 'w) option" where
  "new_cad_cgi_response fresh form srv malloc_ok hash_salt env m w ins fd =
     (if \<not> malloc_ok then Some (NULL, w)
      else do {
        (cookies, w1) \<leftarrow> new_cookies fresh hash_salt w env m;
        (case cad_new_hash True hash_salt w1 cad_hash_strings of
           (None, _) \<Rightarrow> None
         | (Some headers, w2) \<Rightarrow> do {
             (meta, w3) \<leftarrow> new_meta form srv hash_salt env w2 ins;
             Some (Some \<lparr>rs_cookies = cookies, rs_body_stream = new_string_stream, rs_redirect_path = NULL,
                         rs_redirect_fragment = NULL, rs_status = 0, rs_content_type = NULL,
                         rs_headers = headers, rs_meta = meta, rs_fd = fd\<rparr>, w3)
           })
      })"

definition free_response :: "'s response_impl \<Rightarrow> (cookie_store \<times> cstring multiset) option" where
  "free_response this = do {
     (m, l1) \<leftarrow> free_cookies (rs_cookies this);
     (_, l2) \<leftarrow> free_meta (rs_meta this);
     (_, l3) \<leftarrow> release_table (rs_headers this);
     Some (m, l1 + l2 + l3)
   }"

section \<open>The runner\<close>

text \<open>The handler gets the response and the output; it is a parameter of the library.\<close>

record ('s, 'o) cgi_impl =
  ci_in :: "'s ptr"
  ci_out :: 'o
  ci_fd :: int

definition run_error :: "int \<Rightarrow> cstring" where
  "run_error status =
     ''Status: 500'' @ CRLF @ ''Content-Type: text/plain'' @ CRLF @ CRLF @
     ''Internal error: handler failed with status '' @ format_int status @ CRLF"

text \<open>\<open>run\<close> returns the response, or releases it and returns \<open>NULL\<close>: the second component is what \<open>free_response\<close> then
  leaves, the store of cookies and the key copies still allocated.\<close>

definition cgi_run ::
  "'o cad_output_stream
    \<Rightarrow> ('s response_impl \<Rightarrow> 'o \<Rightarrow> (int \<times> 's response_impl \<times> 'o) option)
    \<Rightarrow> ('w \<Rightarrow> int \<Rightarrow> ('s response_impl ptr \<times> 'w) option)
    \<Rightarrow> 'w \<Rightarrow> ('s, 'o) cgi_impl
    \<Rightarrow> ('s response_impl ptr \<times> (cookie_store \<times> cstring multiset) ptr \<times> ('s, 'o) cgi_impl \<times> 'w) option" where
  "cgi_run ops handler new_response w this = do {
     (result, w') \<leftarrow> new_response w (if ci_fd this = 0 then 1 else -1);
     response \<leftarrow> result;
     (status, response', out) \<leftarrow> handler response (ci_out this);
     if status \<noteq> 0 then do {
       (_, out') \<leftarrow> cos_put ops out (run_error status);
       released \<leftarrow> free_response response';
       Some (NULL, Some released, this\<lparr>ci_out := out'\<rparr>, w')
     } else Some (Some response', NULL, this\<lparr>ci_out := out\<rparr>, w')
   }"

definition cgi_fd :: "('s, 'o) cgi_impl \<Rightarrow> int" where
  "cgi_fd this = ci_fd this"

definition new_cad_cgi :: "bool \<Rightarrow> 's ptr \<Rightarrow> 'o \<Rightarrow> ('s, 'o) cgi_impl ptr" where
  "new_cad_cgi malloc_ok stdin_stream stdout_stream =
     (if \<not> malloc_ok then NULL
      else Some \<lparr>ci_in = stdin_stream, ci_out = stdout_stream, ci_fd = 0\<rparr>)"

definition new_cad_cgi_stream :: "bool \<Rightarrow> 's ptr \<Rightarrow> 'o \<Rightarrow> ('s, 'o) cgi_impl ptr" where
  "new_cad_cgi_stream malloc_ok ins out =
     (if \<not> malloc_ok then NULL else Some \<lparr>ci_in = ins, ci_out = out, ci_fd = -1\<rparr>)"

section \<open>Release of the runner and the interfaces\<close>

text \<open>\<open>free_cgi\<close> releases the streams that \<open>new_cad_cgi\<close> has opened, not those that the client has passed.\<close>

datatype cgi_block = Cgi_Output | Cgi_Input | Cgi_Object

definition free_cgi :: "('s, 'o) cgi_impl \<Rightarrow> cgi_block list" where
  "free_cgi this = (if ci_fd this = 0 then [Cgi_Output, Cgi_Input] else []) @ [Cgi_Object]"

text \<open>\<open>struct cad_cgi_response\<close> and \<open>struct cad_cgi\<close>, in the order of their slots; the allocations succeed.\<close>

record ('s, 'o) cad_cgi_response =
  response_free_slot :: "'s response_impl \<Rightarrow> (cookie_store \<times> cstring multiset) option"
  response_cookies_slot :: "'s response_impl \<Rightarrow> cookies_impl"
  response_meta_variables_slot :: "'s response_impl \<Rightarrow> 's meta_impl"
  response_flush_slot :: "'o cad_output_stream \<Rightarrow> 's response_impl \<Rightarrow> 'o \<Rightarrow> ('s response_impl \<times> 'o) option"
  response_fd_slot :: "'s response_impl \<Rightarrow> int"
  response_body_slot :: "'s response_impl \<Rightarrow> cad_output_stream_string"
  response_redirect_slot :: "'s response_impl \<Rightarrow> cstring ptr \<Rightarrow> cstring ptr \<Rightarrow> int \<times> 's response_impl"
  response_set_status_slot :: "'s response_impl \<Rightarrow> int \<Rightarrow> int \<times> 's response_impl"
  response_set_content_type_slot :: "'s response_impl \<Rightarrow> cstring ptr \<Rightarrow> int \<times> 's response_impl"
  response_set_header_slot :: "'s response_impl \<Rightarrow> cstring ptr \<Rightarrow> cstring ptr \<Rightarrow> (int \<times> 's response_impl) option"

definition response_fn :: "('s, 'o) cad_cgi_response" where
  "response_fn =
     \<lparr>response_free_slot = free_response,
      response_cookies_slot = response_cookies,
      response_meta_variables_slot = response_meta_variables,
      response_flush_slot = flush_response,
      response_fd_slot = response_fd,
      response_body_slot = response_body,
      response_redirect_slot = redirect True True,
      response_set_status_slot = set_status,
      response_set_content_type_slot = set_content_type True,
      response_set_header_slot = set_header True\<rparr>"

record ('s, 'o, 'w) cad_cgi =
  cgi_free_slot :: "('s, 'o) cgi_impl \<Rightarrow> cgi_block list"
  cgi_run_slot :: "'o cad_output_stream
    \<Rightarrow> ('s response_impl \<Rightarrow> 'o \<Rightarrow> (int \<times> 's response_impl \<times> 'o) option)
    \<Rightarrow> ('w \<Rightarrow> int \<Rightarrow> ('s response_impl ptr \<times> 'w) option)
    \<Rightarrow> 'w \<Rightarrow> ('s, 'o) cgi_impl
    \<Rightarrow> ('s response_impl ptr \<times> (cookie_store \<times> cstring multiset) ptr \<times> ('s, 'o) cgi_impl \<times> 'w) option"
  cgi_fd_slot :: "('s, 'o) cgi_impl \<Rightarrow> int"

definition cgi_fn :: "('s, 'o, 'w) cad_cgi" where
  "cgi_fn =
     \<lparr>cgi_free_slot = free_cgi,
      cgi_run_slot = cgi_run,
      cgi_fd_slot = cgi_fd\<rparr>"

section \<open>The body on the wire\<close>

text \<open>The line ends of the body: CR LF, a lone LF and a lone CR all become CR LF, except a CR that ends it.\<close>

fun normal_lines :: "cstring \<Rightarrow> cstring" where
  "normal_lines [] = []"
| "normal_lines (c # cs) =
     (if c = CHR 0x0D then
        (case cs of
           [] \<Rightarrow> [CHR 0x0D]
         | d # ds \<Rightarrow> [CHR 0x0D, CHR 0x0A] @ normal_lines (if d = CHR 0x0A then ds else cs))
      else if c = CHR 0x0A then [CHR 0x0D, CHR 0x0A] @ normal_lines cs
      else c # normal_lines cs)"

lemma body_texts_normal:
  "concat (body_texts 0 cs) = normal_lines cs"
  "concat (body_texts 1 cs) =
     (case cs of [] \<Rightarrow> [] | d # ds \<Rightarrow> CHR 0x0A # normal_lines (if d = CHR 0x0A then ds else cs))"
proof (induction cs)
  case (Cons c cs)
  {
    case 1
    then show ?case using Cons.IH by (auto simp: CRLF_def split: list.splits)
  next
    case 2
    then show ?case using Cons.IH by (auto simp: CRLF_def split: list.splits)
  }
qed simp_all

lemma valid_body_texts: "valid_cstring cs \<Longrightarrow> t \<in> set (body_texts status cs) \<Longrightarrow> valid_cstring t"
  by (induction status cs rule: body_texts.induct) (auto split: if_splits)

lemma normal_lines_idem: "normal_lines (normal_lines cs) = normal_lines cs"
  by (induction cs rule: normal_lines.induct) (auto simp: CRLF_def split: list.splits)

section \<open>The response on the wire\<close>

text \<open>The pairs of a table, in the order in which it is iterated.\<close>

definition table_pairs :: "('k, 'v) cad_hash_impl \<Rightarrow> ('k \<times> 'v ptr) list" where
  "table_pairs t = map (\<lambda>e. (the (ekey e), he_value e)) (filter (\<lambda>e. ekey e \<noteq> None) (hi_entries t))"

lemma fold_entries_pairs:
  assumes "\<And>i k v d. iterator i k v d = f k v d"
  shows "fold_entries iterator idx es d =
    fold (\<lambda>(k, v). f k v) (map (\<lambda>e. (the (ekey e), he_value e)) (filter (\<lambda>e. ekey e \<noteq> None) es)) d"
proof (induction es arbitrary: idx d)
  case (Cons e es)
  then show ?case using assms by (cases "ekey e") simp_all
qed simp

lemma table_values_pairs: "table_values t = map snd (table_pairs t)"
  by (simp add: table_values_def table_pairs_def)

lemma distinct_map_filter_nth:
  assumes "\<And>i j. i < length es \<Longrightarrow> j < length es \<Longrightarrow> P (es ! i) \<Longrightarrow> P (es ! j) \<Longrightarrow> f (es ! i) = f (es ! j) \<Longrightarrow> i = j"
  shows "distinct (map f (filter P es))"
  using assms
proof (induction es)
  case (Cons e es)
  have "f e \<noteq> f (es ! j)" if "P e" "j < length es" "P (es ! j)" for j
    using Cons.prems [of 0 "Suc j"] that by auto
  then have "P e \<Longrightarrow> f e \<notin> f ` set (filter P es)" by (auto simp: in_set_conv_nth)
  moreover have "distinct (map f (filter P es))"
    using Cons.IH Cons.prems [of "Suc _" "Suc _"] by simp
  ultimately show ?case by auto
qed simp

lemma map_of_entries:
  "map_of (map (\<lambda>e. (the (ekey e), he_value e)) (filter (\<lambda>e. ekey e \<noteq> None) es)) k =
     map_option he_value (find (\<lambda>e. ekey e = Some k) es)"
  by (induction es) auto

lemma table_pairs_map:
  assumes "table_inv cad_hash_strings t"
  shows "distinct (map fst (table_pairs t))" "map_of (table_pairs t) = hash_abs t"
proof -
  have k: "hi_keys t = cad_hash_strings" and o: "keys_ok cad_hash_strings (hi_salt t) (contents (hi_entries t))"
    using assms by (auto simp: table_inv_def hash_inv_def)
  have em: "entry_matches (hi_keys t) key = (\<lambda>e. ekey e = Some key)" for key
    by (auto simp: entry_matches_def k fun_eq_iff split: option.splits)
  show "map_of (table_pairs t) = hash_abs t"
    by (rule ext) (simp only: table_pairs_def hash_abs_def map_of_entries em)
  have "distinct (map (the \<circ> ekey) (filter (\<lambda>e. ekey e \<noteq> None) (hi_entries t)))"
    by (rule distinct_map_filter_nth) (use keys_ok_distinct [OF o] in force)
  then show "distinct (map fst (table_pairs t))" by (simp add: table_pairs_def comp_def)
qed

lemma single_pair:
  assumes "distinct (map fst hs)" "map_of hs = [a \<mapsto> b]"
  shows "hs = [(a, b)]"
proof -
  have "x = a \<and> y = b" if "(x, y) \<in> set hs" for x y
    using map_of_is_SomeI [OF assms(1) that] assms(2) by (simp split: if_splits)
  then have sub: "set hs \<subseteq> {(a, b)}" by auto
  have "hs \<noteq> []" using fun_cong [OF assms(2), of a] by auto
  then obtain p hs' where hs: "hs = p # hs'" by (auto simp: neq_Nil_conv)
  then have "hs' = []" using sub assms(1) by (cases hs') auto
  then show ?thesis using hs sub by simp
qed

text \<open>A table with one entry.\<close>

lemma single_table:
  assumes "cad_new_hash True salt w cad_hash_strings = (Some t, w')"
  obtains t' where "hash_set t k v = Some (NULL, t')" "table_inv cad_hash_strings t'" "hash_abs t' = [k \<mapsto> v]"
    "table_pairs t' = [(k, v)]" "table_values t' = [v]"
proof -
  note n = new_table [OF assms]
  obtain t' where t': "hash_set t k v = Some (or_null (hash_abs t k), t')" "table_inv cad_hash_strings t'"
      "hash_abs t' = (\<lambda>k'. if k' = k then Some v else hash_abs t k')"
    using string_table.set_law [of t k v] n by auto
  have a: "hash_abs t' = [k \<mapsto> v]" using t'(3) n by (auto simp: fun_eq_iff)
  then have p: "table_pairs t' = [(k, v)]" using single_pair table_pairs_map [OF t'(2)] by metis
  then have "table_values t' = [v]" by (simp add: table_values_pairs)
  then show ?thesis using that t'(1,2) a p n by simp
qed

text \<open>The bytes of a response, from its data alone; \<open>addrs\<close> are the addresses of the jar.\<close>

definition headers_output :: "string_table \<Rightarrow> char list" where
  "headers_output t =
     concat (map (\<lambda>(k, v). k @ '': '' @ (case v of None \<Rightarrow> [] | Some v \<Rightarrow> v) @ [CHR 0x0D, CHR 0x0A]) (table_pairs t))"

definition response_head :: "'s response_impl \<Rightarrow> char list" where
  "response_head this =
     ''Content-Type: '' @ (case rs_content_type this of None \<Rightarrow> ''text/plain'' | Some t \<Rightarrow> t) @ [CHR 0x0D, CHR 0x0A] @
     ''Status: '' @ (if rs_status this = 0 then ''200'' else format_int (rs_status this)) @ [CHR 0x0D, CHR 0x0A] @
     (case rs_redirect_path this of
        None \<Rightarrow> []
      | Some p \<Rightarrow>
          ''Location: '' @ p @
          (case rs_redirect_fragment this of Some (f # fs) \<Rightarrow> ''#'' @ f # fs | _ \<Rightarrow> []) @ [CHR 0x0D, CHR 0x0A])"

definition response_output :: "'s response_impl \<Rightarrow> nat list \<Rightarrow> cstring \<Rightarrow> char list" where
  "response_output this addrs cs =
     response_head this @ headers_output (rs_headers this) @
     concat (map (cookie_output (store (rs_cookies this))) addrs) @ [CHR 0x0D, CHR 0x0A] @ normal_lines cs"

text \<open>The strings that the response holds are C strings, its tables are sound, and its body is \<open>cs\<close>.\<close>

definition text_ok :: "cstring ptr \<Rightarrow> bool" where
  "text_ok s \<longleftrightarrow> (case s of None \<Rightarrow> True | Some t \<Rightarrow> valid_cstring t)"

lemma text_ok_simps [simp]: "text_ok NULL" "text_ok (Some t) \<longleftrightarrow> valid_cstring t"
  by (simp_all add: text_ok_def)

definition response_ok :: "'s response_impl \<Rightarrow> nat list \<Rightarrow> cstring \<Rightarrow> bool" where
  "response_ok this addrs cs \<longleftrightarrow>
     text_ok (rs_content_type this) \<and> text_ok (rs_redirect_path this) \<and> text_ok (rs_redirect_fragment this) \<and>
     (rs_redirect_path this \<noteq> NULL \<longrightarrow> rs_redirect_fragment this \<noteq> NULL) \<and>
     hash_inv (rs_headers this) \<and> (\<forall>(k, v) \<in> set (table_pairs (rs_headers this)). valid_cstring k \<and> text_ok v) \<and>
     hash_inv (jar (rs_cookies this)) \<and> table_values (jar (rs_cookies this)) = map Some addrs \<and> distinct addrs \<and>
     printable (store (rs_cookies this)) addrs \<and>
     (\<exists>buf. rs_body this = Some buf \<and> c_string buf = Some cs) \<and> valid_cstring cs"

lemma format_int_200: "format_int 200 = ''200''"
  by (simp add: format_int_def decimal.simps digit_char_def)

lemma header_text_line: "header_text k v = k @ '': '' @ (case v of None \<Rightarrow> [] | Some v \<Rightarrow> v) @ [CHR 0x0D, CHR 0x0A]"
  by (simp add: header_text_def CRLF_def)

lemma valid_header_text: "valid_cstring k \<Longrightarrow> text_ok v \<Longrightarrow> valid_cstring (header_text k v)"
  by (cases v) (simp_all add: header_text_line)

text \<open>The first puts of \<open>flush_response\<close> make the head.\<close>

lemma status_texts_head:
  assumes "text_ok (rs_content_type this)" "text_ok (rs_redirect_path this)" "text_ok (rs_redirect_fragment this)"
    and "rs_redirect_path this \<noteq> NULL \<Longrightarrow> rs_redirect_fragment this \<noteq> NULL"
  obtains ts where "status_texts this = Some ts" "\<forall>t \<in> set ts. valid_cstring t" "concat ts = response_head this"
proof (cases "rs_redirect_path this")
  case None
  then show ?thesis
    using that assms(1) valid_format_int
    by (cases "rs_content_type this") (simp_all add: status_texts_def response_head_def CRLF_def format_int_200)
next
  case (Some p)
  then obtain f where "rs_redirect_fragment this = Some f" using assms(4) by auto
  then show ?thesis
    using that assms(1-3) Some valid_format_int
    by (cases "rs_content_type this"; cases f) (simp_all add: status_texts_def response_head_def CRLF_def format_int_200)
qed

context output_stream
begin

lemma flush_body_total:
  assumes "inv out" "c_string buf = Some cs" "valid_cstring cs" "length (written out) + length (normal_lines cs) \<le> limit"
  shows "\<exists>out'. flush_body ops (Some buf) out = Some out' \<and> inv out' \<and> written out' = written out @ normal_lines cs"
  using put_all_appends [of out "body_texts 0 cs"] assms valid_body_texts [OF assms(3), of _ 0]
  by (auto simp: flush_body_def body_texts_normal)

lemma flush_headers_fold:
  assumes "inv out" "\<forall>(k, v) \<in> set ps. valid_cstring k \<and> text_ok v"
    "length (written out) + length (concat (map (\<lambda>(k, v). header_text k v) ps)) \<le> limit"
  shows "\<exists>out'. fold (\<lambda>(k, v). flush_header ops 0 k v) ps (Some out) = Some out' \<and> inv out' \<and>
    written out' = written out @ concat (map (\<lambda>(k, v). header_text k v) ps)"
  using assms
proof (induction ps arbitrary: out)
  case Nil
  then show ?case by simp
next
  case (Cons p ps)
  obtain k v where p: "p = (k, v)" by (cases p)
  obtain out1 where 1: "cos_put ops out (header_text k v) = Some (int (length (header_text k v)), out1)"
      "inv out1" "written out1 = written out @ header_text k v"
    using put_law [of out "header_text k v"] Cons.prems p valid_header_text [of k v] by auto
  then have "flush_header ops 0 k v (Some out) = Some out1" by (simp add: flush_header_def)
  moreover obtain out' where "fold (\<lambda>(k, v). flush_header ops 0 k v) ps (Some out1) = Some out'" "inv out'"
      "written out' = written out1 @ concat (map (\<lambda>(k, v). header_text k v) ps)"
    using Cons.IH [OF 1(2)] Cons.prems(2,3) 1(3) p by auto
  ultimately show ?case using 1(3) p by simp
qed

lemma flush_headers_total:
  assumes "inv out" "hash_inv t" "\<forall>(k, v) \<in> set (table_pairs t). valid_cstring k \<and> text_ok v"
    "length (written out) + length (headers_output t) \<le> limit"
  shows "\<exists>out'. hash_iterate t (flush_header ops) (Some out) = Some (Some out') \<and> inv out' \<and>
    written out' = written out @ headers_output t"
proof -
  have "fold_entries (flush_header ops) 0 (hi_entries t) (Some out) =
      fold (\<lambda>(k, v). flush_header ops 0 k v) (table_pairs t) (Some out)"
    unfolding table_pairs_def by (rule fold_entries_pairs) (simp add: flush_header_def)
  moreover have "headers_output t = concat (map (\<lambda>(k, v). header_text k v) (table_pairs t))"
    by (simp only: headers_output_def header_text_line)
  ultimately show ?thesis
    using flush_headers_fold [OF assms(1,3)] assms(4) hash_iterate_total [OF assms(2), of "flush_header ops"] by simp
qed

lemma flush_response_total:
  assumes ok: "response_ok this addrs cs" and out: "inv out"
    and room: "length (written out) + length (response_output this addrs cs) \<le> limit"
  shows "\<exists>out'. flush_response ops this out =
      Some (this\<lparr>rs_cookies := (rs_cookies this)\<lparr>store := unchanged (store (rs_cookies this)) (set addrs)\<rparr>\<rparr>, out') \<and>
    inv out' \<and> written out' = written out @ response_output this addrs cs"
proof -
  obtain ts where ts: "status_texts this = Some ts" "\<forall>t \<in> set ts. valid_cstring t" "concat ts = response_head this"
    by (rule status_texts_head [of this]) (use ok in \<open>simp_all add: response_ok_def\<close>)
  obtain buf where buf: "rs_body this = Some buf" "c_string buf = Some cs" "valid_cstring cs"
    using ok by (auto simp: response_ok_def)
  have len: "length (written out) + (length (concat ts) + (length (headers_output (rs_headers this)) +
      (length (concat (map (cookie_output (store (rs_cookies this))) addrs)) + (length CRLF + length (normal_lines cs))))) \<le> limit"
    using room ts(3) by (simp add: response_output_def CRLF_def)
  obtain o1 where o1: "put_all ops out ts = Some o1" "inv o1" "written o1 = written out @ concat ts"
    using put_all_appends [OF out ts(2)] len by auto
  obtain o2 where o2: "hash_iterate (rs_headers this) (flush_header ops) (Some o1) = Some (Some o2)" "inv o2"
      "written o2 = written o1 @ headers_output (rs_headers this)"
    using flush_headers_total [OF o1(2), of "rs_headers this"] ok len o1(3) by (auto simp: response_ok_def)
  obtain o3 where o3: "flush_cookies ops (rs_cookies this) o2 =
        Some ((rs_cookies this)\<lparr>store := unchanged (store (rs_cookies this)) (set addrs)\<rparr>, o3)" "inv o3"
      "written o3 = written o2 @ concat (map (cookie_output (store (rs_cookies this))) addrs)"
    using flush_cookies_prints [of "rs_cookies this" addrs o2] ok len o1(3) o2(2,3) by (auto simp: response_ok_def)
  obtain o4 where o4: "cos_put ops o3 CRLF = Some (int (length CRLF), o4)" "inv o4" "written o4 = written o3 @ CRLF"
    using put_law [OF o3(2), of CRLF] len o1(3) o2(3) o3(3) by (auto simp: CRLF_def)
  obtain o5 where "flush_body ops (Some buf) o4 = Some o5" "inv o5" "written o5 = written o4 @ normal_lines cs"
    using flush_body_total [OF o4(2) buf(2,3)] len o1(3) o2(3) o3(3) o4(3) by auto
  then show ?thesis
    using ts(1,3) buf(1) o1 o2 o3 o4 by (simp add: flush_response_def response_output_def CRLF_def)
qed

end

lemma strcasecmp_refl [simp]: "strcasecmp s s = 0"
  by (induction s) auto

end
