(* ===== verification/Cad_Cgi_Props.thy ===== *)
theory Cad_Cgi_Props
  imports Cad_Cgi_Laws Cad_Cgi_Response Cad_Stream_Fd Cad_Hash_Props
begin

text \<open>
  Properties of the CGI support: what the parsers of the request compute, the round trips with the
  encodings that clients use, the exact bytes of a response, and the cases in which the code
  faults.
\<close>

section \<open>Helpers\<close>

lemma store_pairs_snoc: "store_pairs (ps @ [(a, v)]) m = (store_pairs ps m)(a \<mapsto> Some v)"
  by (auto simp: store_pairs_def fun_eq_iff)

lemma store_pairs_map_of: "store_pairs ps (\<lambda>_. None) k = map_option Some (map_of (rev ps) k)"
  by (induction ps rule: rev_induct) (auto simp: store_pairs_snoc)

lemma hash_get_pairs:
  assumes "strings_inv t" "hash_abs t = store_pairs ps (\<lambda>_. None)"
  shows "hash_get t k = Some (map_of (rev ps) k)"
  using string_table.get_law [OF assms(1), of k]
  by (cases "map_of (rev ps) k") (simp_all add: assms(2) store_pairs_map_of or_null_def)

text \<open>An encoded string holds no \<open>%00\<close> when the string holds no NUL.\<close>

lemma no_nul_simps:
  "no_nul []"
  "c \<noteq> CHR ''%'' \<Longrightarrow> no_nul (c # bs) \<longleftrightarrow> c \<noteq> NUL \<and> no_nul bs"
  by (auto simp: no_nul_def Cons_eq_append_conv)

lemma no_nul_pct:
  assumes "h1 \<notin> {CHR ''%'', NUL}" "h2 \<notin> {CHR ''%'', NUL}" "h1 \<noteq> CHR ''0'' \<or> h2 \<noteq> CHR ''0''" "no_nul bs"
  shows "no_nul (CHR ''%'' # h1 # h2 # bs)"
  using assms by (auto simp: no_nul_def Cons_eq_append_conv)

lemma hex_char_plain: "d < 16 \<Longrightarrow> hex_char d \<notin> {CHR ''%'', NUL}" "d < 16 \<Longrightarrow> hex_char d = CHR ''0'' \<Longrightarrow> d = 0"
  by (drule less_16_cases, elim disjE; simp add: hex_char_def)+

lemma no_nul_url_encode:
  assumes "url_safe safe" "valid_cstring s" "no_nul bs"
  shows "no_nul (url_encode safe s @ bs)"
  using assms(2)
proof (induction s)
  case Nil
  then show ?case using assms(3) by (simp add: url_encode_def)
next
  case (Cons c s)
  then have IH: "no_nul (url_encode safe s @ bs)" and c: "c \<noteq> NUL" by auto
  show ?case
  proof (cases "safe c")
    case True
    then show ?thesis
      using assms(1) IH c by (auto simp: url_encode_def url_safe_def no_nul_simps)
  next
    case False
    have d: "(of_char c :: nat) div 16 < 16" "(of_char c :: nat) mod 16 < 16"
      using nat_of_char_less_256 [of c] by (simp_all add: less_mult_imp_div_less)
    have "(of_char c :: nat) \<noteq> 0"
    proof
      assume "(of_char c :: nat) = 0"
      then have "c = char_of (0::nat)" by (metis char_of_char)
      then show False using c by (simp add: char_of_def)
    qed
    then have "(of_char c :: nat) div 16 \<noteq> 0 \<or> (of_char c :: nat) mod 16 \<noteq> 0"
      by (metis add.right_neutral div_mult_mod_eq mult_zero_left)
    then have "hex_char (of_char c div 16) \<noteq> CHR ''0'' \<or> hex_char (of_char c mod 16) \<noteq> CHR ''0''"
      using hex_char_plain(2) [OF d(1)] hex_char_plain(2) [OF d(2)] by auto
    then have "no_nul (escape_char c @ url_encode safe s @ bs)"
      using no_nul_pct [OF hex_char_plain(1) [OF d(1)] hex_char_plain(1) [OF d(2)] _ IH] by (simp add: escape_char_def)
    then show ?thesis using False by (simp add: url_encode_def)
  qed
qed

lemma no_nul_url_query:
  "url_safe safe \<Longrightarrow> \<forall>(a, v) \<in> set ps. valid_cstring a \<and> valid_cstring v \<Longrightarrow> no_nul (url_query safe ps)"
proof (induction safe ps rule: url_query.induct)
  case (2 safe a v)
  then show ?case
    using no_nul_url_encode [of safe v "[]"] by (auto simp: no_nul_simps intro!: no_nul_url_encode)
qed (auto simp: no_nul_simps intro!: no_nul_url_encode)

section \<open>Query strings and forms\<close>

lemma query_string_stream:
  assumes "no_nul q"
  shows "\<exists>ins. new_cad_input_stream_from_string True q = Some ins \<and> string_inv ins \<and> string_rest ins = q"
  using assms by (simp add: new_cad_input_stream_from_string_def string_inv_def string_rest_def no_nul_def)

text \<open>C4: \<open>query_string\<close> returns a table of the pairs of \<open>QUERY_STRING\<close> as the reference parser reads them,
  the last value of an attribute winning, and keeps it: a second call returns the same table without
  reading the environment.\<close>

theorem query_string_parses:
  assumes "mi_query_string this = NULL" "env ''QUERY_STRING'' = Some q" "no_nul q" "length q \<le> 2 ^ 27"
  shows "\<exists>t this' w'. query_string salt env w this = Some (Some t, this', w') \<and>
    (\<forall>k. hash_get t k = Some (map_of (rev (query_pairs q)) k)) \<and>
    query_string salt env' w'' this' = Some (Some t, this', w'')"
proof -
  obtain ins where ins: "new_cad_input_stream_from_string True q = Some ins" "string_inv ins" "string_rest ins = q"
    using query_string_stream [OF assms(3)] by blast
  then obtain t ins' w' where t: "parse_query_or_form string_input salt w ins = Some (t, ins', w')"
      "strings_inv t" "hash_abs t = store_pairs (query_pairs q) (\<lambda>_. None)"
    using string_in.parse_query_or_form_correct [of ins salt w] assms(3,4) by auto
  note get = hash_get_pairs [OF t(2,3)]
  show ?thesis
    using assms(1,2) ins(1) t(1) get by (simp add: query_string_def)
qed

definition meta0 :: "cad_input_stream_string meta_impl" where
  "meta0 = \<lparr>mi_auth_type = -2, mi_content_length = 0, mi_ct_type = NULL, mi_ct_subtype = NULL,
     mi_ct_parameters = \<lparr>hi_keys = cad_hash_strings, hi_capacity = 0, hi_count = 0, hi_salt = 0, hi_entries = [], hi_live = {#}\<rparr>,
     mi_gi_major = 0, mi_gi_minor = 0, mi_path_info = NULL, mi_path_translated = NULL, mi_query_string = NULL,
     mi_input_as_form = NULL, mi_remote_addr = NULL, mi_remote_host = NULL, mi_remote_ident = NULL,
     mi_remote_user = NULL, mi_request_method = NULL, mi_script_name = NULL, mi_server_name = NULL,
     mi_server_port = -1, mi_sp_protocol = NULL, mi_sp_major = 0, mi_sp_minor = 0, mi_server_software = NULL,
     mi_in = NULL\<rparr>"

lemma no_nul_no_pct: "valid_cstring q \<Longrightarrow> CHR ''%'' \<notin> set q \<Longrightarrow> no_nul q"
  by (auto simp: no_nul_def)

lemma query_string_parses_witness:
  "\<exists>t this' w'. query_string (\<lambda>u. (0, u)) [''QUERY_STRING'' \<mapsto> ''foo=b+r&foo=x&y=''] () meta0 = Some (Some t, this', w') \<and>
     hash_get t ''foo'' = Some (Some ''x'') \<and> hash_get t ''y'' = Some (Some '''') \<and> hash_get t ''z'' = Some NULL"
proof -
  have "query_pairs ''foo=b+r&foo=x&y='' = [(''foo'', ''b r''), (''foo'', ''x''), (''y'', '''')]"
    by (simp add: query_pairs.simps query_attribute.simps(2) query_value.simps(2))
  then show ?thesis
    using query_string_parses [of meta0 "[''QUERY_STRING'' \<mapsto> ''foo=b+r&foo=x&y='']" "''foo=b+r&foo=x&y=''" "\<lambda>u. (0, u)" "()"
        Map.empty "()"] no_nul_no_pct [of "''foo=b+r&foo=x&y=''"]
    by (fastforce simp: meta0_def)
qed

text \<open>C24: a list of pairs in percent encoding, whatever the bytes that the client leaves as they are, is read
  back: each attribute is bound to the last value that the list gives it.\<close>

theorem query_round_trip:
  assumes "url_safe safe" "\<forall>(a, v) \<in> set ps. a \<noteq> [] \<and> valid_cstring a \<and> valid_cstring v"
    and "mi_query_string this = NULL" "env ''QUERY_STRING'' = Some (url_query safe ps)" "length (url_query safe ps) \<le> 2 ^ 27"
  shows "\<exists>t this' w'. query_string salt env w this = Some (Some t, this', w') \<and>
    (\<forall>k. hash_get t k = Some (map_of (rev ps) k))"
proof -
  have nn: "no_nul (url_query safe ps)" by (rule no_nul_url_query [OF assms(1)]) (use assms(2) in auto)
  have qp: "query_pairs (url_query safe ps) = ps"
    by (rule query_pairs_encoded [OF assms(1)]) (use assms(2) in auto)
  obtain ins where ins: "new_cad_input_stream_from_string True (url_query safe ps) = Some ins" "string_inv ins"
      "string_rest ins = url_query safe ps"
    using query_string_stream [OF nn] by blast
  then obtain t ins' w' where t: "parse_query_or_form string_input salt w ins = Some (t, ins', w')"
      "strings_inv t" "hash_abs t = store_pairs ps (\<lambda>_. None)"
    using string_in.parse_query_or_form_correct [of ins salt w] nn assms(5) qp by auto
  note get = hash_get_pairs [OF t(2,3)]
  show ?thesis
    using assms(3,4) ins(1) t(1) get by (simp add: query_string_def)
qed

lemma query_round_trip_witness:
  "\<exists>t this' w'. query_string (\<lambda>u. (0, u))
       [''QUERY_STRING'' \<mapsto> url_query (\<lambda>_. False) [(''a=b'', ''c&d''), (''e'', ''%'')]] () meta0 = Some (Some t, this', w') \<and>
     hash_get t ''a=b'' = Some (Some ''c&d'') \<and> hash_get t ''e'' = Some (Some ''%'')"
  using query_round_trip [of "\<lambda>_. False" "[(''a=b'', ''c&d''), (''e'', ''%'')]" meta0
      "[''QUERY_STRING'' \<mapsto> url_query (\<lambda>_. False) [(''a=b'', ''c&d''), (''e'', ''%'')]]" "\<lambda>u. (0, u)" "()"]
  by (fastforce simp: meta0_def url_safe_def url_encode_def escape_char_def)

text \<open>C25: a form read from a file descriptor gives the table of its pairs, however the reads split its bytes.\<close>

theorem form_parses_over_fd:
  assumes "mi_input_as_form this = NULL" "mi_in this = Some ins"
    and "new_cad_input_stream_from_file_descriptor True fd = Some (Some ins)"
    and "fd_ok fd" "no_nul (fd_bytes fd)" "length (fd_bytes fd) \<le> 2 ^ 27"
  shows "\<exists>t this' w'. input_as_form fd_input salt w this = Some (Some t, this', w') \<and>
    (\<forall>k. hash_get t k = Some (map_of (rev (query_pairs (fd_bytes fd))) k))"
proof -
  have ins: "fd_inv ins" "fd_rest ins = fd_bytes fd"
    using new_fd_stream [OF assms(4)] assms(3) by auto
  then obtain t ins' w' where t: "parse_query_or_form fd_input salt w ins = Some (t, ins', w')"
      "strings_inv t" "hash_abs t = store_pairs (query_pairs (fd_bytes fd)) (\<lambda>_. None)"
    using input_stream.parse_query_or_form_correct [OF fd_in.input_stream_axioms, of ins salt w] assms(5,6) by auto
  note get = hash_get_pairs [OF t(2,3)]
  show ?thesis
    using assms(1,2) t(1) get by (simp add: input_as_form_def)
qed

definition meta_fd :: "c_fd \<Rightarrow> cad_input_stream_file_descriptor meta_impl option" where
  "meta_fd fd = do {
     ins \<leftarrow> new_cad_input_stream_from_file_descriptor True fd;
     map_option fst (new_meta NULL NULL (\<lambda>u. (0, u)) Map.empty () ins)
   }"

definition form_reads :: c_fd where
  "form_reads = \<lparr>fd_reads = [Data ''fo'', Data ''o=b'', Data ''ar'']\<rparr>"

lemma form_parses_over_fd_witness:
  "\<exists>m t this' w'. meta_fd form_reads = Some m \<and>
     input_as_form fd_input (\<lambda>u. (0, u)) () m = Some (Some t, this', w') \<and> hash_get t ''foo'' = Some (Some ''bar'')"
proof -
  have ok: "fd_ok form_reads" "fd_bytes form_reads = ''foo=bar''"
    by (simp_all add: form_reads_def fd_ok_def fd_bytes_def)
  obtain ins where ins: "new_cad_input_stream_from_file_descriptor True form_reads = Some (Some ins)"
    using new_fd_stream [OF ok(1)] by blast
  obtain m where m: "meta_fd form_reads = Some m" "mi_in m = Some ins" "mi_input_as_form m = NULL"
    by (simp add: meta_fd_def ins new_meta_def cad_new_hash_def)
  have "query_pairs ''foo=bar'' = [(''foo'', ''bar'')]"
    by (simp add: query_pairs.simps query_attribute.simps(2) query_value.simps(2))
  then show ?thesis
    using form_parses_over_fd [OF m(3,2) ins ok(1), of "\<lambda>u. (0, u)" "()"] ok(2) no_nul_no_pct [of "''foo=bar''"] m(1)
    by fastforce
qed

section \<open>Content type and versions\<close>

text \<open>C26: \<open>content_type\<close> splits the type from the subtype, and stores the parameter \<open>a=v\<close> with each
  character of \<open>v\<close> twice: the case that reads a value falls through into the one that reads a quoted
  value.\<close>

theorem content_type_doubles_parameter:
  assumes "mi_ct_type this = NULL" "env ''CONTENT_TYPE'' = Some (t @ ''/'' @ st @ '';'' @ a @ ''='' @ v)"
    and "valid_cstring (t @ st @ a @ v)" "t \<noteq> []" "st \<noteq> []" "a \<noteq> []" "v \<noteq> []"
    and "CHR ''/'' \<notin> set t" "CHR '';'' \<notin> set st" "CHR ''='' \<notin> set a" "CHR '';'' \<notin> set v" "CHR 0x22 \<notin> set v"
    and "2 * (length t + length st + length a + 2 * length v + 3) \<le> INT_MAX"
    and "table_inv cad_hash_strings (mi_ct_parameters this)" "table_weight (mi_ct_parameters this) \<le> 2 ^ 29"
  shows "\<exists>this' tb sb. content_type env this = Some this' \<and>
    mi_ct_type this' = Some tb \<and> c_string tb = Some t \<and> mi_ct_subtype this' = Some sb \<and> c_string sb = Some st \<and>
    hash_get (mi_ct_parameters this') a = Some (Some (concat (map (\<lambda>c. [c, c]) v)))"
proof -
  let ?s0 = "\<lparr>cs_s = 0, cs_type = NULL, cs_subtype = mi_ct_subtype this, cs_attribute = NULL, cs_value = NULL,
    cs_out = new_string_stream, cs_target = To_Type, cs_parameters = mi_ct_parameters this\<rparr>"
  have s0: "content_at ?s0 []" "cs_s ?s0 = 0" "cs_target ?s0 = To_Type"
    by (simp_all add: content_at_def content_write_def)
  obtain s tb sb where s: "content_loop ?s0 (t @ CHR ''/'' # st @ CHR '';'' # a @ CHR ''='' # v) =
        content_loop s (CHR '';'' # a @ CHR ''='' # v)"
      "cs_s s = 1" "cs_type s = Some tb" "c_string tb = Some t" "cs_subtype s = Some sb" "c_string sb = Some st"
      "cs_parameters s = mi_ct_parameters this"
    using content_loop_media [OF _ assms(8,9,4,5) _ s0, of "CHR '';'' # a @ CHR ''='' # v"] assms(3,13) by auto
  obtain s' ab vb where s': "content_loop s (CHR '';'' # a @ CHR ''='' # v) = Some s'" "cs_s s' = 3"
      "cs_type s' = cs_type s" "cs_subtype s' = cs_subtype s" "cs_parameters s' = cs_parameters s"
      "cs_attribute s' = Some ab" "c_string ab = Some a" "cs_value s' = Some vb"
      "c_string vb = Some (concat (map (\<lambda>c. [c, c]) v))"
    using content_loop_parameter [OF _ assms(10,11,12,6,7) _ s(2)] assms(3,13) by auto
  obtain tab where tab: "hash_set (mi_ct_parameters this) a (Some (concat (map (\<lambda>c. [c, c]) v))) =
        Some (or_null (hash_abs (mi_ct_parameters this) a), tab)" "table_inv cad_hash_strings tab"
      "hash_abs tab = (\<lambda>k. if k = a then Some (Some (concat (map (\<lambda>c. [c, c]) v))) else hash_abs (mi_ct_parameters this) k)"
    using string_table.set_law [OF assms(14,15), of a] by fastforce
  have "content_set s' = Some (s'\<lparr>cs_parameters := tab\<rparr>)"
    using s'(5-9) s(7) tab(1) by (simp add: content_set_def)
  moreover have "hash_get tab a = Some (Some (concat (map (\<lambda>c. [c, c]) v)))"
    using string_table.get_law [OF tab(2), of a] tab(3) by (simp add: or_null_def)
  ultimately show ?thesis
    using assms(1,2,4) s s' by (simp add: content_type_def)
qed

lemma content_type_doubles_parameter_witness:
  "\<exists>this'. content_type [''CONTENT_TYPE'' \<mapsto> ''text/plain;charset=utf''] meta0 = Some this' \<and>
     hash_get (mi_ct_parameters this') ''charset'' = Some (Some ''uuttff'')"
proof -
  obtain t :: string_table where t: "cad_new_hash True (\<lambda>u. (0, u)) () cad_hash_strings = (Some t, ())"
    "mi_ct_parameters meta0 = t"
    by (simp add: cad_new_hash_def meta0_def)
  show ?thesis
    using content_type_doubles_parameter [of meta0 "[''CONTENT_TYPE'' \<mapsto> ''text/plain;charset=utf'']" "''text''" "''plain''"
        "''charset''" "''utf''"] new_table [OF t(1)] t(2)
    by (auto simp: meta0_def INT_MAX_def)
qed

text \<open>C27: the version numbers that a server prints in \<open>GATEWAY_INTERFACE\<close> and \<open>SERVER_PROTOCOL\<close> are read back,
  and \<open>server_protocol\<close> leaves only the name of the protocol in the environment.\<close>

theorem versions_round_trip:
  assumes "int major + 57 \<le> int INT_MAX" "int minor + 57 \<le> int INT_MAX"
    and "mi_gi_major this = 0" "mi_gi_minor this = 0" "mi_sp_protocol this = NULL" "CHR ''/'' \<notin> set p"
    and "env ''GATEWAY_INTERFACE'' = Some (''CGI/'' @ decimal major @ ''.'' @ decimal minor)"
    and "env ''SERVER_PROTOCOL'' = Some (p @ ''/'' @ decimal major @ ''.'' @ decimal minor)"
  shows "gateway_interface env this = Some (this\<lparr>mi_gi_major := int major, mi_gi_minor := int minor\<rparr>) \<and>
    server_protocol env this = Some (env(''SERVER_PROTOCOL'' \<mapsto> p),
      this\<lparr>mi_sp_protocol := Some p, mi_sp_major := int major, mi_sp_minor := int minor\<rparr>)"
proof -
  have "takeWhile (\<lambda>c. c \<noteq> CHR ''/'') (p @ CHR ''/'' # xs) = p" "dropWhile (\<lambda>c. c \<noteq> CHR ''/'') (p @ CHR ''/'' # xs) = CHR ''/'' # xs"
    for xs
    using assms(6) by (auto simp: takeWhile_append dropWhile_append)
  then show ?thesis
    using assms gateway_loop_version [OF assms(1,2)] protocol_loop_version [OF assms(1,2)]
    by (simp add: gateway_interface_def server_protocol_def Let_def)
qed

lemma versions_round_trip_witness:
  "\<exists>m. gateway_interface [''GATEWAY_INTERFACE'' \<mapsto> ''CGI/1.1'', ''SERVER_PROTOCOL'' \<mapsto> ''HTTP/1.1''] meta0 = Some m \<and>
     mi_gi_major m = 1 \<and> mi_gi_minor m = 1"
proof -
  have "decimal 1 = ''1''" by (simp add: decimal.simps digit_char_def)
  then show ?thesis
    using versions_round_trip [of 1 1 meta0 "''HTTP''" "[''GATEWAY_INTERFACE'' \<mapsto> ''CGI/1.1'', ''SERVER_PROTOCOL'' \<mapsto> ''HTTP/1.1'']"]
    by (simp add: meta0_def INT_MAX_def)
qed

section \<open>The response\<close>

text \<open>C28: a flush of a response writes, in this order, the content type or \<open>text/plain\<close>, the status or 200, the
  location with its fragment if it has one, each header of the table with its value, the \<open>Set-Cookie\<close> line of each
  changed cookie of the jar, an empty line, and the body with its line ends normalised; and it leaves no
  cookie changed. On any output stream that keeps its contract.\<close>

theorem flush_response_prints:
  assumes "output_stream ops written ok limit" "response_ok this addrs cs" "ok out"
    and "length (written out) + length (response_output this addrs cs) \<le> limit"
  shows "\<exists>this' out'. flush_response ops this out = Some (this', out') \<and>
    written out' = written out @
      ''Content-Type: '' @ (case rs_content_type this of None \<Rightarrow> ''text/plain'' | Some t \<Rightarrow> t) @ [CHR 0x0D, CHR 0x0A] @
      ''Status: '' @ (if rs_status this = 0 then ''200'' else format_int (rs_status this)) @ [CHR 0x0D, CHR 0x0A] @
      (case rs_redirect_path this of
         None \<Rightarrow> []
       | Some p \<Rightarrow>
           ''Location: '' @ p @
           (case rs_redirect_fragment this of Some (f # fs) \<Rightarrow> ''#'' @ f # fs | _ \<Rightarrow> []) @ [CHR 0x0D, CHR 0x0A]) @
      concat (map (\<lambda>(k, v). k @ '': '' @ (case v of None \<Rightarrow> [] | Some v \<Rightarrow> v) @ [CHR 0x0D, CHR 0x0A])
        (table_pairs (rs_headers this))) @
      concat (map (\<lambda>a. case cm_cookies (store (rs_cookies this)) a of
          None \<Rightarrow> [] | Some c \<Rightarrow> if ck_changed c then set_cookie_line c else []) addrs) @
      [CHR 0x0D, CHR 0x0A] @ normal_lines cs \<and>
    (\<forall>a \<in> set addrs. \<forall>c. cm_cookies (store (rs_cookies this')) a = Some c \<longrightarrow> \<not> ck_changed c)"
proof -
  obtain out' where o: "flush_response ops this out =
      Some (this\<lparr>rs_cookies := (rs_cookies this)\<lparr>store := unchanged (store (rs_cookies this)) (set addrs)\<rparr>\<rparr>, out')"
      "written out' = written out @ response_output this addrs cs"
    using output_stream.flush_response_total [OF assms(1,2,3,4)] by blast
  then show ?thesis
    unfolding response_output_def response_head_def headers_output_def cookie_output_def append_assoc
    by (intro exI conjI) (assumption, assumption, auto simp: unchanged_def)
qed

text \<open>A response with a status, a type, a redirection, a header, a cookie to print and a body.\<close>

definition small_response :: "cad_input_stream_string response_impl" where
  "small_response =
     \<lparr>rs_cookies = \<lparr>jar = new_strings, store = \<lparr>cm_cookies = Map.empty, cm_next = 0\<rparr>\<rparr>,
      rs_body_stream = \<lparr>oss_string = Some [Some CHR ''h'', Some CHR ''i'', Some (CHR 0x0A), Some NUL],
                        oss_capacity = 4, oss_count = 3\<rparr>,
      rs_redirect_path = NULL, rs_redirect_fragment = NULL, rs_status = 0, rs_content_type = NULL,
      rs_headers = mi_ct_parameters meta0, rs_meta = meta0, rs_fd = -1\<rparr>"

definition dated_cookie :: cookie_impl where
  "dated_cookie =
     \<lparr>ck_changed = True, ck_name = ''id'', ck_value = Owned ''1=2'', ck_expires = 784111777, ck_max_age = 0, ck_flag = 3,
      ck_domain = Some ''d.org'', ck_path = Some ''/''\<rparr>"

definition dated_line :: cstring where
  "dated_line = ''Set-Cookie: id=1%3d2; Expires=Sun, 06 Nov 1994 08:49:37 GMT; Domain=d.org; Path=/; Secure; HttpOnly'' @
     [CHR 0x0D, CHR 0x0A]"

lemma dated_date: "http_date 784111777 = ''Sun, 06 Nov 1994 08:49:37 GMT''" "tm_year (gmtime 784111777) = 1994"
  by code_simp+

lemma dated_cookie_printable: "cookie_printable dated_cookie" "set_cookie_line dated_cookie = dated_line"
proof -
  have "length (format_int 1994) \<le> 4" by code_simp
  then show "cookie_printable dated_cookie"
    by (simp add: cookie_printable_def dated_cookie_def dated_date)
  show "set_cookie_line dated_cookie = dated_line"
    by (simp add: set_cookie_line_def dated_cookie_def dated_line_def dated_date escape_value_def)
qed

lemma flush_response_prints_witness:
  "\<exists>j headers this' out'. hash_set new_strings ''id'' (Some 0) = Some (NULL, j) \<and>
     hash_set (rs_headers small_response) ''X-A'' (Some ''b'') = Some (NULL, headers) \<and>
     flush_response string_output
       (small_response\<lparr>rs_cookies := \<lparr>jar = j, store = \<lparr>cm_cookies = [0 \<mapsto> dated_cookie], cm_next = 1\<rparr>\<rparr>, rs_headers := headers,
          rs_status := 301, rs_content_type := Some ''text/html'',
          rs_redirect_path := Some ''/x'', rs_redirect_fragment := Some ''top''\<rparr>) new_string_stream = Some (this', out') \<and>
     string_written out' = ''Content-Type: text/html'' @ CRLF @ ''Status: 301'' @ CRLF @ ''Location: /x#top'' @ CRLF @
       ''X-A: b'' @ CRLF @ dated_line @ CRLF @ ''hi'' @ CRLF"
proof -
  obtain j :: "(cstring, nat) cad_hash_impl" where j: "hash_set new_strings ''id'' (Some 0) = Some (NULL, j)"
      "table_inv cad_hash_strings j" "table_values j = [Some 0]"
    by (rule single_table [OF new_strings_created, of "''id''" "Some 0"]) (rule that)
  have new: "cad_new_hash True (\<lambda>u. (0, u)) () cad_hash_strings = (Some (rs_headers small_response), ())"
    by (simp add: cad_new_hash_def small_response_def meta0_def)
  obtain headers :: string_table where h: "hash_set (rs_headers small_response) ''X-A'' (Some ''b'') = Some (NULL, headers)"
      "table_inv cad_hash_strings headers" "table_pairs headers = [(''X-A'', Some ''b'')]"
    by (rule single_table [OF new, of "''X-A''" "Some ''b''"]) (rule that)
  let ?r = "small_response\<lparr>rs_cookies := \<lparr>jar = j, store = \<lparr>cm_cookies = [0 \<mapsto> dated_cookie], cm_next = 1\<rparr>\<rparr>,
      rs_headers := headers, rs_status := 301, rs_content_type := Some ''text/html'',
      rs_redirect_path := Some ''/x'', rs_redirect_fragment := Some ''top''\<rparr>"
  have ok: "response_ok ?r [0] (''hi'' @ [CHR 0x0A])"
    using j(2,3) h(2,3) dated_cookie_printable(1)
    by (simp add: response_ok_def small_response_def table_inv_def rs_body_def c_string_def printable_def)
  have d: "ck_changed dated_cookie" by (simp add: dated_cookie_def)
  have "format_int 301 = ''301''" by code_simp
  then have e: "response_output ?r [0] (''hi'' @ [CHR 0x0A]) =
      ''Content-Type: text/html'' @ CRLF @ ''Status: 301'' @ CRLF @ ''Location: /x#top'' @ CRLF @
       ''X-A: b'' @ CRLF @ dated_line @ CRLF @ ''hi'' @ CRLF"
    using h(3) d dated_cookie_printable(2)
    by (simp add: response_output_def response_head_def headers_output_def cookie_output_def small_response_def CRLF_def)
  have room: "length (string_written new_string_stream) + length (response_output ?r [0] (''hi'' @ [CHR 0x0A])) \<le> INT_MAX div 2 - 1"
    unfolding e using new_string_stream_inv by (simp add: INT_MAX_def CRLF_def dated_line_def)
  from flush_response_prints [OF string_out.output_stream_axioms ok new_string_stream_inv(1) room]
  obtain this' out' where f: "flush_response string_output ?r new_string_stream = Some (this', out')"
      "string_written out' = string_written new_string_stream @ response_output ?r [0] (''hi'' @ [CHR 0x0A])"
    unfolding response_output_def response_head_def headers_output_def cookie_output_def append_assoc by blast
  then show ?thesis using j(1) h(1) e new_string_stream_inv by auto
qed

text \<open>The body goes to the output with every CR LF, lone LF and lone CR written as CR LF, except a CR that
  ends the body, and nothing else changed; a body that is already in that form goes out as it is.\<close>

theorem flush_body_normalises:
  assumes "output_stream ops written ok limit" "ok out" "c_string buf = Some cs" "valid_cstring cs"
    and "length (written out) + length (normal_lines cs) \<le> limit"
  shows "(\<exists>out'. flush_body ops (Some buf) out = Some out' \<and> ok out' \<and> written out' = written out @ normal_lines cs) \<and>
    normal_lines (normal_lines cs) = normal_lines cs \<and> (CHR 0x0D \<notin> set cs \<and> CHR 0x0A \<notin> set cs \<longrightarrow> normal_lines cs = cs)"
proof -
  have "CHR 0x0D \<notin> set cs \<and> CHR 0x0A \<notin> set cs \<Longrightarrow> normal_lines cs = cs" by (induction cs) auto
  then show ?thesis
    using output_stream.flush_body_total [OF assms] normal_lines_idem by blast
qed

lemma flush_body_normalises_witness:
  "\<exists>out'. flush_body string_output (Some [Some CHR ''a'', Some (CHR 0x0D), Some CHR ''b'', Some (CHR 0x0A), Some NUL])
       new_string_stream = Some out' \<and> string_written out' = ''a'' @ CRLF @ ''b'' @ CRLF"
  using flush_body_normalises [OF string_out.output_stream_axioms new_string_stream_inv(1),
      of "[Some CHR ''a'', Some (CHR 0x0D), Some CHR ''b'', Some (CHR 0x0A), Some NUL]" "''a'' @ [CHR 0x0D] @ ''b'' @ [CHR 0x0A]"]
  by (auto simp: c_string_def CRLF_def INT_MAX_def)

text \<open>C29: a redirection is accepted only while nothing has been put into the body, and a flush of a response without
  a body reads through a \<open>NULL\<close> pointer: flushing right after a successful \<open>redirect\<close> is undefined.\<close>

theorem redirect_flush_faults:
  assumes "redirect m1 m2 this path fragment = (0, this')"
  shows "rs_body this = NULL \<and> rs_redirect_path this' = path \<and> rs_redirect_fragment this' = fragment \<and>
    flush_response ops this' out = None"
proof -
  from assms have "rs_body this = NULL" "rs_body this' = NULL" "rs_redirect_path this' = path"
      "rs_redirect_fragment this' = fragment"
    by (auto simp: redirect_def rs_body_def split: option.splits if_splits)
  then show ?thesis
    by (auto simp: flush_response_def flush_body_def split: bind_splits)
qed

lemma redirect_flush_faults_witness:
  "\<exists>this'. redirect True True (small_response\<lparr>rs_body_stream := new_string_stream\<rparr>) (Some ''/x'') (Some '''') = (0, this') \<and>
     flush_response string_output this' new_string_stream = None"
proof -
  obtain this' where r: "redirect True True (small_response\<lparr>rs_body_stream := new_string_stream\<rparr>) (Some ''/x'') (Some '''') = (0, this')"
    by (simp add: redirect_def rs_body_def)
  from redirect_flush_faults [OF r, of string_output new_string_stream] r show ?thesis by blast
qed

section \<open>Cookies\<close>

text \<open>C30: parsing the value of a cookie never writes past the bytes it has allocated, wherever the value starts and
  ends and whatever escapes it holds, truncated ones included.\<close>

theorem cookie_value_fits:
  "\<exists>v. parse_cookie_value s start finish = Some v"
  unfolding parse_cookie_value_def Let_def by (rule value_decode_safe) (simp add: decode_cost_def)

text \<open>C31: the cookies of a request are read back from its \<open>Cookie\<close> header: with values encoded as \<open>flush_cookies\<close>
  encodes them, every name is bound to a fresh unchanged cookie that holds its last value, and no other name is bound.\<close>

theorem cookie_header_round_trip:
  assumes "\<forall>p \<in> set ps. valid_pair p" "3 * length ps + 4 \<le> 2 ^ 29" "fresh \<noteq> Wild"
    and "env ''HTTP_COOKIE'' = Some (cookie_header ps)"
  shows "\<exists>this w'. new_cookies fresh salt w env m = Some (this, w') \<and>
    (\<forall>n. case map_of (rev ps) n of
       None \<Rightarrow> cookies_get this n = Some NULL
     | Some v \<Rightarrow> \<exists>addr. cookies_get this n = Some (Some addr) \<and> cm_cookies (store this) addr = Some (plain_cookie n v))"
proof -
  obtain j :: "(cstring, nat) cad_hash_impl" and w' where new: "cad_new_hash True salt w cad_hash_strings = (Some j, w')"
    by (cases "salt w") (simp add: cad_new_hash_def)
  let ?start = "\<lparr>jar = j, store = m\<rparr>"
  have h: "jar_holds m ?start []"
    using new_table [OF new] by (simp add: jar_holds_def jar_frame_def)
  have "\<exists>this'. parse_cookies fresh (cookie_header ps) ?start = Some this' \<and> jar_holds m this' ps"
  proof (cases ps)
    case Nil
    then show ?thesis using h by (simp add: parse_cookies_def parse_cookies_loop.simps)
  next
    case (Cons p ps')
    then have "cookie_header ps \<noteq> []" by (cases p; cases ps') auto
    then show ?thesis
      using loop_header [OF assms(3,1) _ h, of 0 "[]" 0] assms(2) Cons by (simp add: parse_cookies_def)
  qed
  then obtain this' where t: "parse_cookies fresh (cookie_header ps) ?start = Some this'" "jar_holds m this' ps"
    by blast
  then have "new_cookies fresh salt w env m = Some (this', w')"
    using new assms(4) by (simp add: new_cookies_def)
  moreover have "case map_of (rev ps) n of
       None \<Rightarrow> cookies_get this' n = Some NULL
     | Some v \<Rightarrow> \<exists>addr. cookies_get this' n = Some (Some addr) \<and> cm_cookies (store this') addr = Some (plain_cookie n v)" for n
  proof -
    have "cookies_get this' n = Some (or_null (hash_abs (jar this') n))"
      using string_table.get_law [of "jar this'" n] t(2) by (simp add: cookies_get_def jar_holds_def)
    moreover have "case map_of (rev ps) n of
          None \<Rightarrow> hash_abs (jar this') n = None
        | Some v \<Rightarrow> \<exists>addr. hash_abs (jar this') n = Some (Some addr) \<and> cm_cookies (store this') addr = Some (plain_cookie n v)"
      using t(2) unfolding jar_holds_def by blast
    ultimately show ?thesis by (cases "map_of (rev ps) n") (auto simp: or_null_def)
  qed
  ultimately show ?thesis by blast
qed

lemma cookie_header_round_trip_witness:
  "\<exists>this w' addr. new_cookies Null_Value (\<lambda>u. (0, u)) () [''HTTP_COOKIE'' \<mapsto> ''a=1; b=x%3dy''] \<lparr>cm_cookies = Map.empty, cm_next = 0\<rparr>
       = Some (this, w') \<and>
     cookies_get this ''b'' = Some (Some addr) \<and> cm_cookies (store this) addr = Some (plain_cookie ''b'' ''x=y'')"
proof -
  have "\<exists>this w'. new_cookies Null_Value (\<lambda>u. (0, u)) () [''HTTP_COOKIE'' \<mapsto> ''a=1; b=x%3dy'']
        \<lparr>cm_cookies = Map.empty, cm_next = 0\<rparr> = Some (this, w') \<and>
      (\<forall>n. case map_of (rev [(''a'', ''1''), (''b'', ''x=y'')]) n of
         None \<Rightarrow> cookies_get this n = Some NULL
       | Some v \<Rightarrow> \<exists>addr. cookies_get this n = Some (Some addr) \<and> cm_cookies (store this) addr = Some (plain_cookie n v))"
    by (rule cookie_header_round_trip) (simp_all add: valid_pair_def escape_value_def)
  then show ?thesis by (auto dest!: spec [of _ "''b''"])
qed

text \<open>C32: a cookie that is in the jar and is set again is released while the jar still holds its address: what
  \<open>get\<close> returns afterwards is dangling.\<close>

theorem set_same_cookie_dangles:
  assumes "table_inv cad_hash_strings (jar this)" "table_weight (jar this) \<le> 2 ^ 29"
    and "cm_cookies (store this) addr = Some c" "ck_value c \<noteq> Wild" "cookies_get this (ck_name c) = Some (Some addr)"
  shows "\<exists>this'. cookies_set this addr = Some (0, this') \<and>
    cookies_get this' (ck_name c) = Some (Some addr) \<and> cm_cookies (store this') addr = None"
proof -
  have o: "or_null (hash_abs (jar this) (ck_name c)) = Some addr"
    using assms(5) string_table.get_law [OF assms(1)] by (simp add: cookies_get_def)
  obtain j where j: "hash_set (jar this) (ck_name c) (Some addr) = Some (Some addr, j)"
      "table_inv cad_hash_strings j" "hash_abs j (ck_name c) = Some (Some addr)"
    using string_table.set_law [OF assms(1,2), of "ck_name c" "Some addr"] o by auto
  then have "cookies_set this addr = Some (0, this\<lparr>jar := j,
      store := (store this)\<lparr>cm_cookies := (cm_cookies (store this))(addr := None)\<rparr>\<rparr>)"
    using assms(3,4) by (simp add: cookies_set_def free_cookie_def)
  then show ?thesis
    using string_table.get_law [OF j(2), of "ck_name c"] j(3) by (simp add: cookies_get_def or_null_def)
qed

lemma set_same_cookie_dangles_witness:
  "\<exists>this this' addr. cookies_get this ''a'' = Some (Some addr) \<and> cookies_set this addr = Some (0, this') \<and>
     cookies_get this' ''a'' = Some (Some addr) \<and> cm_cookies (store this') addr = None"
proof -
  obtain j :: "(cstring, nat) cad_hash_impl" where new: "cad_new_hash True (\<lambda>u. (0, u)) () cad_hash_strings = (Some j, ())"
    by (simp add: cad_new_hash_def)
  have "jar_holds \<lparr>cm_cookies = Map.empty, cm_next = 0\<rparr> \<lparr>jar = j, store = \<lparr>cm_cookies = Map.empty, cm_next = 0\<rparr>\<rparr> []"
    using new_table [OF new] by (simp add: jar_holds_def jar_frame_def)
  then obtain this where t: "jar_holds \<lparr>cm_cookies = Map.empty, cm_next = 0\<rparr> this ([] @ [(''a'', ''1'')])"
    by (rule jar_holds_add [of _ _ _ "''a''" "''1''"]) simp_all
  then have "case map_of (rev [(''a'', ''1'')]) ''a'' of
          None \<Rightarrow> hash_abs (jar this) ''a'' = None
        | Some v \<Rightarrow> \<exists>addr. hash_abs (jar this) ''a'' = Some (Some addr) \<and> cm_cookies (store this) addr = Some (plain_cookie ''a'' v)"
    unfolding jar_holds_def append_Nil by blast
  then obtain addr where a: "hash_abs (jar this) ''a'' = Some (Some addr)" "cm_cookies (store this) addr = Some (plain_cookie ''a'' ''1'')"
    by auto
  have i: "table_inv cad_hash_strings (jar this)" "table_weight (jar this) \<le> 2 ^ 29"
    using t by (simp_all add: jar_holds_def)
  have g: "cookies_get this ''a'' = Some (Some addr)"
    using string_table.get_law [OF i(1), of "''a''"] a(1) by (simp add: cookies_get_def or_null_def)
  have p: "ck_value (plain_cookie ''a'' ''1'') \<noteq> Wild" "ck_name (plain_cookie ''a'' ''1'') = ''a''"
    by (simp_all add: plain_cookie_def)
  from set_same_cookie_dangles [OF i a(2) p(1)] g p(2) show ?thesis by auto
qed

text \<open>C33: flushing the jar prints the \<open>Set-Cookie\<close> line of each changed cookie once, in the order of the table, nothing
  for the others, and marks every cookie unchanged: the next flush prints nothing.\<close>

theorem flush_cookies_once:
  assumes "output_stream ops written ok limit"
    and "hash_inv (jar this)" "table_values (jar this) = map Some addrs" "distinct addrs" "printable (store this) addrs"
    and "ok out" "length (written out) + length (concat (map (cookie_output (store this)) addrs)) \<le> limit"
  shows "\<exists>this' out' out''. flush_cookies ops this out = Some (this', out') \<and>
    written out' = written out @ concat (map (\<lambda>a. case cm_cookies (store this) a of
        None \<Rightarrow> [] | Some c \<Rightarrow> if ck_changed c then set_cookie_line c else []) addrs) \<and>
    (\<forall>a \<in> set addrs. \<forall>c. cm_cookies (store this') a = Some c \<longrightarrow> \<not> ck_changed c) \<and>
    flush_cookies ops this' out' = Some (this', out'') \<and> written out'' = written out'"
proof -
  let ?this' = "this\<lparr>store := unchanged (store this) (set addrs)\<rparr>"
  obtain out' where o: "flush_cookies ops this out = Some (?this', out')" "ok out'"
      "written out' = written out @ concat (map (cookie_output (store this)) addrs)"
    using output_stream.flush_cookies_prints [OF assms] by blast
  have e: "concat (map (cookie_output (store ?this')) addrs) = []"
    by (simp add: cookie_output_unchanged)
  have len: "length (written out') + length (concat (map (cookie_output (store ?this')) addrs)) \<le> limit"
    unfolding e using o(3) assms(7) by simp
  have "printable (store ?this') addrs" using printable_unchanged [OF assms(5)] by simp
  from output_stream.flush_cookies_prints [OF assms(1) _ _ assms(4) this o(2) len] assms(2,3)
  have "\<exists>out''. flush_cookies ops ?this' out' =
        Some (?this'\<lparr>store := unchanged (store ?this') (set addrs)\<rparr>, out'') \<and> ok out'' \<and>
      written out'' = written out' @ concat (map (cookie_output (store ?this')) addrs)"
    by simp
  then obtain out'' where "flush_cookies ops ?this' out' =
        Some (?this'\<lparr>store := unchanged (store ?this') (set addrs)\<rparr>, out'')" "written out'' = written out'"
    using e by auto
  moreover have "\<forall>a \<in> set addrs. \<forall>c. cm_cookies (store ?this') a = Some c \<longrightarrow> \<not> ck_changed c"
    by (auto simp: unchanged_def)
  ultimately show ?thesis
    using o unfolding cookie_output_def [abs_def] by (auto simp: unchanged_idem)
qed

lemma flush_cookies_once_witness:
  "\<exists>j this' out' out''. hash_set new_strings ''id'' (Some 0) = Some (NULL, j) \<and>
     flush_cookies string_output \<lparr>jar = j, store = \<lparr>cm_cookies = [0 \<mapsto> dated_cookie], cm_next = 1\<rparr>\<rparr> new_string_stream
       = Some (this', out') \<and> string_written out' = dated_line \<and>
     flush_cookies string_output this' out' = Some (this', out'') \<and> string_written out'' = dated_line"
proof -
  obtain j :: "(cstring, nat) cad_hash_impl" where j: "hash_set new_strings ''id'' (Some 0) = Some (NULL, j)"
      "table_inv cad_hash_strings j" "table_values j = [Some 0]"
    by (rule single_table [OF new_strings_created, of "''id''" "Some 0"]) (rule that)
  let ?m = "\<lparr>cm_cookies = [0 \<mapsto> dated_cookie], cm_next = 1\<rparr>"
  have p: "printable ?m [0]" using dated_cookie_printable(1) by (simp add: printable_def)
  have d: "ck_changed dated_cookie" by (simp add: dated_cookie_def)
  then have o: "concat (map (cookie_output ?m) [0]) = dated_line"
    using dated_cookie_printable(2) by (simp add: cookie_output_def)
  have len: "length dated_line \<le> INT_MAX div 2 - 1" by (simp add: INT_MAX_def dated_line_def)
  show ?thesis
    using flush_cookies_once [OF string_out.output_stream_axioms, of "\<lparr>jar = j, store = ?m\<rparr>" "[0]" new_string_stream]
      j p o d len dated_cookie_printable(2) new_string_stream_inv
    by (auto simp: table_inv_def)
qed

end
