(* ===== verification/Cad_Cgi_Session.thy ===== *)
theory Cad_Cgi_Session
  imports Cad_Cgi_Props
begin

text \<open>
  A whole request: the runner (\<open>run\<close> of src/cad_cgi.c) with a handler of the client. A handler is a tree of
  the calls it makes on the response, whose next call may depend on what the last one returned. Its
  abstract counterpart is a page: plain data and maps. The laws show that the response, with its hash
  tables, its cookies at addresses and its string stream, follows the page.
\<close>

section \<open>Handlers\<close>

text \<open>The calls that change the response. A cookie is the record that its constructor and setters have
  made of it; its address is taken when it is set.\<close>

datatype response_call =
    Call_Status int
  | Call_Content_Type "cstring ptr"
  | Call_Header "cstring ptr" "cstring ptr"
  | Call_Redirect "cstring ptr" "cstring ptr"
  | Call_Body cstring
  | Call_Cookie cookie_impl

text \<open>\<open>Ask_Query\<close> looks a name up in the table of the query, \<open>Ask_Form\<close> in that of the form, \<open>Ask_Cookie\<close> in the jar.\<close>

datatype handler =
    Finish int
  | Invoke response_call "int \<Rightarrow> handler"
  | Ask_Query cstring "cstring ptr \<Rightarrow> handler"
  | Ask_Form cstring "cstring ptr \<Rightarrow> handler"
  | Ask_Cookie cstring "cookie_impl ptr \<Rightarrow> handler"

text \<open>The client calls through the tables of functions; those that it uses here do not depend on the output.\<close>

abbreviation response_table :: "('s, unit) cad_cgi_response" where
  "response_table \<equiv> response_fn"

abbreviation cookies_table :: "unit cad_cgi_cookies" where
  "cookies_table \<equiv> cookies_fn"

abbreviation strings_table :: "(cstring, cstring, unit) cad_hash" where
  "strings_table \<equiv> hash_fn"

lemma response_fn_simps [simp]:
  "response_free_slot response_fn = free_response" "response_cookies_slot response_fn = response_cookies"
  "response_meta_variables_slot response_fn = response_meta_variables" "response_flush_slot response_fn = flush_response"
  "response_body_slot response_fn = response_body" "response_redirect_slot response_fn = redirect True True"
  "response_set_status_slot response_fn = set_status" "response_set_content_type_slot response_fn = set_content_type True"
  "response_set_header_slot response_fn = set_header True"
  by (simp_all add: response_fn_def)

lemma table_fn_simps [simp]:
  "cookies_get_slot cookies_fn = cookies_get" "cookies_set_slot cookies_fn = cookies_set"
  "hash_get_slot hash_fn = hash_get" "meta_query_string_slot meta_fn = query_string"
  "meta_input_as_form_slot meta_fn = input_as_form" "cgi_run_slot cgi_fn = cgi_run"
  by (simp_all add: cookies_fn_def hash_fn_def meta_fn_def cgi_fn_def)

definition set_new_cookie :: "cookies_impl \<Rightarrow> cookie_impl \<Rightarrow> (int \<times> cookies_impl) option" where
  "set_new_cookie this c =
     (let (addr, m) = store_new (store this) c in cookies_set_slot cookies_table (this\<lparr>store := m\<rparr>) addr)"

fun response_step :: "'s response_impl \<Rightarrow> response_call \<Rightarrow> (int \<times> 's response_impl) option" where
  "response_step this (Call_Status s) = Some (response_set_status_slot response_table this s)"
| "response_step this (Call_Content_Type t) = Some (response_set_content_type_slot response_table this t)"
| "response_step this (Call_Header f v) = response_set_header_slot response_table this f v"
| "response_step this (Call_Redirect p f) = Some (response_redirect_slot response_table this p f)"
| "response_step this (Call_Body t) = do {
     (n, out) \<leftarrow> cos_put string_output (response_body_slot response_table this) t;
     Some (n, this\<lparr>rs_body_stream := out\<rparr>)
   }"
| "response_step this (Call_Cookie c) = do {
     (r, cookies) \<leftarrow> set_new_cookie (response_cookies_slot response_table this) c;
     Some (r, this\<lparr>rs_cookies := cookies\<rparr>)
   }"

definition ask_query ::
  "('w \<Rightarrow> int \<times> 'w) \<Rightarrow> environ \<Rightarrow> cstring \<Rightarrow> 'w \<Rightarrow> 's response_impl
    \<Rightarrow> (cstring ptr \<times> 's response_impl \<times> 'w) option" where
  "ask_query salt env n w this = do {
     (t, meta, w') \<leftarrow> meta_query_string_slot meta_fn salt env w (response_meta_variables_slot response_table this);
     table \<leftarrow> t;
     v \<leftarrow> hash_get_slot strings_table table n;
     Some (v, this\<lparr>rs_meta := meta\<rparr>, w')
   }"

definition ask_form ::
  "'s cad_input_stream \<Rightarrow> ('w \<Rightarrow> int \<times> 'w) \<Rightarrow> cstring \<Rightarrow> 'w \<Rightarrow> 's response_impl
    \<Rightarrow> (cstring ptr \<times> 's response_impl \<times> 'w) option" where
  "ask_form iops salt n w this = do {
     (t, meta, w') \<leftarrow> meta_input_as_form_slot meta_fn iops salt w (response_meta_variables_slot response_table this);
     table \<leftarrow> t;
     v \<leftarrow> hash_get_slot strings_table table n;
     Some (v, this\<lparr>rs_meta := meta\<rparr>, w')
   }"

definition ask_cookie :: "cstring \<Rightarrow> 's response_impl \<Rightarrow> cookie_impl ptr option" where
  "ask_cookie n this = do {
     addr \<leftarrow> cookies_get_slot cookies_table (response_cookies_slot response_table this) n;
     (case addr of None \<Rightarrow> Some NULL | Some a \<Rightarrow> map_option Some (cm_cookies (store (response_cookies_slot response_table this)) a))
   }"

primrec run_handler ::
  "'s cad_input_stream \<Rightarrow> ('w \<Rightarrow> int \<times> 'w) \<Rightarrow> environ \<Rightarrow> handler \<Rightarrow> 'w \<Rightarrow> 's response_impl \<Rightarrow> (int \<times> 's response_impl \<times> 'w) option" where
  "run_handler iops salt env (Finish s) = (\<lambda>w this. Some (s, this, w))"
| "run_handler iops salt env (Invoke c k) = (\<lambda>w this. do {
     (r, this') \<leftarrow> response_step this c;
     run_handler iops salt env (k r) w this'
   })"
| "run_handler iops salt env (Ask_Query n k) = (\<lambda>w this. do {
     (v, this', w') \<leftarrow> ask_query salt env n w this;
     run_handler iops salt env (k v) w' this'
   })"
| "run_handler iops salt env (Ask_Form n k) = (\<lambda>w this. do {
     (v, this', w') \<leftarrow> ask_form iops salt n w this;
     run_handler iops salt env (k v) w' this'
   })"
| "run_handler iops salt env (Ask_Cookie n k) = (\<lambda>w this. do {
     c \<leftarrow> ask_cookie n this;
     run_handler iops salt env (k c) w this
   })"

text \<open>The callback that \<open>run\<close> gets: the handler leaves the output of the runner alone.\<close>

definition handler_cb ::
  "'s cad_input_stream \<Rightarrow> ('w \<Rightarrow> int \<times> 'w) \<Rightarrow> environ \<Rightarrow> 'w \<Rightarrow> handler \<Rightarrow> 's response_impl \<Rightarrow> 'o \<Rightarrow> (int \<times> 's response_impl \<times> 'o) option" where
  "handler_cb iops salt env w h this out = do {
     (s, this', _) \<leftarrow> run_handler iops salt env h w this;
     Some (s, this', out)
   }"

section \<open>Pages\<close>

record page =
  pg_status :: int
  pg_type :: "cstring ptr"
  pg_location :: "(cstring \<times> cstring) ptr"
  pg_headers :: "cstring \<Rightarrow> cstring option"
  pg_cookies :: "cstring \<Rightarrow> cookie_impl option"
  pg_body :: "cstring ptr"

definition page_start :: "(cstring \<times> cstring) list \<Rightarrow> page" where
  "page_start ps =
     \<lparr>pg_status = 0, pg_type = NULL, pg_location = NULL, pg_headers = Map.empty,
      pg_cookies = (\<lambda>n. map_option (plain_cookie n) (map_of (rev ps) n)), pg_body = NULL\<rparr>"

text \<open>The headers that the library sets itself, in any case of letters.\<close>

definition header_allowed :: "cstring \<Rightarrow> bool" where
  "header_allowed f \<longleftrightarrow>
     map tolower f \<notin> map tolower ` {''status'', ''content-type'', ''location'', ''cookie'', ''set-cookie''}"

fun page_step :: "page \<Rightarrow> response_call \<Rightarrow> int \<times> page" where
  "page_step pg (Call_Status s) = (0, pg\<lparr>pg_status := s\<rparr>)"
| "page_step pg (Call_Content_Type t) = (if t = NULL then (-1, pg) else (0, pg\<lparr>pg_type := t\<rparr>))"
| "page_step pg (Call_Header (Some f) (Some v)) =
     (if header_allowed f then (0, pg\<lparr>pg_headers := (pg_headers pg)(f \<mapsto> v)\<rparr>) else (-1, pg))"
| "page_step pg (Call_Header f v) = (-1, pg)"
| "page_step pg (Call_Redirect (Some p) (Some f)) =
     (if pg_body pg = NULL then (0, pg\<lparr>pg_location := Some (p, f)\<rparr>) else (-1, pg))"
| "page_step pg (Call_Redirect p f) = (-1, pg)"
| "page_step pg (Call_Body t) =
     (int (length t), pg\<lparr>pg_body := Some ((case pg_body pg of None \<Rightarrow> [] | Some b \<Rightarrow> b) @ t)\<rparr>)"
| "page_step pg (Call_Cookie c) = (0, pg\<lparr>pg_cookies := (pg_cookies pg)(ck_name c \<mapsto> c)\<rparr>)"

text \<open>What the request says: its query and its form.\<close>

record request_view =
  rv_query :: "cstring \<Rightarrow> cstring ptr"
  rv_form :: "cstring \<Rightarrow> cstring ptr"

definition request_view :: "cstring \<Rightarrow> cstring \<Rightarrow> request_view" where
  "request_view q f = \<lparr>rv_query = map_of (rev (query_pairs q)), rv_form = map_of (rev (query_pairs f))\<rparr>"

primrec page_run :: "request_view \<Rightarrow> handler \<Rightarrow> page \<Rightarrow> int \<times> page" where
  "page_run view (Finish s) = (\<lambda>pg. (s, pg))"
| "page_run view (Invoke c k) = (\<lambda>pg. let (r, pg') = page_step pg c in page_run view (k r) pg')"
| "page_run view (Ask_Query n k) = (\<lambda>pg. page_run view (k (rv_query view n)) pg)"
| "page_run view (Ask_Form n k) = (\<lambda>pg. page_run view (k (rv_form view n)) pg)"
| "page_run view (Ask_Cookie n k) = (\<lambda>pg. page_run view (k (pg_cookies pg n)) pg)"

text \<open>What a call must respect: its strings are C strings, the body stays an \<open>int\<close> long, and the text of a
  cookie can be printed.\<close>

definition cookie_ok :: "cookie_impl \<Rightarrow> bool" where
  "cookie_ok c \<longleftrightarrow> ck_value c \<noteq> Wild \<and> (ck_changed c \<longrightarrow> cookie_printable c)"

fun call_ok :: "page \<Rightarrow> response_call \<Rightarrow> bool" where
  "call_ok pg (Call_Status s) \<longleftrightarrow> True"
| "call_ok pg (Call_Content_Type t) \<longleftrightarrow> text_ok t"
| "call_ok pg (Call_Header f v) \<longleftrightarrow> text_ok f \<and> text_ok v"
| "call_ok pg (Call_Redirect p f) \<longleftrightarrow> text_ok p \<and> text_ok f"
| "call_ok pg (Call_Body t) \<longleftrightarrow> valid_cstring t \<and>
     (case pg_body pg of None \<Rightarrow> 0 | Some b \<Rightarrow> length b) + length t \<le> INT_MAX div 2 - 1"
| "call_ok pg (Call_Cookie c) \<longleftrightarrow> cookie_ok c"

text \<open>Every call of a run is allowed, and the run makes at most \<open>n\<close> of them.\<close>

primrec calls_ok :: "request_view \<Rightarrow> handler \<Rightarrow> nat \<Rightarrow> page \<Rightarrow> bool" where
  "calls_ok view (Finish s) = (\<lambda>n pg. True)"
| "calls_ok view (Invoke c k) = (\<lambda>n pg. 0 < n \<and> call_ok pg c \<and>
     (let (r, pg') = page_step pg c in calls_ok view (k r) (n - 1) pg'))"
| "calls_ok view (Ask_Query m k) = (\<lambda>n pg. calls_ok view (k (rv_query view m)) n pg)"
| "calls_ok view (Ask_Form m k) = (\<lambda>n pg. calls_ok view (k (rv_form view m)) n pg)"
| "calls_ok view (Ask_Cookie m k) = (\<lambda>n pg. calls_ok view (k (pg_cookies pg m)) n pg)"

text \<open>The bytes of a page; the headers and the cookies come in the orders of their tables.\<close>

definition page_orders :: "page \<Rightarrow> (cstring \<times> cstring) list \<Rightarrow> cstring list \<Rightarrow> bool" where
  "page_orders pg hs ns \<longleftrightarrow>
     distinct (map fst hs) \<and> map_of hs = pg_headers pg \<and> distinct ns \<and> set ns = dom (pg_cookies pg)"

definition page_head :: "page \<Rightarrow> char list" where
  "page_head pg =
     ''Content-Type: '' @ (case pg_type pg of None \<Rightarrow> ''text/plain'' | Some t \<Rightarrow> t) @ [CHR 0x0D, CHR 0x0A] @
     ''Status: '' @ (if pg_status pg = 0 then ''200'' else format_int (pg_status pg)) @ [CHR 0x0D, CHR 0x0A] @
     (case pg_location pg of
        None \<Rightarrow> []
      | Some (p, f) \<Rightarrow> ''Location: '' @ p @ (if f = [] then [] else ''#'' @ f) @ [CHR 0x0D, CHR 0x0A])"

definition cookie_line :: "cookie_impl ptr \<Rightarrow> char list" where
  "cookie_line c = (case c of None \<Rightarrow> [] | Some c \<Rightarrow> if ck_changed c then set_cookie_line c else [])"

definition page_output :: "page \<Rightarrow> (cstring \<times> cstring) list \<Rightarrow> cstring list \<Rightarrow> char list" where
  "page_output pg hs ns =
     page_head pg @ concat (map (\<lambda>(f, v). f @ '': '' @ v @ [CHR 0x0D, CHR 0x0A]) hs) @
     concat (map (\<lambda>n. cookie_line (pg_cookies pg n)) ns) @ [CHR 0x0D, CHR 0x0A] @
     (case pg_body pg of None \<Rightarrow> [] | Some b \<Rightarrow> normal_lines b)"

section \<open>A response shows a page\<close>

definition jar_shows :: "nat \<Rightarrow> cookies_impl \<Rightarrow> (cstring \<Rightarrow> cookie_impl option) \<Rightarrow> bool" where
  "jar_shows b this M \<longleftrightarrow>
     table_inv cad_hash_strings (jar this) \<and> table_weight (jar this) \<le> b \<and>
     (\<forall>n addr. hash_abs (jar this) n = Some (Some addr) \<longrightarrow> addr < cm_next (store this)) \<and>
     (\<forall>n. M n = None \<longrightarrow> hash_abs (jar this) n = None) \<and>
     (\<forall>n c. M n = Some c \<longrightarrow> ck_name c = n \<and>
        (\<exists>addr. hash_abs (jar this) n = Some (Some addr) \<and> cm_cookies (store this) addr = Some c))"

lemma jar_showsD:
  assumes "jar_shows b this M"
  shows "table_inv cad_hash_strings (jar this)" "table_weight (jar this) \<le> b"
    "hash_abs (jar this) n = Some (Some addr) \<Longrightarrow> addr < cm_next (store this)"
    "M n = None \<Longrightarrow> hash_abs (jar this) n = None"
    "M n = Some c \<Longrightarrow> ck_name c = n"
    "M n = Some c \<Longrightarrow> \<exists>addr. hash_abs (jar this) n = Some (Some addr) \<and> cm_cookies (store this) addr = Some c"
    "hash_abs (jar this) n = Some v \<Longrightarrow> \<exists>addr c. v = Some addr \<and> M n = Some c \<and> cm_cookies (store this) addr = Some c"
proof -
  show *: "M n = Some c \<Longrightarrow> \<exists>addr. hash_abs (jar this) n = Some (Some addr) \<and> cm_cookies (store this) addr = Some c" for c
    using assms by (simp add: jar_shows_def)
  show "M n = None \<Longrightarrow> hash_abs (jar this) n = None" using assms by (simp add: jar_shows_def)
  then show "hash_abs (jar this) n = Some v \<Longrightarrow> \<exists>addr c. v = Some addr \<and> M n = Some c \<and> cm_cookies (store this) addr = Some c"
    using * by (cases "M n") auto
qed (use assms in \<open>simp_all add: jar_shows_def\<close>)

lemma jar_holds_shows:
  assumes "jar_holds m0 this ps"
  shows "jar_shows (4 + 3 * length ps) this (\<lambda>n. map_option (plain_cookie n) (map_of (rev ps) n))"
proof -
  have h: "case map_of (rev ps) n of
      None \<Rightarrow> hash_abs (jar this) n = None
    | Some v \<Rightarrow> \<exists>addr. hash_abs (jar this) n = Some (Some addr) \<and> cm_cookies (store this) addr = Some (plain_cookie n v)" for n
    using assms unfolding jar_holds_def by blast
  have "hash_abs (jar this) n = None" if "map_of (rev ps) n = None" for n
    using h [of n] that by simp
  moreover have "\<exists>addr. hash_abs (jar this) n = Some (Some addr) \<and> cm_cookies (store this) addr = Some (plain_cookie n v)"
    if "map_of (rev ps) n = Some v" for n v
    using h [of n] that by simp
  ultimately show ?thesis
    using assms unfolding jar_shows_def jar_holds_def by (auto simp: plain_cookie_def)
qed

text \<open>Two names have two addresses, because a cookie knows its name.\<close>

lemma jar_shows_inj:
  assumes "jar_shows b this M" "hash_abs (jar this) n = Some v" "hash_abs (jar this) n' = Some v"
  shows "n = n'"
proof -
  obtain a c where "v = Some a" "M n = Some c" "cm_cookies (store this) a = Some c"
    using jar_showsD(7) [OF assms(1,2)] by blast
  moreover obtain a' c' where "v = Some a'" "M n' = Some c'" "cm_cookies (store this) a' = Some c'"
    using jar_showsD(7) [OF assms(1,3)] by blast
  ultimately show ?thesis using jar_showsD(5) [OF assms(1)] by (metis option.inject)
qed

text \<open>What a call does to the store: a jar that keeps the other cookies goes on doing so.\<close>

definition jar_kept :: "cookies_impl \<Rightarrow> cookies_impl \<Rightarrow> bool" where
  "jar_kept this this' \<longleftrightarrow> (\<forall>m0. store_ok m0 \<and> jar_frame m0 this \<longrightarrow> jar_frame m0 this')"

lemma jar_kept_refl [simp]: "jar_kept this this"
  by (simp add: jar_kept_def)

lemma jar_kept_trans: "jar_kept this this1 \<Longrightarrow> jar_kept this1 this2 \<Longrightarrow> jar_kept this this2"
  by (simp add: jar_kept_def)

lemma set_new_cookie_shows:
  assumes j: "jar_shows b this M" and b: "b \<le> 2 ^ 29" and safe: "\<And>c'. M (ck_name c) = Some c' \<Longrightarrow> ck_value c' \<noteq> Wild"
  shows "\<exists>this'. set_new_cookie this c = Some (0, this') \<and> jar_shows (b + 3) this' (M(ck_name c \<mapsto> c)) \<and> jar_kept this this'"
proof -
  let ?n = "ck_name c" and ?new = "cm_next (store this)"
  let ?m = "\<lparr>cm_cookies = (cm_cookies (store this))(?new \<mapsto> c), cm_next = ?new + 1\<rparr>"
  note J = jar_showsD [OF j]
  have new: "store_new (store this) c = (?new, ?m)" by (simp add: store_new_def)
  obtain t where t: "hash_set (jar this) ?n (Some ?new) = Some (or_null (hash_abs (jar this) ?n), t)"
      "table_inv cad_hash_strings t" "table_weight t \<le> table_weight (jar this) + 3"
      "hash_abs t = (\<lambda>k. if k = ?n then Some (Some ?new) else hash_abs (jar this) k)"
    using string_table.set_law [OF J(1), of ?n "Some ?new"] J(2) b by auto
  have old: "\<exists>m. (case or_null (hash_abs (jar this) ?n) of None \<Rightarrow> Some ?m | Some a \<Rightarrow> free_cookie ?m a) = Some m \<and>
      cm_next m = ?new + 1 \<and> cm_cookies m ?new = Some c \<and>
      (\<forall>a. a \<noteq> ?new \<longrightarrow> cm_cookies m a = (if hash_abs (jar this) ?n = Some (Some a) then None else cm_cookies (store this) a)) \<and>
      (\<forall>k a. k \<noteq> ?n \<longrightarrow> hash_abs (jar this) k = Some (Some a) \<longrightarrow> cm_cookies m a = cm_cookies (store this) a)"
  proof (cases "hash_abs (jar this) ?n")
    case None
    then show ?thesis using J(3) by fastforce
  next
    case (Some v)
    then obtain a c' where a: "v = Some a" "M ?n = Some c'" "cm_cookies (store this) a = Some c'"
      using J(7) by blast
    have "a < ?new" using Some J(3) a(1) by blast
    then have "free_cookie ?m a = Some (?m\<lparr>cm_cookies := (cm_cookies ?m)(a := None)\<rparr>)"
      using a(3) safe [OF a(2)] by (auto simp: free_cookie_def)
    moreover have "a' \<noteq> a \<and> a' < ?new" if "k \<noteq> ?n" "hash_abs (jar this) k = Some (Some a')" for k a'
      using jar_shows_inj [OF j that(2)] Some a(1) that J(3) by blast
    ultimately show ?thesis
      using Some a(1) \<open>a < ?new\<close> by fastforce
  qed
  then obtain m where m: "(case or_null (hash_abs (jar this) ?n) of None \<Rightarrow> Some ?m | Some a \<Rightarrow> free_cookie ?m a) = Some m"
      "cm_next m = ?new + 1" "cm_cookies m ?new = Some c"
      "\<And>a. a \<noteq> ?new \<Longrightarrow> cm_cookies m a = (if hash_abs (jar this) ?n = Some (Some a) then None else cm_cookies (store this) a)"
      "\<And>k a. k \<noteq> ?n \<Longrightarrow> hash_abs (jar this) k = Some (Some a) \<Longrightarrow> cm_cookies m a = cm_cookies (store this) a" by blast
  have "set_new_cookie this c = Some (0, this\<lparr>jar := t, store := m\<rparr>)"
  proof (cases "or_null (hash_abs (jar this) ?n)")
    case None
    then have "m = ?m" using m(1) by simp
    then show ?thesis using t(1) None by (simp add: set_new_cookie_def new cookies_set_def)
  next
    case (Some a)
    then show ?thesis using t(1) m(1) by (simp add: set_new_cookie_def new cookies_set_def)
  qed
  moreover have "jar_shows (b + 3) (this\<lparr>jar := t, store := m\<rparr>) (M(?n \<mapsto> c))"
    unfolding jar_shows_def using t(2,3) J(2) m(2,3,5) J(3-6) by (auto simp: t(4) less_SucI) metis
  moreover have "jar_frame m0 (this\<lparr>jar := t, store := m\<rparr>)" if "store_ok m0" "jar_frame m0 this" for m0
  proof -
    note F = that(2) [unfolded jar_frame_def]
    have "cm_cookies m a = cm_cookies m0 a \<or> (\<exists>k. hash_abs t k = Some (Some a))" for a
    proof (cases "a = ?new \<or> hash_abs (jar this) ?n = Some (Some a)")
      case True
      have "cm_cookies m a = cm_cookies m0 a" if "a \<noteq> ?new"
        using True that m(4) [OF that] F \<open>store_ok m0\<close> by (auto simp: store_ok_def)
      then show ?thesis by (cases "a = ?new") (auto simp: t(4) intro!: exI [of _ ?n])
    next
      case False
      then have "hash_abs t k = hash_abs (jar this) k" if "hash_abs (jar this) k = Some (Some a)" for k
        using that by (auto simp: t(4))
      moreover have "cm_cookies m a = cm_cookies (store this) a" using m(4) False by auto
      ultimately show ?thesis using F by metis
    qed
    then show ?thesis using F m(2) by (simp add: jar_frame_def t(4))
  qed
  then have "jar_kept this (this\<lparr>jar := t, store := m\<rparr>)" by (simp add: jar_kept_def)
  ultimately show ?thesis by blast
qed

text \<open>What a page promises of its texts, whatever the run.\<close>

definition page_ok :: "page \<Rightarrow> bool" where
  "page_ok pg \<longleftrightarrow> text_ok (pg_type pg) \<and>
     (\<forall>p f. pg_location pg = Some (p, f) \<longrightarrow> valid_cstring p \<and> valid_cstring f) \<and>
     (\<forall>f v. pg_headers pg f = Some v \<longrightarrow> valid_cstring f \<and> valid_cstring v) \<and>
     (\<forall>n c. pg_cookies pg n = Some c \<longrightarrow> cookie_ok c) \<and> text_ok (pg_body pg)"

lemma page_step_ok: "page_ok pg \<Longrightarrow> call_ok pg c \<Longrightarrow> page_ok (snd (page_step pg c))"
  by (induction pg c rule: page_step.induct) (auto simp: page_ok_def split: option.splits if_splits)

lemma page_start_ok: "page_ok (page_start ps)"
  by (auto simp: page_ok_def page_start_def cookie_ok_def plain_cookie_def)

text \<open>What the meta-variables know of the query and of the form: nothing yet, and then it is still to be read,
  or a table.\<close>

definition query_known :: "environ \<Rightarrow> (cstring \<Rightarrow> cstring ptr) \<Rightarrow> 's meta_impl \<Rightarrow> bool" where
  "query_known env query this \<longleftrightarrow>
     (case mi_query_string this of
        None \<Rightarrow> \<exists>q. env ''QUERY_STRING'' = Some q \<and> no_nul q \<and> length q \<le> 2 ^ 27 \<and>
          query = map_of (rev (query_pairs q))
      | Some t \<Rightarrow> hash_inv t \<and> (\<forall>n. hash_get t n = Some (query n)))"

definition form_known :: "('s \<Rightarrow> char list) \<Rightarrow> ('s \<Rightarrow> bool) \<Rightarrow> (cstring \<Rightarrow> cstring ptr) \<Rightarrow> 's meta_impl \<Rightarrow> bool" where
  "form_known rest iinv form this \<longleftrightarrow>
     (case mi_input_as_form this of
        None \<Rightarrow> \<exists>ins. mi_in this = Some ins \<and> iinv ins \<and> no_nul (rest ins) \<and> length (rest ins) \<le> 2 ^ 27 \<and>
          form = map_of (rev (query_pairs (rest ins)))
      | Some t \<Rightarrow> hash_inv t \<and> (\<forall>n. hash_get t n = Some (form n)))"

definition meta_known ::
  "environ \<Rightarrow> ('s \<Rightarrow> char list) \<Rightarrow> ('s \<Rightarrow> bool) \<Rightarrow> request_view \<Rightarrow> 's meta_impl \<Rightarrow> bool" where
  "meta_known env rest iinv view this \<longleftrightarrow> hash_inv (mi_ct_parameters this) \<and>
     query_known env (rv_query view) this \<and> form_known rest iinv (rv_form view) this"

text \<open>\<open>b\<close> bounds the two tables.\<close>

definition headers_show :: "nat \<Rightarrow> string_table \<Rightarrow> (cstring \<Rightarrow> cstring option) \<Rightarrow> bool" where
  "headers_show b t M \<longleftrightarrow>
     table_inv cad_hash_strings t \<and> table_weight t \<le> b \<and> hash_abs t = (\<lambda>f. map_option Some (M f))"

definition body_shows :: "cad_output_stream_string \<Rightarrow> cstring ptr \<Rightarrow> bool" where
  "body_shows out body \<longleftrightarrow>
     oss_inv out \<and> (oss_string out = NULL \<longleftrightarrow> body = NULL) \<and>
     string_written out = (case body of None \<Rightarrow> [] | Some b \<Rightarrow> b)"

definition shows_page :: "nat \<Rightarrow> 's response_impl \<Rightarrow> page \<Rightarrow> bool" where
  "shows_page b this pg \<longleftrightarrow>
     rs_status this = pg_status pg \<and> rs_content_type this = pg_type pg \<and>
     rs_redirect_path this = map_option fst (pg_location pg) \<and>
     rs_redirect_fragment this = map_option snd (pg_location pg) \<and>
     headers_show b (rs_headers this) (pg_headers pg) \<and> jar_shows b (rs_cookies this) (pg_cookies pg) \<and>
     body_shows (rs_body_stream this) (pg_body pg)"

lemma headers_show_set:
  assumes "headers_show b t M" "b \<le> 2 ^ 29"
  shows "\<exists>old t'. hash_set t f (Some v) = Some (old, t') \<and> headers_show (b + 3) t' (M(f \<mapsto> v))"
  using string_table.set_law [of t f "Some v"] assms by (fastforce simp: headers_show_def)

lemma body_shows_put:
  assumes "body_shows out body" "valid_cstring t"
    and "(case body of None \<Rightarrow> 0 | Some b \<Rightarrow> length b) + length t \<le> INT_MAX div 2 - 1"
  shows "\<exists>out'. cos_put string_output out t = Some (int (length t), out') \<and>
    body_shows out' (Some ((case body of None \<Rightarrow> [] | Some b \<Rightarrow> b) @ t))"
proof -
  have len: "length (string_written out) + length t \<le> INT_MAX div 2 - 1"
    using assms(1,3) by (auto simp: body_shows_def split: option.splits)
  obtain out' where o: "cos_put string_output out t = Some (int (length t), out')" "oss_inv out'"
      "string_written out' = string_written out @ t"
    using string_out.put_law [OF _ assms(2) len] assms(1) by (auto simp: body_shows_def)
  have "oss_string out' \<noteq> NULL"
    using o(1) by (auto simp: string_output_def string_vput_def Let_def split: bind_splits)
  then show ?thesis using o assms(1) by (auto simp: body_shows_def)
qed

lemma shows_page_mono:
  assumes "shows_page b this pg" "b \<le> b'"
  shows "shows_page b' this pg"
  using assms by (auto simp: shows_page_def headers_show_def jar_shows_def)

lemma strcasecmp_eq_0: "strcasecmp s t = 0 \<longleftrightarrow> map tolower s = map tolower t"
  by (induction s t rule: strcasecmp.induct) auto

lemma header_allowed_reserved: "header_allowed f \<longleftrightarrow> list_all (\<lambda>r. strcasecmp f r \<noteq> 0) reserved_headers"
proof -
  have "map tolower ` {''status'', ''content-type'', ''location'', ''cookie'', ''set-cookie''} = map tolower ` set reserved_headers"
    by code_simp
  then show ?thesis unfolding header_allowed_def by (auto simp: list_all_iff strcasecmp_eq_0 image_iff)
qed

lemma response_step_shows:
  assumes "shows_page b this pg" "page_ok pg" "call_ok pg c" "b \<le> 2 ^ 29"
  shows "\<exists>this'. response_step this c = Some (fst (page_step pg c), this') \<and> rs_meta this' = rs_meta this \<and>
    shows_page (b + 3) this' (snd (page_step pg c)) \<and> jar_kept (rs_cookies this) (rs_cookies this')"
proof (cases c)
  case (Call_Status s)
  then show ?thesis using shows_page_mono [OF assms(1), of "b + 3"] by (simp add: set_status_def shows_page_def)
next
  case (Call_Content_Type t)
  then show ?thesis
    using shows_page_mono [OF assms(1), of "b + 3"] by (cases t) (simp_all add: set_content_type_def shows_page_def)
next
  case (Call_Header f v)
  show ?thesis
  proof (cases "f \<noteq> NULL \<and> v \<noteq> NULL \<and> header_allowed (the f)")
    case True
    then obtain f' v' where fv: "f = Some f'" "v = Some v'" "header_allowed f'" by auto
    obtain old t' where "hash_set (rs_headers this) f' (Some v') = Some (old, t')"
        "headers_show (b + 3) t' ((pg_headers pg)(f' \<mapsto> v'))"
      using headers_show_set [of b "rs_headers this" "pg_headers pg" f' v'] assms(1,4) by (auto simp: shows_page_def)
    then show ?thesis
      using shows_page_mono [OF assms(1), of "b + 3"] Call_Header fv
      by (simp add: set_header_def shows_page_def header_allowed_reserved)
  next
    case False
    then have "set_header True this f v = Some (-1, this)" "page_step pg c = (-1, pg)"
      using Call_Header by (cases f; cases v; auto simp: set_header_def header_allowed_reserved)+
    then show ?thesis using shows_page_mono [OF assms(1), of "b + 3"] Call_Header by simp
  qed
next
  case (Call_Redirect p f)
  have n: "rs_body this = NULL \<longleftrightarrow> pg_body pg = NULL"
    using assms(1) by (simp add: shows_page_def body_shows_def rs_body_def)
  then show ?thesis
    using shows_page_mono [OF assms(1), of "b + 3"] Call_Redirect
    by (cases p; cases f; cases "pg_body pg") (auto simp: redirect_def shows_page_def)
next
  case (Call_Body t)
  then have v: "valid_cstring t"
      "(case pg_body pg of None \<Rightarrow> 0 | Some b \<Rightarrow> length b) + length t \<le> INT_MAX div 2 - 1"
    using assms(3) by simp_all
  have "body_shows (rs_body_stream this) (pg_body pg)" using assms(1) by (simp add: shows_page_def)
  from body_shows_put [OF this v] obtain out' where
      "cos_put string_output (rs_body_stream this) t = Some (int (length t), out')"
      "body_shows out' (Some ((case pg_body pg of None \<Rightarrow> [] | Some b \<Rightarrow> b) @ t))" by blast
  then show ?thesis
    using shows_page_mono [OF assms(1), of "b + 3"] Call_Body by (simp add: response_body_def shows_page_def)
next
  case (Call_Cookie k)
  have "jar_shows b (rs_cookies this) (pg_cookies pg)" using assms(1) by (simp add: shows_page_def)
  from set_new_cookie_shows [OF this assms(4), of k] obtain j where
      "set_new_cookie (rs_cookies this) k = Some (0, j)" "jar_shows (b + 3) j ((pg_cookies pg)(ck_name k \<mapsto> k))"
      "jar_kept (rs_cookies this) j"
    using assms(2) by (auto simp: page_ok_def cookie_ok_def)
  then show ?thesis
    using shows_page_mono [OF assms(1), of "b + 3"] Call_Cookie by (simp add: response_cookies_def shows_page_def)
qed

lemma ask_cookie_shows:
  assumes "shows_page b this pg"
  shows "ask_cookie n this = Some (pg_cookies pg n)"
proof -
  have j: "jar_shows b (rs_cookies this) (pg_cookies pg)" using assms by (simp add: shows_page_def)
  note get = string_table.get_law [OF jar_showsD(1) [OF j], of n]
  show ?thesis
  proof (cases "pg_cookies pg n")
    case None
    then show ?thesis using get jar_showsD(4) [OF j] by (simp add: ask_cookie_def response_cookies_def cookies_get_def)
  next
    case (Some c)
    then show ?thesis
      using get jar_showsD(6) [OF j] by (fastforce simp: ask_cookie_def response_cookies_def cookies_get_def)
  qed
qed

lemma form_known_query [simp]: "form_known rest iinv form (this\<lparr>mi_query_string := t\<rparr>) = form_known rest iinv form this"
  by (simp add: form_known_def split: option.splits)

lemma query_known_form [simp]:
  "query_known env query (this\<lparr>mi_input_as_form := t, mi_in := ins\<rparr>) = query_known env query this"
  by (simp add: query_known_def split: option.splits)

lemma meta_known_tables:
  assumes "meta_known env rest iinv view this"
  shows "hash_inv (mi_ct_parameters this)" "mi_query_string this = Some t \<Longrightarrow> hash_inv t"
    "mi_input_as_form this = Some t \<Longrightarrow> hash_inv t"
  using assms by (auto simp: meta_known_def query_known_def form_known_def)

lemma ask_query_known:
  assumes "meta_known env rest iinv view (rs_meta this)"
  shows "\<exists>meta w'. ask_query salt env n w this = Some (rv_query view n, this\<lparr>rs_meta := meta\<rparr>, w') \<and>
    meta_known env rest iinv view meta"
proof (cases "mi_query_string (rs_meta this)")
  case (Some t)
  then show ?thesis
    using assms by (auto simp: ask_query_def response_meta_variables_def query_string_def meta_known_def query_known_def
        intro!: exI [of _ "rs_meta this"])
next
  case None
  then obtain q where q: "env ''QUERY_STRING'' = Some q" "no_nul q" "length q \<le> 2 ^ 27" "rv_query view = map_of (rev (query_pairs q))"
    using assms by (auto simp: meta_known_def query_known_def)
  obtain ins where ins: "new_cad_input_stream_from_string True q = Some ins" "string_inv ins" "string_rest ins = q"
    using query_string_stream [OF q(2)] by blast
  then obtain t ins' w' where t: "parse_query_or_form string_input salt w ins = Some (t, ins', w')"
      "strings_inv t" "hash_abs t = store_pairs (query_pairs q) (\<lambda>_. None)"
    using string_in.parse_query_or_form_correct [of ins salt w] q(2,3) by auto
  note get = hash_get_pairs [OF t(2,3)]
  let ?meta = "(rs_meta this)\<lparr>mi_query_string := Some t\<rparr>"
  have "ask_query salt env n w this = Some (rv_query view n, this\<lparr>rs_meta := ?meta\<rparr>, w')"
    using None q(1,4) ins(1) t(1) get by (simp add: ask_query_def response_meta_variables_def query_string_def)
  moreover have "meta_known env rest iinv view ?meta"
    using assms get q(4) t(2) by (simp add: meta_known_def query_known_def table_inv_def)
  ultimately show ?thesis by blast
qed

lemma ask_form_known:
  assumes "input_stream iops rest iinv" "meta_known env rest iinv view (rs_meta this)"
  shows "\<exists>meta w'. ask_form iops salt n w this = Some (rv_form view n, this\<lparr>rs_meta := meta\<rparr>, w') \<and>
    meta_known env rest iinv view meta"
proof (cases "mi_input_as_form (rs_meta this)")
  case (Some t)
  then show ?thesis
    using assms(2) by (auto simp: ask_form_def response_meta_variables_def input_as_form_def meta_known_def form_known_def
        intro!: exI [of _ "rs_meta this"])
next
  case None
  then obtain ins where ins: "mi_in (rs_meta this) = Some ins" "iinv ins" "no_nul (rest ins)" "length (rest ins) \<le> 2 ^ 27"
      "rv_form view = map_of (rev (query_pairs (rest ins)))"
    using assms(2) by (auto simp: meta_known_def form_known_def)
  obtain t ins' w' where t: "parse_query_or_form iops salt w ins = Some (t, ins', w')"
      "strings_inv t" "hash_abs t = store_pairs (query_pairs (rest ins)) (\<lambda>_. None)"
    using input_stream.parse_query_or_form_correct [OF assms(1) ins(2-4), of salt w] by blast
  note get = hash_get_pairs [OF t(2,3)]
  let ?meta = "(rs_meta this)\<lparr>mi_input_as_form := Some t, mi_in := Some ins'\<rparr>"
  have "ask_form iops salt n w this = Some (rv_form view n, this\<lparr>rs_meta := ?meta\<rparr>, w')"
    using None ins(1,5) t(1) get by (simp add: ask_form_def response_meta_variables_def input_as_form_def)
  moreover have "meta_known env rest iinv view ?meta"
    using assms(2) get ins(5) t(2) by (simp add: meta_known_def form_known_def table_inv_def)
  ultimately show ?thesis by blast
qed

text \<open>The run of a handler follows its run on the page.\<close>

lemma run_handler_shows:
  assumes ops: "input_stream iops rest iinv"
    and "shows_page b this pg" "page_ok pg" "meta_known env rest iinv view (rs_meta this)" "calls_ok view h n pg"
    and "b + 3 * n \<le> 2 ^ 29"
  shows "\<exists>this' w'. run_handler iops salt env h w this = Some (fst (page_run view h pg), this', w') \<and>
    shows_page (b + 3 * n) this' (snd (page_run view h pg)) \<and> page_ok (snd (page_run view h pg)) \<and>
    meta_known env rest iinv view (rs_meta this') \<and> jar_kept (rs_cookies this) (rs_cookies this')"
  using assms(2-)
proof (induction h arbitrary: b n pg w this)
  case (Finish s)
  then show ?case using shows_page_mono [OF Finish(1), of "b + 3 * n"] by simp
next
  case (Invoke c k)
  then have c: "call_ok pg c" by auto
  obtain m where n: "n = Suc m" using Invoke.prems(4) by (cases n) auto
  then have b: "b + 3 * n = b + 3 + 3 * m" by simp
  obtain r pg' where s: "page_step pg c = (r, pg')" by (cases "page_step pg c")
  obtain this' where t: "response_step this c = Some (r, this')" "rs_meta this' = rs_meta this" "shows_page (b + 3) this' pg'"
      "jar_kept (rs_cookies this) (rs_cookies this')"
    using response_step_shows [OF Invoke.prems(1,2) c] Invoke.prems(5) s by auto
  have "page_ok pg'" using page_step_ok [OF Invoke.prems(2) c] s by simp
  from Invoke.IH [OF rangeI t(3) this, of r m w] show ?case
    unfolding b using Invoke.prems(3-5) s t n by (auto intro: jar_kept_trans)
next
  case (Ask_Query m k)
  obtain meta w' where q: "ask_query salt env m w this = Some (rv_query view m, this\<lparr>rs_meta := meta\<rparr>, w')"
      "meta_known env rest iinv view meta"
    using ask_query_known [OF Ask_Query.prems(3), of salt m w] by blast
  have "shows_page b (this\<lparr>rs_meta := meta\<rparr>) pg" using Ask_Query.prems(1) by (simp add: shows_page_def)
  from Ask_Query.IH [OF rangeI this Ask_Query.prems(2), of "rv_query view m" n w'] q Ask_Query.prems(4,5)
  show ?case by simp
next
  case (Ask_Form m k)
  obtain meta w' where q: "ask_form iops salt m w this = Some (rv_form view m, this\<lparr>rs_meta := meta\<rparr>, w')"
      "meta_known env rest iinv view meta"
    using ask_form_known [OF ops Ask_Form.prems(3), of salt m w] by blast
  have "shows_page b (this\<lparr>rs_meta := meta\<rparr>) pg" using Ask_Form.prems(1) by (simp add: shows_page_def)
  from Ask_Form.IH [OF rangeI this Ask_Form.prems(2), of "rv_form view m" n w'] q Ask_Form.prems(4,5)
  show ?case by simp
next
  case (Ask_Cookie m k)
  from Ask_Cookie.IH [OF rangeI Ask_Cookie.prems(1-3), of "pg_cookies pg m" n w] ask_cookie_shows [OF Ask_Cookie.prems(1), of m]
  show ?case using Ask_Cookie.prems(4,5) by auto
qed

end
