(* ===== verification/Cad_Cgi_Session_Laws.thy ===== *)
theory Cad_Cgi_Session_Laws
  imports Cad_Cgi_Session
begin

text \<open>
  What becomes of a response that shows a page: its flush writes the page, in the orders of its tables, and
  its release succeeds. The session puts the runner, the handler and the page together.
\<close>

section \<open>Flushing a page\<close>

lemma shows_page_head:
  assumes "shows_page b this pg" "page_ok pg"
  shows "response_head this = page_head pg" "text_ok (rs_content_type this)" "text_ok (rs_redirect_path this)"
    "text_ok (rs_redirect_fragment this)" "rs_redirect_path this \<noteq> NULL \<Longrightarrow> rs_redirect_fragment this \<noteq> NULL"
  using assms
  by (cases "pg_location pg"; auto simp: shows_page_def page_ok_def response_head_def page_head_def split: list.splits)+

lemma headers_show_pairs:
  assumes "headers_show b t M" "\<And>f v. M f = Some v \<Longrightarrow> valid_cstring f \<and> valid_cstring v"
  shows "\<exists>hs. distinct (map fst hs) \<and> map_of hs = M \<and>
    headers_output t = concat (map (\<lambda>(f, v). f @ '': '' @ v @ [CHR 0x0D, CHR 0x0A]) hs) \<and>
    (\<forall>(f, v) \<in> set (table_pairs t). valid_cstring f \<and> text_ok v)"
proof -
  let ?hs = "map (\<lambda>(f, v). (f, the v)) (table_pairs t)"
  have t: "table_inv cad_hash_strings t" and a: "hash_abs t = (\<lambda>f. map_option Some (M f))"
    using assms(1) by (simp_all add: headers_show_def)
  note T = table_pairs_map [OF t]
  have v: "\<exists>u. v = Some u \<and> M f = Some u" if "(f, v) \<in> set (table_pairs t)" for f v
    using map_of_is_SomeI [OF T(1) that] a T(2) by auto
  have d: "distinct (map fst ?hs)" using T(1) by (simp add: comp_def case_prod_beta)
  have "map_of ?hs f = M f" for f
  proof -
    have "map_of ?hs f = map_option the (map_of (table_pairs t) f)"
      by (induction "table_pairs t") (auto simp: map_of_map)
    then show ?thesis using a T(2) by (cases "M f") auto
  qed
  then have m: "map_of ?hs = M" by auto
  have "map (\<lambda>(k, v). k @ '': '' @ (case v of None \<Rightarrow> [] | Some v \<Rightarrow> v) @ [CHR 0x0D, CHR 0x0A]) (table_pairs t) =
      map (\<lambda>(f, v). f @ '': '' @ v @ [CHR 0x0D, CHR 0x0A]) ?hs"
    using v by fastforce
  then have "headers_output t = concat (map (\<lambda>(f, v). f @ '': '' @ v @ [CHR 0x0D, CHR 0x0A]) ?hs)"
    by (simp only: headers_output_def)
  moreover have "\<forall>(f, v) \<in> set (table_pairs t). valid_cstring f \<and> text_ok v"
    using v assms(2) by fastforce
  ultimately show ?thesis using d m by blast
qed

lemma jar_shows_pairs:
  assumes "jar_shows b this M" "\<And>n c. M n = Some c \<Longrightarrow> cookie_ok c"
  shows "\<exists>ns addrs. distinct ns \<and> set ns = dom M \<and> table_values (jar this) = map Some addrs \<and> distinct addrs \<and>
    printable (store this) addrs \<and> map (cookie_output (store this)) addrs = map (\<lambda>n. cookie_line (M n)) ns"
proof -
  let ?ps = "table_pairs (jar this)"
  let ?ns = "map fst ?ps" and ?addrs = "map (the \<circ> snd) ?ps"
  note J = jar_showsD [OF assms(1)]
  note T = table_pairs_map [OF J(1)]
  have p: "\<exists>a c. v = Some a \<and> M n = Some c \<and> cm_cookies (store this) a = Some c" if "(n, v) \<in> set ?ps" for n v
    using map_of_is_SomeI [OF T(1) that] T(2) J(7) by simp
  have vals: "table_values (jar this) = map Some ?addrs"
  proof -
    have "table_values (jar this) = map snd ?ps" by (rule table_values_pairs)
    also have "\<dots> = map Some ?addrs" using p by fastforce
    finally show ?thesis .
  qed
  have "distinct ?addrs"
  proof -
    have "inj_on (the \<circ> snd) (set ?ps)"
    proof (rule inj_onI)
      fix x y
      assume xy: "x \<in> set ?ps" "y \<in> set ?ps" "(the \<circ> snd) x = (the \<circ> snd) y"
      obtain n v n' v' where e: "x = (n, v)" "y = (n', v')" by (cases x; cases y)
      then have "v = v'" using p [of n v] p [of n' v'] xy by auto
      moreover have "hash_abs (jar this) n = Some v" "hash_abs (jar this) n' = Some v'"
        using map_of_is_SomeI [OF T(1)] xy(1,2) T(2) e by auto
      ultimately show "x = y" using jar_shows_inj [OF assms(1)] e by blast
    qed
    then show ?thesis using T(1) by (simp add: distinct_map)
  qed
  moreover have "set ?ns = dom M"
  proof -
    have "set ?ns = dom (hash_abs (jar this))" using T(2) by (metis dom_map_of_conv_image_fst set_map)
    also have "\<dots> = dom M" using J(4,6) by (fastforce simp: dom_def)
    finally show ?thesis .
  qed
  moreover have "printable (store this) ?addrs"
    using p assms(2) by (fastforce simp: printable_def cookie_ok_def)
  moreover have "map (cookie_output (store this)) ?addrs = map (\<lambda>n. cookie_line (M n)) ?ns"
    using p by (fastforce simp: cookie_output_def cookie_line_def)
  ultimately show ?thesis using T(1) vals by blast
qed

lemma shows_page_response_ok:
  assumes sh: "shows_page b this pg" and ok: "page_ok pg" and body: "pg_body pg = Some cs"
  shows "\<exists>addrs hs ns. page_orders pg hs ns \<and> response_ok this addrs cs \<and> response_output this addrs cs = page_output pg hs ns"
proof -
  have h: "headers_show b (rs_headers this) (pg_headers pg)" and j: "jar_shows b (rs_cookies this) (pg_cookies pg)"
      and bd: "body_shows (rs_body_stream this) (Some cs)"
    using sh body by (simp_all add: shows_page_def)
  note H = shows_page_head [OF sh ok]
  obtain hs where hs: "distinct (map fst hs)" "map_of hs = pg_headers pg"
      "headers_output (rs_headers this) = concat (map (\<lambda>(f, v). f @ '': '' @ v @ [CHR 0x0D, CHR 0x0A]) hs)"
      "\<forall>(f, v) \<in> set (table_pairs (rs_headers this)). valid_cstring f \<and> text_ok v"
    using headers_show_pairs [OF h] ok by (force simp: page_ok_def)
  obtain ns addrs where ns: "distinct ns" "set ns = dom (pg_cookies pg)"
      "table_values (jar (rs_cookies this)) = map Some addrs" "distinct addrs" "printable (store (rs_cookies this)) addrs"
      "map (cookie_output (store (rs_cookies this))) addrs = map (\<lambda>n. cookie_line (pg_cookies pg n)) ns"
    using jar_shows_pairs [OF j] ok by (force simp: page_ok_def)
  obtain buf where "rs_body this = Some buf" "c_string buf = Some cs"
    using bd oss_c_string [of "rs_body_stream this"] by (cases "oss_string (rs_body_stream this)")
      (auto simp: body_shows_def rs_body_def)
  moreover have "hash_inv (rs_headers this)" "hash_inv (jar (rs_cookies this))" "valid_cstring cs"
    using h jar_showsD(1) [OF j] ok body by (simp_all add: headers_show_def table_inv_def page_ok_def)
  ultimately have "response_ok this addrs cs"
    using H(2-5) hs(4) ns(3-5) unfolding response_ok_def by blast
  moreover have "response_output this addrs cs = page_output pg hs ns"
    unfolding response_output_def page_output_def H(1) hs(3) ns(6) body by simp
  ultimately show ?thesis using hs(1,2) ns(1,2) unfolding page_orders_def by blast
qed

section \<open>Release\<close>

lemma free_cookies_fold:
  assumes "distinct addrs" "\<forall>a \<in> set addrs. \<exists>c. cm_cookies m a = Some c \<and> ck_value c \<noteq> Wild"
  shows "\<exists>m'. fold (clean_cookie 0 []) (map Some addrs) (Some m) = Some m' \<and>
    (\<forall>a. cm_cookies m' a = (if a \<in> set addrs then None else cm_cookies m a))"
  using assms
proof (induction addrs arbitrary: m)
  case (Cons a addrs)
  obtain c where c: "cm_cookies m a = Some c" "ck_value c \<noteq> Wild" using Cons.prems(2) by auto
  let ?m = "m\<lparr>cm_cookies := (cm_cookies m)(a := None)\<rparr>"
  have "clean_cookie 0 [] (Some a) (Some m) = Some ?m" using c by (simp add: clean_cookie_def free_cookie_def)
  moreover have "distinct addrs" "\<forall>b \<in> set addrs. \<exists>c. cm_cookies ?m b = Some c \<and> ck_value c \<noteq> Wild"
    using Cons.prems by auto
  from Cons.IH [OF this] obtain m' where "fold (clean_cookie 0 []) (map Some addrs) (Some ?m) = Some m'"
      "\<forall>b. cm_cookies m' b = (if b \<in> set addrs then None else cm_cookies ?m b)" by blast
  ultimately show ?case by auto
qed simp

lemma free_cookies_total:
  assumes "hash_inv (jar this)" "table_values (jar this) = map Some addrs" "distinct addrs"
    and "\<forall>a \<in> set addrs. \<exists>c. cm_cookies (store this) a = Some c \<and> ck_value c \<noteq> Wild"
  shows "\<exists>m. free_cookies this = Some (m, {#}) \<and>
    (\<forall>a. cm_cookies m a = (if a \<in> set addrs then None else cm_cookies (store this) a))"
proof -
  obtain m where m: "fold (clean_cookie 0 []) (map Some addrs) (Some (store this)) = Some m"
      "\<forall>a. cm_cookies m a = (if a \<in> set addrs then None else cm_cookies (store this) a)"
    using free_cookies_fold [OF assms(3,4)] by blast
  obtain j where j: "hash_clean (jar this) clean_cookie (Some (store this)) =
      Some (fold_entries clean_cookie 0 (hi_entries (jar this)) (Some (store this)), j)" "hash_inv j"
    using hash_clean_total [OF assms(1)] by metis
  have "fold_entries clean_cookie 0 (hi_entries (jar this)) (Some (store this)) = Some m"
    using assms(2) m(1) by (subst fold_entries_values [of _ "clean_cookie 0 []"])
      (simp_all add: clean_cookie_def table_values_def)
  then show ?thesis using j hash_free_total [OF j(2)] m(2) by (simp add: free_cookies_def)
qed

lemma release_table_total:
  assumes "hash_inv t"
  shows "\<exists>n. release_table t = Some (n, {#})"
proof -
  obtain t' where "hash_clean t clean_string 0 = Some (fold_entries clean_string 0 (hi_entries t) 0, t')" "hash_inv t'"
    by (rule hash_clean_total [OF assms])
  then show ?thesis by (simp add: release_table_def hash_free_total)
qed

lemma free_meta_total:
  assumes "meta_known env rest iinv view this"
  shows "\<exists>n. free_meta this = Some (n, {#})"
proof -
  have total: "\<exists>n. (case t of None \<Rightarrow> Some (0, {#}) | Some t \<Rightarrow> release_table t) = Some (n, {#})"
    if "\<And>u. t = Some u \<Longrightarrow> hash_inv u" for t
    using that release_table_total by (cases t) simp_all
  obtain n1 where "(case mi_input_as_form this of None \<Rightarrow> Some (0, {#}) | Some t \<Rightarrow> release_table t) = Some (n1, {#})"
    using total [of "mi_input_as_form this"] meta_known_tables(3) [OF assms] by blast
  moreover obtain n2 where "(case mi_query_string this of None \<Rightarrow> Some (0, {#}) | Some t \<Rightarrow> release_table t) = Some (n2, {#})"
    using total [of "mi_query_string this"] meta_known_tables(2) [OF assms] by blast
  moreover obtain n3 where "release_table (mi_ct_parameters this) = Some (n3, {#})"
    using release_table_total [OF meta_known_tables(1) [OF assms]] by blast
  ultimately show ?thesis by (simp add: free_meta_def)
qed

lemma shows_page_release:
  assumes sh: "shows_page b this pg" and ok: "page_ok pg" and q: "meta_known env rest iinv view (rs_meta this)"
  shows "\<exists>m. free_response this = Some (m, {#}) \<and>
    (\<forall>n a. cookies_get (rs_cookies this) n = Some (Some a) \<longrightarrow> cm_cookies m a = None) \<and>
    (\<forall>m0. store_ok m0 \<and> jar_frame m0 (rs_cookies this) \<longrightarrow> cm_cookies m = cm_cookies m0)"
proof -
  have j: "jar_shows b (rs_cookies this) (pg_cookies pg)" and h: "hash_inv (rs_headers this)"
    using sh by (auto simp: shows_page_def headers_show_def table_inv_def)
  note J = jar_showsD [OF j]
  obtain addrs where a: "table_values (jar (rs_cookies this)) = map Some addrs" "distinct addrs"
    using jar_shows_pairs [OF j] ok by (force simp: page_ok_def)
  have vals: "a \<in> set addrs \<longleftrightarrow> (\<exists>n. hash_abs (jar (rs_cookies this)) n = Some (Some a))" for a
  proof -
    have "table_values (jar (rs_cookies this)) = map snd (table_pairs (jar (rs_cookies this)))"
      by (rule table_values_pairs)
    then have "a \<in> set addrs \<longleftrightarrow> Some a \<in> snd ` set (table_pairs (jar (rs_cookies this)))"
      using a(1) by (metis (no_types, lifting) image_iff list.set_map option.inject)
    also have "\<dots> \<longleftrightarrow> (\<exists>n. map_of (table_pairs (jar (rs_cookies this))) n = Some (Some a))"
      using table_pairs_map(1) [OF J(1)] by (force dest: map_of_SomeD)
    finally show ?thesis using table_pairs_map(2) [OF J(1)] by simp
  qed
  have "\<forall>a \<in> set addrs. \<exists>c. cm_cookies (store (rs_cookies this)) a = Some c \<and> ck_value c \<noteq> Wild"
  proof
    fix a
    assume "a \<in> set addrs"
    then obtain n where "hash_abs (jar (rs_cookies this)) n = Some (Some a)" using vals by blast
    then obtain c where "pg_cookies pg n = Some c" "cm_cookies (store (rs_cookies this)) a = Some c" using J(7) by blast
    then show "\<exists>c. cm_cookies (store (rs_cookies this)) a = Some c \<and> ck_value c \<noteq> Wild"
      using ok by (auto simp: page_ok_def cookie_ok_def)
  qed
  then obtain m where m: "free_cookies (rs_cookies this) = Some (m, {#})"
      "\<forall>a. cm_cookies m a = (if a \<in> set addrs then None else cm_cookies (store (rs_cookies this)) a)"
    using free_cookies_total [OF _ a] J(1) by (auto simp: table_inv_def)
  have "\<exists>n. free_meta (rs_meta this) = Some (n, {#})" by (rule free_meta_total [OF q])
  moreover have "\<forall>n a. cookies_get (rs_cookies this) n = Some (Some a) \<longrightarrow> cm_cookies m a = None"
  proof (intro allI impI)
    fix n a
    assume "cookies_get (rs_cookies this) n = Some (Some a)"
    then have "or_null (hash_abs (jar (rs_cookies this)) n) = Some a"
      using string_table.get_law [OF J(1), of n] by (simp add: cookies_get_def)
    then have "hash_abs (jar (rs_cookies this)) n = Some (Some a)"
      by (cases "hash_abs (jar (rs_cookies this)) n") simp_all
    then show "cm_cookies m a = None" using vals m(2) by auto
  qed
  moreover have "cm_cookies m = cm_cookies m0" if "store_ok m0" "jar_frame m0 (rs_cookies this)" for m0
  proof
    fix a
    show "cm_cookies m a = cm_cookies m0 a"
    proof (cases "a \<in> set addrs")
      case True
      then have "cm_next m0 \<le> a" using vals that(2) by (auto simp: jar_frame_def)
      then show ?thesis using True m(2) that(1) by (simp add: store_ok_def)
    next
      case False
      then show ?thesis using m(2) vals that(2) by (metis jar_frame_def)
    qed
  qed
  ultimately show ?thesis using m(1) release_table_total [OF h] by (auto simp: free_response_def)
qed

text \<open>A flush leaves a response that shows the page with its cookies unchanged.\<close>

lemma shows_page_flushed:
  assumes sh: "shows_page b this pg" and ok: "page_ok pg" and r: "response_ok this addrs cs"
  defines "pg' \<equiv> pg\<lparr>pg_cookies := \<lambda>k. map_option (\<lambda>c. c\<lparr>ck_changed := False\<rparr>) (pg_cookies pg k)\<rparr>"
  shows "shows_page b (this\<lparr>rs_cookies := (rs_cookies this)\<lparr>store := unchanged (store (rs_cookies this)) (set addrs)\<rparr>\<rparr>) pg'"
    "page_ok pg'" "jar_kept (rs_cookies this) ((rs_cookies this)\<lparr>store := unchanged (store (rs_cookies this)) (set addrs)\<rparr>)"
proof -
  show "page_ok pg'" using ok by (auto simp: page_ok_def pg'_def cookie_ok_def)
  have j: "jar_shows b (rs_cookies this) (pg_cookies pg)" using sh by (simp add: shows_page_def)
  note J = jar_showsD [OF j]
  have vals: "a \<in> set addrs" if "hash_abs (jar (rs_cookies this)) n = Some (Some a)" for n a
  proof -
    have "(n, Some a) \<in> set (table_pairs (jar (rs_cookies this)))"
      using that table_pairs_map(2) [OF J(1)] by (metis map_of_SomeD)
    then have "Some a \<in> snd ` set (table_pairs (jar (rs_cookies this)))" by force
    moreover have "table_values (jar (rs_cookies this)) = map snd (table_pairs (jar (rs_cookies this)))"
      by (rule table_values_pairs)
    ultimately have "Some a \<in> set (map Some addrs)" using r by (metis response_ok_def list.set_map)
    then show ?thesis by auto
  qed
  let ?m = "unchanged (store (rs_cookies this)) (set addrs)"
  have named: "\<exists>n. hash_abs (jar (rs_cookies this)) n = Some (Some a)" if "a \<in> set addrs" for a
  proof -
    have "Some a \<in> set (table_values (jar (rs_cookies this)))" using that r by (simp add: response_ok_def)
    then obtain n where "(n, Some a) \<in> set (table_pairs (jar (rs_cookies this)))" by (auto simp: table_values_pairs)
    then show ?thesis using map_of_is_SomeI [OF table_pairs_map(1) [OF J(1)]] table_pairs_map(2) [OF J(1)] by metis
  qed
  have "cm_cookies ?m a = cm_cookies (store (rs_cookies this)) a \<or> a \<in> set addrs" for a by (simp add: unchanged_def)
  then show "jar_kept (rs_cookies this) ((rs_cookies this)\<lparr>store := ?m\<rparr>)"
    using named unfolding jar_kept_def jar_frame_def by (simp add: unchanged_def)
  have "\<exists>a. hash_abs (jar (rs_cookies this)) n = Some (Some a) \<and> cm_cookies ?m a = Some (c\<lparr>ck_changed := False\<rparr>)"
    if "pg_cookies pg n = Some c" for n c
    using J(6) [OF that] vals by (auto simp: unchanged_def)
  then have "jar_shows b ((rs_cookies this)\<lparr>store := ?m\<rparr>) (pg_cookies pg')"
    using j unfolding jar_shows_def by (auto simp: pg'_def) (simp add: unchanged_def)
  then show "shows_page b (this\<lparr>rs_cookies := (rs_cookies this)\<lparr>store := ?m\<rparr>\<rparr>) pg'"
    using sh by (simp add: shows_page_def pg'_def)
qed

lemma flush_response_no_body: "rs_body this = NULL \<Longrightarrow> flush_response ops this out = None"
  by (auto simp: flush_response_def flush_body_def split: bind_splits)

text \<open>What becomes of a response with a body: its flush writes the page, and then it can be released.\<close>

lemma shows_page_served:
  assumes out: "output_stream ops written ok limit" "ok out"
    and sh: "shows_page b this pg" "page_ok pg" "meta_known env rest iinv view (rs_meta this)" and body: "pg_body pg = Some cs"
    and room: "\<And>hs ns. page_orders pg hs ns \<Longrightarrow> length (written out) + length (page_output pg hs ns) \<le> limit"
  shows "\<exists>this' out' hs ns m. flush_response ops this out = Some (this', out') \<and>
    page_orders pg hs ns \<and> written out' = written out @ page_output pg hs ns \<and>
    free_response this' = Some (m, {#}) \<and>
    (\<forall>k a. cookies_get (rs_cookies this') k = Some (Some a) \<longrightarrow> cm_cookies m a = None) \<and>
    (\<forall>m0. store_ok m0 \<and> jar_frame m0 (rs_cookies this) \<longrightarrow> cm_cookies m = cm_cookies m0)"
proof -
  obtain addrs hs ns where o: "page_orders pg hs ns" "response_ok this addrs cs"
      "response_output this addrs cs = page_output pg hs ns"
    using shows_page_response_ok [OF sh(1,2) body] by blast
  let ?this' = "this\<lparr>rs_cookies := (rs_cookies this)\<lparr>store := unchanged (store (rs_cookies this)) (set addrs)\<rparr>\<rparr>"
  obtain out' where f: "flush_response ops this out = Some (?this', out')"
      "written out' = written out @ page_output pg hs ns"
    using output_stream.flush_response_total [OF out(1) o(2) out(2)] room [OF o(1)] o(3) by auto
  let ?pg' = "pg\<lparr>pg_cookies := \<lambda>k. map_option (\<lambda>c. c\<lparr>ck_changed := False\<rparr>) (pg_cookies pg k)\<rparr>"
  have p: "shows_page b ?this' ?pg'" "page_ok ?pg'" "jar_kept (rs_cookies this) (rs_cookies ?this')"
    using shows_page_flushed [OF sh(1,2) o(2)] by simp_all
  have "meta_known env rest iinv view (rs_meta ?this')" using sh(3) by simp
  from shows_page_release [OF p(1,2) this] obtain m where "free_response ?this' = Some (m, {#})"
      "\<forall>k a. cookies_get (rs_cookies ?this') k = Some (Some a) \<longrightarrow> cm_cookies m a = None"
      "\<forall>m0. store_ok m0 \<and> jar_frame m0 (rs_cookies ?this') \<longrightarrow> cm_cookies m = cm_cookies m0" by blast
  then show ?thesis using f o(1) p(3) unfolding jar_kept_def by blast
qed

section \<open>A session\<close>

text \<open>A request: the pairs of its cookies and the text of its query; \<open>fresh\<close> is what new memory holds where a
  cookie keeps its value.\<close>

definition request_ok :: "value_ptr \<Rightarrow> environ \<Rightarrow> (cstring \<times> cstring) list \<Rightarrow> cstring \<Rightarrow> bool" where
  "request_ok fresh env ps q \<longleftrightarrow>
     (ps = [] \<or> fresh \<noteq> Wild) \<and> (\<forall>p \<in> set ps. valid_pair p) \<and>
     env ''HTTP_COOKIE'' = (if ps = [] then None else Some (cookie_header ps)) \<and>
     env ''QUERY_STRING'' = Some q \<and> no_nul q \<and> length q \<le> 2 ^ 27"

text \<open>What the input stream holds is the form.\<close>

definition form_ok :: "('s \<Rightarrow> char list) \<Rightarrow> ('s \<Rightarrow> bool) \<Rightarrow> 's ptr \<Rightarrow> cstring \<Rightarrow> bool" where
  "form_ok rest iinv ins f \<longleftrightarrow>
     (\<exists>i. ins = Some i \<and> iinv i \<and> rest i = f) \<and> no_nul f \<and> length f \<le> 2 ^ 27"

lemma new_cookies_holds:
  assumes "request_ok fresh env ps q" "3 * length ps + 4 \<le> 2 ^ 29"
  shows "\<exists>this w'. new_cookies fresh salt w env m = Some (this, w') \<and> jar_holds m this ps"
proof -
  obtain j :: "(cstring, nat) cad_hash_impl" and w' where new: "cad_new_hash True salt w cad_hash_strings = (Some j, w')"
    by (cases "salt w") (simp add: cad_new_hash_def)
  let ?start = "\<lparr>jar = j, store = m\<rparr>"
  have h: "jar_holds m ?start []" using new_table [OF new] by (simp add: jar_holds_def jar_frame_def)
  show ?thesis
  proof (cases "ps = []")
    case True
    then show ?thesis using h new assms(1) by (simp add: new_cookies_def request_ok_def)
  next
    case False
    then have "cookie_header ps \<noteq> []" by (cases ps rule: cookie_header.cases) auto
    then show ?thesis
      using loop_header [of fresh ps m ?start "[]" 0 "[]" 0] False h new assms
      by (auto simp: new_cookies_def request_ok_def parse_cookies_def)
  qed
qed

lemma new_response_shows:
  fixes ins :: "'s ptr" and salt :: "'w \<Rightarrow> int \<times> 'w"
  assumes "request_ok fresh env ps q" "form_ok rest iinv ins f" "3 * length ps + 4 \<le> 2 ^ 29"
  shows "\<exists>(this :: 's response_impl) w'. new_cad_cgi_response fresh NULL srv True salt env m w ins fd = Some (Some this, w') \<and>
    shows_page (4 + 3 * length ps) this (page_start ps) \<and> meta_known env rest iinv (request_view q f) (rs_meta this) \<and>
    (distinct (map fst ps) \<longrightarrow> jar_frame m (rs_cookies this))"
proof -
  obtain ck w1 where ck: "new_cookies fresh salt w env m = Some (ck, w1)" "jar_holds m ck ps"
    using new_cookies_holds [OF assms(1,3), of salt w m] by blast
  obtain hd :: string_table and w2 where hd: "cad_new_hash True salt w1 cad_hash_strings = (Some hd, w2)"
    by (cases "salt w1") (simp add: cad_new_hash_def)
  obtain ct :: string_table and w3 where ct: "cad_new_hash True salt w2 cad_hash_strings = (Some ct, w3)"
    by (cases "salt w2") (simp add: cad_new_hash_def)
  obtain meta :: "'s meta_impl" where meta: "new_meta NULL srv salt env w2 ins = Some (meta, w3)"
      "mi_ct_parameters meta = ct" "mi_input_as_form meta = NULL" "mi_query_string meta = NULL" "mi_in meta = ins"
    using ct by (simp add: new_meta_def)
  let ?r = "\<lparr>rs_cookies = ck, rs_body_stream = new_string_stream, rs_redirect_path = NULL,
                 rs_redirect_fragment = NULL, rs_status = 0, rs_content_type = NULL,
                 rs_headers = hd, rs_meta = meta, rs_fd = fd\<rparr>"
  have "new_cad_cgi_response fresh NULL srv True salt env m w ins fd = Some (Some ?r, w3)"
    using ck(1) hd meta(1) by (simp add: new_cad_cgi_response_def)
  moreover have "shows_page (4 + 3 * length ps) ?r (page_start ps)"
    using jar_holds_shows [OF ck(2)] new_table [OF hd] new_string_stream_inv
    by (auto simp: shows_page_def page_start_def headers_show_def body_shows_def new_string_stream_def)
  moreover have "meta_known env rest iinv (request_view q f) meta"
    using assms(1,2) meta(2-5) cad_new_hash_inv(1) [OF ct]
    by (auto simp: meta_known_def query_known_def form_known_def request_ok_def form_ok_def request_view_def)
  moreover have "distinct (map fst ps) \<longrightarrow> jar_frame m (rs_cookies ?r)" using ck(2) by (simp add: jar_holds_def)
  ultimately show ?thesis by (intro exI [of _ ?r] exI [of _ w3]) simp
qed

text \<open>The runner on a request. What is in the memory that \<open>new_cad_cgi_cookie\<close> leaves uninitialised at the value,
  and \<open>new_meta\<close> at \<open>input_as_form\<close>, are the arguments \<open>fresh\<close> and \<open>form\<close>.\<close>

definition session_run ::
  "'s cad_input_stream \<Rightarrow> 'o cad_output_stream \<Rightarrow> handler \<Rightarrow> value_ptr \<Rightarrow> string_table ptr \<Rightarrow> cstring ptr \<Rightarrow> ('w \<Rightarrow> int \<times> 'w)
    \<Rightarrow> environ \<Rightarrow> cookie_store \<Rightarrow> 'w \<Rightarrow> 'w \<Rightarrow> ('s, 'o) cgi_impl
    \<Rightarrow> ('s response_impl ptr \<times> (cookie_store \<times> cstring multiset) ptr \<times> ('s, 'o) cgi_impl \<times> 'w) option" where
  "session_run iops ops h fresh form srv salt env m w wh this =
     cgi_run_slot cgi_fn ops (handler_cb iops salt env wh h) (\<lambda>w. new_cad_cgi_response fresh form srv True salt env m w (ci_in this)) w this"

lemma session_follows_page:
  fixes this :: "('s, 'o) cgi_impl" and salt :: "'w \<Rightarrow> int \<times> 'w"
  assumes "input_stream iops rest iinv" "request_ok fresh env ps q" "form_ok rest iinv (ci_in this) f" "form = NULL"
    and "calls_ok (request_view q f) h n (page_start ps)" "3 * (length ps + n) + 4 \<le> 2 ^ 29"
    and "page_run (request_view q f) h (page_start ps) = (s, pg)"
  shows "\<exists>(response :: 's response_impl) w'. shows_page (4 + 3 * (length ps + n)) response pg \<and> page_ok pg \<and>
    meta_known env rest iinv (request_view q f) (rs_meta response) \<and>
    (distinct (map fst ps) \<and> store_ok m \<longrightarrow> jar_frame m (rs_cookies response)) \<and>
    session_run iops ops h fresh form srv salt env m w wh this =
      (if s \<noteq> 0 then do {
         (_, out') \<leftarrow> cos_put ops (ci_out this) (run_error s);
         released \<leftarrow> free_response response;
         Some (NULL, Some released, this\<lparr>ci_out := out'\<rparr>, w')
       } else Some (Some response, NULL, this, w'))"
proof -
  have len: "3 * length ps + 4 \<le> 2 ^ 29" "4 + 3 * length ps + 3 * n \<le> 2 ^ 29" using assms(6) by simp_all
  let ?fd = "if ci_fd this = 0 then 1 else -1"
  obtain r :: "'s response_impl" and w' where r: "new_cad_cgi_response fresh NULL srv True salt env m w (ci_in this) ?fd = Some (Some r, w')"
      "shows_page (4 + 3 * length ps) r (page_start ps)" "meta_known env rest iinv (request_view q f) (rs_meta r)"
      "distinct (map fst ps) \<longrightarrow> jar_frame m (rs_cookies r)"
    using new_response_shows [OF assms(2,3) len(1), where srv = srv and salt = salt and m = m and w = w
        and fd = ?fd] by blast
  obtain response w'' where h: "run_handler iops salt env h wh r = Some (s, response, w'')"
      "shows_page (4 + 3 * length ps + 3 * n) response pg" "page_ok pg"
      "meta_known env rest iinv (request_view q f) (rs_meta response)" "jar_kept (rs_cookies r) (rs_cookies response)"
    using run_handler_shows [OF assms(1) r(2) page_start_ok r(3) assms(5) len(2), of salt wh] assms(7) by auto
  have "session_run iops ops h fresh form srv salt env m w wh this =
      (if s \<noteq> 0 then do {
         (_, out') \<leftarrow> cos_put ops (ci_out this) (run_error s);
         released \<leftarrow> free_response response;
         Some (NULL, Some released, this\<lparr>ci_out := out'\<rparr>, w')
       } else Some (Some response, NULL, this, w'))"
    using r(1) h(1) assms(4) by (simp add: session_run_def cgi_run_def handler_cb_def)
  moreover have "4 + 3 * length ps + 3 * n = 4 + 3 * (length ps + n)" by simp
  moreover have "distinct (map fst ps) \<and> store_ok m \<longrightarrow> jar_frame m (rs_cookies response)"
    using r(4) h(5) by (simp add: jar_kept_def)
  ultimately show ?thesis using h(2-4) by metis
qed

end
