(* ===== verification/Cad_Cgi_Session_Props.thy ===== *)
theory Cad_Cgi_Session_Props
  imports Cad_Cgi_Session_Laws
begin

text \<open>
  The properties of a whole request: what a client of the runner gets on the wire for any handler,
  and what becomes of the response when the handler fails.
\<close>

text \<open>C3: for every handler that ends with 0, whatever calls it makes on its response within \<open>calls_ok\<close>, and however they
  depend on the query, the form, the cookies and the results of the calls before: the runner returns a response, with its
  output untouched and nothing released. If the handler has put a body, the flush of the response writes exactly the page that the
  same handler makes of plain data and maps: the status lines, each header with its last value, the line of each changed
  cookie, and the body with the line ends of the wire. If it has put none, a redirection included, the flush faults (C29).
  Flushed or not, the response can be released, with every key copy and every cookie of its jar; when the request
  names no cookie twice, the cookies that are left are those from before the request. This holds when the memory that
  \<open>new_meta\<close> does not initialise holds \<open>NULL\<close>.\<close>

theorem session_serves_page:
  fixes this :: "('s, 'o) cgi_impl"
  assumes "output_stream ops written ok limit" "ok (ci_out this)"
    and "input_stream iops rest iinv" "request_ok fresh env ps q" "form_ok rest iinv (ci_in this) f" "form = NULL"
    and "calls_ok (request_view q f) h n (page_start ps)" "3 * (length ps + n) + 4 \<le> 2 ^ 29"
    and "page_run (request_view q f) h (page_start ps) = (0, pg)"
    and "\<And>hs ns. pg_body pg \<noteq> NULL \<Longrightarrow> page_orders pg hs ns \<Longrightarrow>
      length (written (ci_out this)) + length (page_output pg hs ns) \<le> limit"
  shows "\<exists>(response :: 's response_impl) w'.
    session_run iops ops h fresh form srv salt env m w wh this = Some (Some response, NULL, this, w') \<and>
    (\<exists>m'. response_free_slot response_table response = Some (m', {#}) \<and>
       (distinct (map fst ps) \<and> store_ok m \<longrightarrow> cm_cookies m' = cm_cookies m)) \<and>
    (if pg_body pg = NULL then response_flush_slot response_fn ops response (ci_out this) = None
     else \<exists>response' out hs ns m'.
       response_flush_slot response_fn ops response (ci_out this) = Some (response', out) \<and>
       page_orders pg hs ns \<and> written out = written (ci_out this) @ page_output pg hs ns \<and>
       response_free_slot response_table response' = Some (m', {#}) \<and>
       (\<forall>k a. cookies_get_slot cookies_table (rs_cookies response') k = Some (Some a) \<longrightarrow> cm_cookies m' a = None) \<and>
       (distinct (map fst ps) \<and> store_ok m \<longrightarrow> cm_cookies m' = cm_cookies m))"
proof -
  obtain response :: "'s response_impl" and w' where r: "shows_page (4 + 3 * (length ps + n)) response pg" "page_ok pg"
      "meta_known env rest iinv (request_view q f) (rs_meta response)"
      "distinct (map fst ps) \<and> store_ok m \<longrightarrow> jar_frame m (rs_cookies response)"
      "session_run iops ops h fresh form srv salt env m w wh this = Some (Some response, NULL, this, w')"
    using session_follows_page [OF assms(3-9), where ops = ops and srv = srv and salt = salt and m = m and w = w and wh = wh] by auto
  have free: "\<exists>m'. free_response response = Some (m', {#}) \<and>
      (distinct (map fst ps) \<and> store_ok m \<longrightarrow> cm_cookies m' = cm_cookies m)"
    using shows_page_release [OF r(1-3)] r(4) by blast
  show ?thesis
  proof (cases "pg_body pg")
    case None
    then have "rs_body response = NULL" using r(1) by (simp add: shows_page_def body_shows_def rs_body_def)
    then have "flush_response ops response (ci_out this) = None" by (rule flush_response_no_body)
    then have flush: "if pg_body pg = NULL then flush_response ops response (ci_out this) = None else P" for P
      using None by simp
    show ?thesis
      unfolding response_fn_simps
      by (rule exI [of _ response], rule exI [of _ w'], intro conjI) (rule r(5), rule free, rule flush)
  next
    case (Some cs)
    have room: "length (written (ci_out this)) + length (page_output pg hs ns) \<le> limit" if "page_orders pg hs ns" for hs ns
      using assms(10) [OF _ that] Some by simp
    note served = shows_page_served [OF assms(1,2) r(1-3) Some room]
    obtain response' out hs ns m' where
        "flush_response ops response (ci_out this) = Some (response', out)" "page_orders pg hs ns"
        "written out = written (ci_out this) @ page_output pg hs ns" "free_response response' = Some (m', {#})"
        "\<forall>k a. cookies_get (rs_cookies response') k = Some (Some a) \<longrightarrow> cm_cookies m' a = None"
        "distinct (map fst ps) \<and> store_ok m \<longrightarrow> cm_cookies m' = cm_cookies m"
      using served r(4) by blast
    then have flush: "\<exists>response' out hs ns m'. flush_response ops response (ci_out this) = Some (response', out) \<and>
        page_orders pg hs ns \<and> written out = written (ci_out this) @ page_output pg hs ns \<and>
        free_response response' = Some (m', {#}) \<and>
        (\<forall>k a. cookies_get (rs_cookies response') k = Some (Some a) \<longrightarrow> cm_cookies m' a = None) \<and>
        (distinct (map fst ps) \<and> store_ok m \<longrightarrow> cm_cookies m' = cm_cookies m)" by blast
    have body: "(pg_body pg = NULL) = False" using Some by simp
    show ?thesis
      unfolding response_fn_simps table_fn_simps body if_False
      by (rule exI [of _ response], rule exI [of _ w'], intro conjI) (rule r(5), rule free, rule flush)
  qed
qed

text \<open>A handler of a client: it shows a name of the query, and keeps one of the form in a cookie.\<close>

definition show_foo :: handler where
  "show_foo = Ask_Query ''foo'' (\<lambda>v. case v of
     None \<Rightarrow> Finish 4
   | Some foo \<Rightarrow> Invoke (Call_Header (Some ''X-Foo'') (Some foo)) (\<lambda>_.
       Invoke (Call_Header (Some ''status'') (Some foo)) (\<lambda>r.
       Ask_Form ''k'' (\<lambda>k. case k of
         None \<Rightarrow> Finish 6
       | Some k \<Rightarrow> Invoke (Call_Cookie (plain_cookie ''k'' k\<lparr>ck_changed := True\<rparr>)) (\<lambda>_.
           Invoke (Call_Body ''Test Body.'') (\<lambda>n. Finish (if r = -1 \<and> n = 10 then 0 else 5)))))))"

definition show_foo_page :: page where
  "show_foo_page = (page_start [])\<lparr>pg_headers := [''X-Foo'' \<mapsto> ''bar''],
     pg_cookies := [''k'' \<mapsto> plain_cookie ''k'' ''v''\<lparr>ck_changed := True\<rparr>], pg_body := Some ''Test Body.''\<rparr>"

lemma view_foo_bar: "request_view ''foo=bar'' ''k=v'' = \<lparr>rv_query = [''foo'' \<mapsto> ''bar''], rv_form = [''k'' \<mapsto> ''v'']\<rparr>"
  by (simp add: request_view_def query_pairs.simps query_attribute.simps(2) query_value.simps(2))

lemma allowed_X_Foo: "header_allowed ''X-Foo''" "\<not> header_allowed ''status''"
  by code_simp+

lemma show_foo_cookie:
  "cookie_printable (plain_cookie ''k'' ''v''\<lparr>ck_changed := True\<rparr>)"
  "set_cookie_line (plain_cookie ''k'' ''v''\<lparr>ck_changed := True\<rparr>) = ''Set-Cookie: k=v'' @ CRLF"
  by (simp_all add: cookie_printable_def set_cookie_line_def plain_cookie_def escape_value_def Cookie_default_def CRLF_def)

lemma show_foo_page_run: "page_run (request_view ''foo=bar'' ''k=v'') show_foo (page_start []) = (0, show_foo_page)"
  by (simp add: view_foo_bar show_foo_def show_foo_page_def page_start_def allowed_X_Foo plain_cookie_def)

lemma show_foo_calls_ok: "calls_ok (request_view ''foo=bar'' ''k=v'') show_foo 4 (page_start [])"
proof -
  have "cookie_ok (plain_cookie ''k'' ''v''\<lparr>ck_changed := True\<rparr>)"
    using show_foo_cookie(1) by (simp add: cookie_ok_def) (simp add: plain_cookie_def)
  then show ?thesis
    by (simp add: view_foo_bar show_foo_def page_start_def allowed_X_Foo INT_MAX_def)
qed

lemma show_foo_orders:
  assumes "page_orders show_foo_page hs ns"
  shows "hs = [(''X-Foo'', ''bar'')]" "ns = [''k'']"
proof -
  show "hs = [(''X-Foo'', ''bar'')]"
    using assms by (intro single_pair) (simp_all add: page_orders_def show_foo_page_def page_start_def)
  have ns: "distinct ns" "set ns = {''k''}"
    using assms by (auto simp: page_orders_def show_foo_page_def page_start_def)
  then obtain k ns' where k: "ns = k # ns'" by (cases ns) auto
  then have "k = ''k''" using ns(2) by auto
  moreover have "ns' = []" using ns k by (cases ns') auto
  ultimately show "ns = [''k'']" using k by simp
qed

lemma show_foo_output:
  "page_output show_foo_page [(''X-Foo'', ''bar'')] [''k''] =
     ''Content-Type: text/plain'' @ CRLF @ ''Status: 200'' @ CRLF @ ''X-Foo: bar'' @ CRLF @
     ''Set-Cookie: k=v'' @ CRLF @ CRLF @ ''Test Body.''"
  using show_foo_cookie
  by (simp add: page_output_def page_head_def show_foo_page_def page_start_def cookie_line_def CRLF_def)

definition no_cookies :: cookie_store where
  "no_cookies = \<lparr>cm_cookies = Map.empty, cm_next = 0\<rparr>"

definition form_stream :: cad_input_stream_string where
  "form_stream = \<lparr>iss_string = ''k=v'', iss_index = 0\<rparr>"

lemma form_stream_ok: "form_ok string_rest string_inv (Some form_stream) ''k=v''"
  using no_nul_no_pct [of "''k=v''"] by (simp add: form_ok_def form_stream_def string_inv_def string_rest_def)

text \<open>The handler on a request with a query and a form.\<close>

lemma session_serves_page_witness:
  "\<exists>(response :: cad_input_stream_string response_impl) response' w' out m'.
    session_run string_input string_output show_foo Null_Value NULL NULL (\<lambda>u. (0, u)) [''QUERY_STRING'' \<mapsto> ''foo=bar''] no_cookies () ()
      \<lparr>ci_in = Some form_stream, ci_out = new_string_stream, ci_fd = -1\<rparr> =
      Some (Some response, NULL, \<lparr>ci_in = Some form_stream, ci_out = new_string_stream, ci_fd = -1\<rparr>, w') \<and>
    flush_response string_output response new_string_stream = Some (response', out) \<and>
    string_written out =
      ''Content-Type: text/plain'' @ CRLF @ ''Status: 200'' @ CRLF @ ''X-Foo: bar'' @ CRLF @
      ''Set-Cookie: k=v'' @ CRLF @ CRLF @ ''Test Body.'' \<and>
    free_response response' = Some (m', {#}) \<and> cm_cookies m' = Map.empty"
proof -
  let ?cgi = "\<lparr>ci_in = Some form_stream, ci_out = new_string_stream, ci_fd = -1\<rparr> :: (cad_input_stream_string, cad_output_stream_string) cgi_impl"
  have ok: "oss_inv (ci_out ?cgi)" using new_string_stream_inv by simp
  have rq: "request_ok Null_Value [''QUERY_STRING'' \<mapsto> ''foo=bar''] [] ''foo=bar''"
    using no_nul_no_pct [of "''foo=bar''"] by (simp add: request_ok_def)
  have form_k: "form_ok string_rest string_inv (ci_in ?cgi) ''k=v''" by (simp add: form_stream_ok)
  have room: "length (string_written (ci_out ?cgi)) + length (page_output show_foo_page hs ns) \<le> INT_MAX div 2 - 1"
    if "page_orders show_foo_page hs ns" for hs ns
    unfolding show_foo_orders [OF that] show_foo_output using new_string_stream_inv by (simp add: CRLF_def INT_MAX_def)
  have body: "pg_body show_foo_page \<noteq> NULL" by (simp add: show_foo_page_def)
  have st: "store_ok no_cookies" "cm_cookies no_cookies = Map.empty" by (simp_all add: store_ok_def no_cookies_def)
  obtain response :: "cad_input_stream_string response_impl" and response' w' out hs ns m' where
      "session_run string_input string_output show_foo Null_Value NULL NULL (\<lambda>u. (0, u)) [''QUERY_STRING'' \<mapsto> ''foo=bar''] no_cookies () () ?cgi =
        Some (Some response, NULL, ?cgi, w')"
      "flush_response string_output response (ci_out ?cgi) = Some (response', out)" "page_orders show_foo_page hs ns"
      "string_written out = string_written (ci_out ?cgi) @ page_output show_foo_page hs ns"
      "free_response response' = Some (m', {#})" "cm_cookies m' = Map.empty"
    using session_serves_page [OF string_out.output_stream_axioms ok string_in.input_stream_axioms rq form_k refl show_foo_calls_ok _
        show_foo_page_run room, of NULL "\<lambda>u. (0, u)" no_cookies "()" "()"] body st
    by auto
  then show ?thesis
    using show_foo_orders [of hs ns] show_foo_output new_string_stream_inv by fastforce
qed

text \<open>C8: a handler that fails costs the whole response: the runner returns NULL, releases the response, with every key copy
  and every cookie of its jar (when the request names no cookie twice, the cookies that are left are those from before
  the request), and puts out a page of its own with the status 500, whatever the handler has set before. As for C3, the
  memory that \<open>new_meta\<close> does not initialise holds \<open>NULL\<close>.\<close>

theorem session_reports_failure:
  fixes this :: "('s, 'o) cgi_impl"
  assumes "output_stream ops written ok limit" "ok (ci_out this)"
    and "input_stream iops rest iinv" "request_ok fresh env ps q" "form_ok rest iinv (ci_in this) f" "form = NULL"
    and "calls_ok (request_view q f) h n (page_start ps)" "3 * (length ps + n) + 4 \<le> 2 ^ 29"
    and "page_run (request_view q f) h (page_start ps) = (s, pg)" "s \<noteq> 0"
    and "length (written (ci_out this)) + length (format_int s) + 86 \<le> limit"
  shows "\<exists>out w' m'.
    session_run iops ops h fresh form srv salt env m w wh this = Some (NULL, Some (m', {#}), this\<lparr>ci_out := out\<rparr>, w') \<and>
    written out = written (ci_out this) @
      ''Status: 500'' @ [CHR 0x0D, CHR 0x0A] @ ''Content-Type: text/plain'' @ [CHR 0x0D, CHR 0x0A] @ [CHR 0x0D, CHR 0x0A] @
      ''Internal error: handler failed with status '' @ format_int s @ [CHR 0x0D, CHR 0x0A] \<and>
    (distinct (map fst ps) \<and> store_ok m \<longrightarrow> cm_cookies m' = cm_cookies m)"
proof -
  obtain response :: "'s response_impl" and w' where r: "shows_page (4 + 3 * (length ps + n)) response pg" "page_ok pg"
      "meta_known env rest iinv (request_view q f) (rs_meta response)"
      "distinct (map fst ps) \<and> store_ok m \<longrightarrow> jar_frame m (rs_cookies response)"
      "session_run iops ops h fresh form srv salt env m w wh this = do {
         (_, out') \<leftarrow> cos_put ops (ci_out this) (run_error s);
         released \<leftarrow> free_response response;
         Some (NULL, Some released, this\<lparr>ci_out := out'\<rparr>, w')
       }"
    using session_follows_page [OF assms(3-9), where ops = ops and srv = srv and salt = salt and m = m and w = w and wh = wh] assms(10) by auto
  have e: "run_error s = ''Status: 500'' @ [CHR 0x0D, CHR 0x0A] @ ''Content-Type: text/plain'' @ [CHR 0x0D, CHR 0x0A] @
      [CHR 0x0D, CHR 0x0A] @ ''Internal error: handler failed with status '' @ format_int s @ [CHR 0x0D, CHR 0x0A]"
    by (simp add: run_error_def CRLF_def)
  then have "valid_cstring (run_error s)" "length (written (ci_out this)) + length (run_error s) \<le> limit"
    using assms(11) by (simp_all add: valid_format_int)
  then obtain out where "cos_put ops (ci_out this) (run_error s) = Some (int (length (run_error s)), out)"
      "written out = written (ci_out this) @ run_error s"
    using output_stream.put_law [OF assms(1,2)] by blast
  moreover obtain m' where "free_response response = Some (m', {#})"
      "distinct (map fst ps) \<and> store_ok m \<longrightarrow> cm_cookies m' = cm_cookies m"
    using shows_page_release [OF r(1-3)] r(4) by blast
  ultimately show ?thesis using r(5) unfolding e by auto
qed

lemma decimal_4: "format_int 4 = ''4''"
  by (simp add: format_int_def decimal.simps digit_char_def)

lemma session_reports_failure_witness:
  "\<exists>out w' m'. session_run string_input string_output show_foo Null_Value NULL NULL (\<lambda>u. (0, u))
      [''QUERY_STRING'' \<mapsto> ''x=y'', ''HTTP_COOKIE'' \<mapsto> ''a=1''] no_cookies () ()
      (\<lparr>ci_in = Some form_stream, ci_out = new_string_stream, ci_fd = -1\<rparr> :: (cad_input_stream_string, cad_output_stream_string) cgi_impl) =
      Some (NULL, Some (m', {#}), \<lparr>ci_in = Some form_stream, ci_out = out, ci_fd = -1\<rparr>, w') \<and>
    string_written out = ''Status: 500'' @ CRLF @ ''Content-Type: text/plain'' @ CRLF @ CRLF @
      ''Internal error: handler failed with status 4'' @ CRLF \<and>
    cm_cookies m' = Map.empty"
proof -
  let ?cgi = "\<lparr>ci_in = Some form_stream, ci_out = new_string_stream, ci_fd = -1\<rparr> :: (cad_input_stream_string, cad_output_stream_string) cgi_impl"
  have ok: "oss_inv (ci_out ?cgi)" using new_string_stream_inv by simp
  have q: "rv_query (request_view ''x=y'' ''k=v'') = [''x'' \<mapsto> ''y'']"
    by (simp add: request_view_def query_pairs.simps query_attribute.simps(2) query_value.simps(2))
  have rq: "request_ok Null_Value [''QUERY_STRING'' \<mapsto> ''x=y'', ''HTTP_COOKIE'' \<mapsto> ''a=1''] [(''a'', ''1'')] ''x=y''"
    using no_nul_no_pct [of "''x=y''"] by (simp add: request_ok_def valid_pair_def escape_value_def)
  have form_k: "form_ok string_rest string_inv (ci_in ?cgi) ''k=v''" by (simp add: form_stream_ok)
  have run: "page_run (request_view ''x=y'' ''k=v'') show_foo (page_start [(''a'', ''1'')]) = (4, page_start [(''a'', ''1'')])"
      "calls_ok (request_view ''x=y'' ''k=v'') show_foo 4 (page_start [(''a'', ''1'')])"
    by (simp_all add: show_foo_def q)
  have room: "length (string_written (ci_out ?cgi)) + length (format_int 4) + 86 \<le> INT_MAX div 2 - 1"
    unfolding decimal_4 using new_string_stream_inv by (simp add: INT_MAX_def)
  have st: "store_ok no_cookies" "cm_cookies no_cookies = Map.empty" by (simp_all add: store_ok_def no_cookies_def)
  show ?thesis
    using session_reports_failure [OF string_out.output_stream_axioms ok string_in.input_stream_axioms rq form_k refl run(2) _ run(1) _ room,
        of NULL "\<lambda>u. (0, u)" no_cookies "()" "()"] new_string_stream_inv st
    unfolding decimal_4 CRLF_def by auto
qed

end
