(* ===== verification/Cad_Events.thy ===== *)
theory Cad_Events
  imports Cad_Array
begin

text \<open>
  The events loops (src/cad_events.c, include/cad_events.h): the selector on \<open>pselect\<close>, the poller
  on \<open>ppoll\<close>. What the kernel finds ready at a wait is an argument of the wait; \<open>pselect\<close> and
  \<open>ppoll\<close> are modelled from it as POSIX documents them. A callback of the client is a name; its
  code is a parameter that acts on the events object and on the client's data, so that a callback
  may register descriptors while the loop that called it is running. The constructors leave the
  four callbacks indeterminate, and reading one then has no defined result.
\<close>

section \<open>The events object\<close>

datatype 'a stored = Indeterminate | Value 'a

record timespec =
  tv_sec :: int
  tv_nsec :: int

record selector =
  sel_read :: "int set"
  sel_write :: "int set"
  sel_exception :: "int set"
  sel_max :: int

record pollfd =
  pfd_fd :: int
  pfd_events :: "16 word"
  pfd_revents :: "16 word"

text \<open>\<open>'f\<close> is the member of the union that is in use: the selector, or the array of the poller.\<close>

record ('cb, 'f) events_impl =
  ev_fd :: 'f
  ev_timeout :: timespec
  ev_on_timeout :: "'cb ptr stored"
  ev_on_read :: "'cb ptr stored"
  ev_on_write :: "'cb ptr stored"
  ev_on_exception :: "'cb ptr stored"

type_synonym 'cb selector_impl = "('cb, selector) events_impl"
type_synonym 'cb poller_impl = "('cb, pollfd cad_array_impl) events_impl"

text \<open>The code of the callbacks, on an object \<open>'e\<close> and data \<open>'d\<close>.\<close>

record ('cb, 'e, 'd) client_code =
  run_timeout :: "'cb \<Rightarrow> 'e \<Rightarrow> 'd \<Rightarrow> ('e \<times> 'd) option"
  run_action :: "'cb \<Rightarrow> int \<Rightarrow> 'e \<Rightarrow> 'd \<Rightarrow> ('e \<times> 'd) option"

fun load :: "'a stored \<Rightarrow> 'a option" where
  "load Indeterminate = None"
| "load (Value v) = Some v"

section \<open>The operations the two loops share\<close>

definition set_timeout_impl :: "('cb, 'f) events_impl \<Rightarrow> 64 word \<Rightarrow> ('cb, 'f) events_impl" where
  "set_timeout_impl this timeout_us =
     this\<lparr>ev_timeout := \<lparr>tv_sec = uint (timeout_us div 1000000), tv_nsec = uint (timeout_us mod 1000000) * 1000\<rparr>\<rparr>"

definition on_timeout_impl :: "('cb, 'f) events_impl \<Rightarrow> 'cb ptr \<Rightarrow> ('cb, 'f) events_impl" where
  "on_timeout_impl this action = this\<lparr>ev_on_timeout := Value action\<rparr>"

definition on_read_impl :: "('cb, 'f) events_impl \<Rightarrow> 'cb ptr \<Rightarrow> ('cb, 'f) events_impl" where
  "on_read_impl this action = this\<lparr>ev_on_read := Value action\<rparr>"

definition on_write_impl :: "('cb, 'f) events_impl \<Rightarrow> 'cb ptr \<Rightarrow> ('cb, 'f) events_impl" where
  "on_write_impl this action = this\<lparr>ev_on_write := Value action\<rparr>"

definition on_exception_impl :: "('cb, 'f) events_impl \<Rightarrow> 'cb ptr \<Rightarrow> ('cb, 'f) events_impl" where
  "on_exception_impl this action = this\<lparr>ev_on_exception := Value action\<rparr>"

text \<open>\<open>if (this->on_timeout != NULL) this->on_timeout(data)\<close>\<close>

definition fire_timeout ::
  "('cb, ('cb, 'f) events_impl, 'd) client_code \<Rightarrow> ('cb, 'f) events_impl \<Rightarrow> 'd
    \<Rightarrow> (('cb, 'f) events_impl \<times> 'd) option" where
  "fire_timeout code this data = do {
     action \<leftarrow> load (ev_on_timeout this);
     (case action of None \<Rightarrow> Some (this, data) | Some cb \<Rightarrow> run_timeout code cb this data)
   }"

section \<open>The selector\<close>

text \<open>\<open>FD_SET\<close> outside the capacity of an \<open>fd_set\<close> is undefined.\<close>

definition FD_SETSIZE :: int where
  "FD_SETSIZE = 1024"

definition FD_SET :: "int \<Rightarrow> int set \<Rightarrow> int set option" where
  "FD_SET fd s = (if 0 \<le> fd \<and> fd < FD_SETSIZE then Some (insert fd s) else None)"

definition set_read_selector :: "'cb selector_impl \<Rightarrow> int \<Rightarrow> 'cb selector_impl option" where
  "set_read_selector this fd = do {
     s \<leftarrow> FD_SET fd (sel_read (ev_fd this));
     Some (this\<lparr>ev_fd := (ev_fd this)\<lparr>sel_read := s, sel_max := max (sel_max (ev_fd this)) fd\<rparr>\<rparr>)
   }"

definition set_write_selector :: "'cb selector_impl \<Rightarrow> int \<Rightarrow> 'cb selector_impl option" where
  "set_write_selector this fd = do {
     s \<leftarrow> FD_SET fd (sel_write (ev_fd this));
     Some (this\<lparr>ev_fd := (ev_fd this)\<lparr>sel_write := s, sel_max := max (sel_max (ev_fd this)) fd\<rparr>\<rparr>)
   }"

definition set_exception_selector :: "'cb selector_impl \<Rightarrow> int \<Rightarrow> 'cb selector_impl option" where
  "set_exception_selector this fd = do {
     s \<leftarrow> FD_SET fd (sel_exception (ev_fd this));
     Some (this\<lparr>ev_fd := (ev_fd this)\<lparr>sel_exception := s, sel_max := max (sel_max (ev_fd this)) fd\<rparr>\<rparr>)
   }"

text \<open>
  \<open>pselect\<close>: what is ready when it returns, or its failure (a signal, a bad descriptor). It keeps
  in each set the ready descriptors below \<open>nfds\<close> and returns how many they are; on failure it
  returns \<open>-1\<close> and leaves the sets.
\<close>

datatype select_world = Select_fails | Select_ready "int set" "int set" "int set"

fun pselect ::
  "int \<Rightarrow> int set \<Rightarrow> int set \<Rightarrow> int set \<Rightarrow> select_world \<Rightarrow> int \<times> int set \<times> int set \<times> int set" where
  "pselect nfds r w x Select_fails = (-1, r, w, x)"
| "pselect nfds r w x (Select_ready rs ws xs) =
     (let r' = Set.filter (\<lambda>i. i < nfds \<and> i \<in> rs) r;
          w' = Set.filter (\<lambda>i. i < nfds \<and> i \<in> ws) w;
          x' = Set.filter (\<lambda>i. i < nfds \<and> i \<in> xs) x
      in (int (card r' + card w' + card x'), r', w', x'))"

text \<open>\<open>if (this->on_read != NULL && FD_ISSET(i, &this->read) && FD_ISSET(i, &r)) this->on_read(i, data)\<close>,
  and the same for the two others: \<open>slot\<close> and \<open>set\<close> are the fields the test reads.\<close>

definition select_fire ::
  "('cb, 'cb selector_impl, 'd) client_code \<Rightarrow> ('cb selector_impl \<Rightarrow> 'cb ptr stored) \<Rightarrow> (selector \<Rightarrow> int set)
    \<Rightarrow> int set \<Rightarrow> int \<Rightarrow> 'cb selector_impl \<times> 'd \<Rightarrow> ('cb selector_impl \<times> 'd) option" where
  "select_fire code slot registered ready i td = do {
     let (this, data) = td;
     action \<leftarrow> load (slot this);
     (case action of
        None \<Rightarrow> Some (this, data)
      | Some cb \<Rightarrow>
          if i \<in> registered (ev_fd this) \<and> i \<in> ready then run_action code cb i this data
          else Some (this, data))
   }"

definition select_step ::
  "('cb, 'cb selector_impl, 'd) client_code \<Rightarrow> int set \<Rightarrow> int set \<Rightarrow> int set \<Rightarrow> int
    \<Rightarrow> 'cb selector_impl \<times> 'd \<Rightarrow> ('cb selector_impl \<times> 'd) option" where
  "select_step code r w x i td = do {
     td1 \<leftarrow> select_fire code ev_on_read sel_read r i td;
     td2 \<leftarrow> select_fire code ev_on_write sel_write w i td1;
     select_fire code ev_on_exception sel_exception x i td2
   }"

text \<open>The loop reads \<open>max\<close> again before each turn: a callback may have raised it.\<close>

partial_function (option) select_loop ::
  "('cb, 'cb selector_impl, 'd) client_code \<Rightarrow> int set \<Rightarrow> int set \<Rightarrow> int set \<Rightarrow> int
    \<Rightarrow> 'cb selector_impl \<times> 'd \<Rightarrow> ('cb selector_impl \<times> 'd) option" where
  "select_loop code r w x i td =
     (if i \<le> sel_max (ev_fd (fst td)) then do {
        td' \<leftarrow> select_step code r w x i td;
        select_loop code r w x (i + 1) td'
      } else Some td)"

definition FD_ZERO_all :: "'cb selector_impl \<Rightarrow> 'cb selector_impl" where
  "FD_ZERO_all this = this\<lparr>ev_fd := (ev_fd this)\<lparr>sel_read := {}, sel_write := {}, sel_exception := {}\<rparr>\<rparr>"

definition wait_selector ::
  "('cb, 'cb selector_impl, 'd) client_code \<Rightarrow> select_world \<Rightarrow> 'cb selector_impl \<Rightarrow> 'd
    \<Rightarrow> (int \<times> 'cb selector_impl \<times> 'd) option" where
  "wait_selector code world this data = do {
     let sel = ev_fd this;
     let (res, r, w, x) = pselect (sel_max sel + 1) (sel_read sel) (sel_write sel) (sel_exception sel) world;
     (this', data') \<leftarrow>
       (if res = 0 then fire_timeout code this data
        else if res > 0 then select_loop code r w x 0 (this, data)
        else Some (this, data));
     Some (res, FD_ZERO_all this', data')
   }"

definition cad_new_events_selector :: "bool \<Rightarrow> 'cb selector_impl ptr" where
  "cad_new_events_selector malloc_ok =
     (if \<not> malloc_ok then NULL
      else Some \<lparr>ev_fd = \<lparr>sel_read = {}, sel_write = {}, sel_exception = {}, sel_max = 0\<rparr>,
                 ev_timeout = \<lparr>tv_sec = 0, tv_nsec = 0\<rparr>,
                 ev_on_timeout = Indeterminate, ev_on_read = Indeterminate,
                 ev_on_write = Indeterminate, ev_on_exception = Indeterminate\<rparr>)"

section \<open>The poller\<close>

definition POLLIN :: "16 word" where "POLLIN = 0x0001"
definition POLLOUT :: "16 word" where "POLLOUT = 0x0004"
definition POLLERR :: "16 word" where "POLLERR = 0x0008"
definition POLLHUP :: "16 word" where "POLLHUP = 0x0010"
definition POLLNVAL :: "16 word" where "POLLNVAL = 0x0020"
definition POLLRDHUP :: "16 word" where "POLLRDHUP = 0x2000"

definition POLLEXC :: "16 word" where
  "POLLEXC = (POLLERR OR POLLHUP) OR POLLRDHUP"

text \<open>Reading an element through a pointer into the array: a cell that \<open>memset\<close> has cleared is a
  \<open>pollfd\<close> of zeros, an indeterminate one has no value.\<close>

fun pollfd_cell :: "pollfd cell \<Rightarrow> pollfd option" where
  "pollfd_cell Uninit = None"
| "pollfd_cell Zeroed = Some \<lparr>pfd_fd = 0, pfd_events = 0, pfd_revents = 0\<rparr>"
| "pollfd_cell (Stored p) = Some p"

definition pollfd_at :: "pollfd cad_array_impl \<Rightarrow> nat \<Rightarrow> pollfd option" where
  "pollfd_at a i = do { c \<leftarrow> nth_opt (ai_content a) i; pollfd_cell c }"

text \<open>The search loop of \<open>find_pollfd\<close>, from index \<open>i\<close>.\<close>

function find_pollfd_loop :: "pollfd cad_array_impl \<Rightarrow> int \<Rightarrow> nat \<Rightarrow> nat ptr option" where
  "find_pollfd_loop a fd i =
     (if i < array_count a then
        (case array_get a i of
           None \<Rightarrow> None
         | Some k \<Rightarrow> do {
             p \<leftarrow> pollfd_at a k;
             if pfd_fd p = fd then Some (Some k) else find_pollfd_loop a fd (i + 1)
           })
      else Some NULL)"
  by pat_completeness auto
termination by (relation "measure (\<lambda>(a, fd, i). array_count a - i)") auto

declare find_pollfd_loop.simps [simp del]

definition find_pollfd :: "'cb poller_impl \<Rightarrow> int \<Rightarrow> (nat \<times> 'cb poller_impl) option" where
  "find_pollfd this fd = do {
     result \<leftarrow> find_pollfd_loop (ev_fd this) fd 0;
     (case result of
        Some k \<Rightarrow> Some (k, this)
      | None \<Rightarrow> do {
          (k, a) \<leftarrow> array_insert (ev_fd this) (array_count (ev_fd this))
                     \<lparr>pfd_fd = fd, pfd_events = 0, pfd_revents = 0\<rparr>;
          Some (k, this\<lparr>ev_fd := a\<rparr>)
        })
   }"

text \<open>\<open>p->events |= flags\<close>\<close>

definition add_events :: "'cb poller_impl \<Rightarrow> nat \<Rightarrow> 16 word \<Rightarrow> 'cb poller_impl option" where
  "add_events this k flags = do {
     p \<leftarrow> pollfd_at (ev_fd this) k;
     content \<leftarrow> upd_opt (ai_content (ev_fd this)) k (Stored (p\<lparr>pfd_events := pfd_events p OR flags\<rparr>));
     Some (this\<lparr>ev_fd := (ev_fd this)\<lparr>ai_content := content\<rparr>\<rparr>)
   }"

definition set_read_poller :: "'cb poller_impl \<Rightarrow> int \<Rightarrow> 'cb poller_impl option" where
  "set_read_poller this fd = do { (k, this') \<leftarrow> find_pollfd this fd; add_events this' k POLLIN }"

definition set_write_poller :: "'cb poller_impl \<Rightarrow> int \<Rightarrow> 'cb poller_impl option" where
  "set_write_poller this fd = do { (k, this') \<leftarrow> find_pollfd this fd; add_events this' k POLLOUT }"

definition set_exception_poller :: "'cb poller_impl \<Rightarrow> int \<Rightarrow> 'cb poller_impl option" where
  "set_exception_poller this fd = do { (k, this') \<leftarrow> find_pollfd this fd; add_events this' k POLLEXC }"

text \<open>
  \<open>ppoll\<close>: the conditions that hold on each descriptor when it returns, or its failure. A
  condition is reported when it was asked for or when it is one of \<open>POLLERR\<close>, \<open>POLLHUP\<close> and
  \<open>POLLNVAL\<close>; a negative descriptor is left aside. The result counts the elements with a report.
\<close>

datatype poll_world = Poll_fails | Poll_ready "int \<Rightarrow> 16 word"

definition poll_one :: "(int \<Rightarrow> 16 word) \<Rightarrow> pollfd \<Rightarrow> pollfd" where
  "poll_one conds p =
     p\<lparr>pfd_revents :=
        if pfd_fd p < 0 then 0
        else conds (pfd_fd p) AND (pfd_events p OR (POLLERR OR POLLHUP OR POLLNVAL))\<rparr>"

text \<open>On the first \<open>n\<close> cells of the content, which the caller passes by a pointer to the first.\<close>

fun ppoll :: "pollfd cell list \<Rightarrow> nat \<Rightarrow> poll_world \<Rightarrow> (int \<times> pollfd cell list) option" where
  "ppoll cs n Poll_fails = Some (-1, cs)"
| "ppoll cs 0 (Poll_ready conds) = Some (0, cs)"
| "ppoll [] (Suc n) (Poll_ready conds) = None"
| "ppoll (c # cs) (Suc n) (Poll_ready conds) = do {
     p \<leftarrow> pollfd_cell c;
     let p' = poll_one conds p;
     (k, cs') \<leftarrow> ppoll cs n (Poll_ready conds);
     Some (if pfd_revents p' \<noteq> 0 then k + 1 else k, Stored p' # cs')
   }"

text \<open>
  The loop reads the elements through a pointer that it has taken before: it dangles once a callback
  has made the array grow, which the capacity tells.
\<close>

definition pollfd_through :: "nat \<Rightarrow> pollfd cad_array_impl \<Rightarrow> nat \<Rightarrow> pollfd option" where
  "pollfd_through cap a k = (if ai_capacity a = cap then pollfd_at a k else None)"

text \<open>\<open>this->on_read(p->fd, data)\<close>: a call through a \<open>NULL\<close> or an indeterminate pointer has no result.\<close>

definition poll_fire ::
  "('cb, 'cb poller_impl, 'd) client_code \<Rightarrow> ('cb poller_impl \<Rightarrow> 'cb ptr stored) \<Rightarrow> nat \<Rightarrow> nat \<Rightarrow> 16 word
    \<Rightarrow> 'cb poller_impl \<times> 'd \<Rightarrow> ('cb poller_impl \<times> 'd) option" where
  "poll_fire code slot cap k flags td = do {
     let (this, data) = td;
     p \<leftarrow> pollfd_through cap (ev_fd this) k;
     if pfd_revents p AND flags \<noteq> 0 then do {
       action \<leftarrow> load (slot this);
       cb \<leftarrow> action;
       run_action code cb (pfd_fd p) this data
     } else Some (this, data)
   }"

definition poll_step ::
  "('cb, 'cb poller_impl, 'd) client_code \<Rightarrow> nat \<Rightarrow> nat \<Rightarrow> 'cb poller_impl \<times> 'd
    \<Rightarrow> ('cb poller_impl \<times> 'd) option" where
  "poll_step code cap k td = do {
     p \<leftarrow> pollfd_through cap (ev_fd (fst td)) k;
     if pfd_revents p \<noteq> 0 then do {
       td1 \<leftarrow> poll_fire code ev_on_read cap k POLLIN td;
       td2 \<leftarrow> poll_fire code ev_on_write cap k POLLOUT td1;
       poll_fire code ev_on_exception cap k POLLEXC td2
     } else Some td
   }"

text \<open>The loop \<open>for (i = 0; i <= n; p++, i++)\<close>, with \<open>m\<close> turns left.\<close>

fun poll_loop ::
  "('cb, 'cb poller_impl, 'd) client_code \<Rightarrow> nat \<Rightarrow> nat \<Rightarrow> nat \<Rightarrow> 'cb poller_impl \<times> 'd
    \<Rightarrow> ('cb poller_impl \<times> 'd) option" where
  "poll_loop code cap k 0 td = Some td"
| "poll_loop code cap k (Suc m) td = do { td' \<leftarrow> poll_step code cap k td; poll_loop code cap (k + 1) m td' }"

definition wait_poller ::
  "('cb, 'cb poller_impl, 'd) client_code \<Rightarrow> poll_world \<Rightarrow> 'cb poller_impl \<Rightarrow> 'd
    \<Rightarrow> (int \<times> 'cb poller_impl \<times> 'd) option" where
  "wait_poller code world this data = do {
     let n = array_count (ev_fd this);
     (res, content) \<leftarrow> ppoll (ai_content (ev_fd this)) n world;
     let this1 = this\<lparr>ev_fd := (ev_fd this)\<lparr>ai_content := content\<rparr>\<rparr>;
     (this', data') \<leftarrow>
       (if res = 0 then fire_timeout code this1 data
        else if res > 0 then poll_loop code (ai_capacity (ev_fd this)) 0 (n + 1) (this1, data)
        else Some (this1, data));
     Some (res, this'\<lparr>ev_fd := array_clear (ev_fd this')\<rparr>, data')
   }"

text \<open>The array is allocated from \<open>stdlib_memory\<close>, and its allocation is not tested.\<close>

definition cad_new_events_poller :: "bool \<Rightarrow> 'cb poller_impl ptr" where
  "cad_new_events_poller malloc_ok =
     (if \<not> malloc_ok then NULL
      else map_option
        (\<lambda>a. \<lparr>ev_fd = a, ev_timeout = \<lparr>tv_sec = 0, tv_nsec = 0\<rparr>,
              ev_on_timeout = Indeterminate, ev_on_read = Indeterminate,
              ev_on_write = Indeterminate, ev_on_exception = Indeterminate\<rparr>)
        (cad_new_array True 8))"

section \<open>Release and the interface\<close>

text \<open>\<open>free_selector\<close> releases the object, \<open>free_poller\<close> its array too: the results are the numbers of blocks.\<close>

definition free_selector :: "'cb selector_impl \<Rightarrow> nat" where
  "free_selector this = 1"

definition free_poller :: "'cb poller_impl \<Rightarrow> nat" where
  "free_poller this = array_free (ev_fd this) + 1"

text \<open>\<open>struct cad_events_s\<close>; \<open>'w\<close> is what the system answers to a wait.\<close>

record ('cb, 'f, 'w, 'd) cad_events =
  events_set_timeout_slot :: "('cb, 'f) events_impl \<Rightarrow> 64 word \<Rightarrow> ('cb, 'f) events_impl"
  events_set_read_slot :: "('cb, 'f) events_impl \<Rightarrow> int \<Rightarrow> ('cb, 'f) events_impl option"
  events_set_write_slot :: "('cb, 'f) events_impl \<Rightarrow> int \<Rightarrow> ('cb, 'f) events_impl option"
  events_set_exception_slot :: "('cb, 'f) events_impl \<Rightarrow> int \<Rightarrow> ('cb, 'f) events_impl option"
  events_on_timeout_slot :: "('cb, 'f) events_impl \<Rightarrow> 'cb ptr \<Rightarrow> ('cb, 'f) events_impl"
  events_on_read_slot :: "('cb, 'f) events_impl \<Rightarrow> 'cb ptr \<Rightarrow> ('cb, 'f) events_impl"
  events_on_write_slot :: "('cb, 'f) events_impl \<Rightarrow> 'cb ptr \<Rightarrow> ('cb, 'f) events_impl"
  events_on_exception_slot :: "('cb, 'f) events_impl \<Rightarrow> 'cb ptr \<Rightarrow> ('cb, 'f) events_impl"
  events_wait_slot :: "('cb, ('cb, 'f) events_impl, 'd) client_code \<Rightarrow> 'w \<Rightarrow> ('cb, 'f) events_impl \<Rightarrow> 'd
    \<Rightarrow> (int \<times> ('cb, 'f) events_impl \<times> 'd) option"
  events_free_slot :: "('cb, 'f) events_impl \<Rightarrow> nat"

definition fn_selector :: "('cb, selector, select_world, 'd) cad_events" where
  "fn_selector =
     \<lparr>events_set_timeout_slot = set_timeout_impl,
      events_set_read_slot = set_read_selector,
      events_set_write_slot = set_write_selector,
      events_set_exception_slot = set_exception_selector,
      events_on_timeout_slot = on_timeout_impl,
      events_on_read_slot = on_read_impl,
      events_on_write_slot = on_write_impl,
      events_on_exception_slot = on_exception_impl,
      events_wait_slot = wait_selector,
      events_free_slot = free_selector\<rparr>"

definition fn_poller :: "('cb, pollfd cad_array_impl, poll_world, 'd) cad_events" where
  "fn_poller =
     \<lparr>events_set_timeout_slot = set_timeout_impl,
      events_set_read_slot = set_read_poller,
      events_set_write_slot = set_write_poller,
      events_set_exception_slot = set_exception_poller,
      events_on_timeout_slot = on_timeout_impl,
      events_on_read_slot = on_read_impl,
      events_on_write_slot = on_write_impl,
      events_on_exception_slot = on_exception_impl,
      events_wait_slot = wait_poller,
      events_free_slot = free_poller\<rparr>"

end
