(* ===== verification/Cad_Events_Laws.thy ===== *)
theory Cad_Events_Laws
  imports Cad_Events
begin

text \<open>
  What an events loop promises, as a locale, and the selector and the poller as its providers. The
  callbacks of the contract record their calls; each is named after the event it is set for.
\<close>

section \<open>The interface\<close>

datatype event_kind = Read | Write | Exception
datatype notice = Timed_out | Notice event_kind int

lemma ex_event_kind: "(\<exists>k. P k) \<longleftrightarrow> P Read \<or> P Write \<or> P Exception"
  by (metis event_kind.exhaust)

lemma all_event_kind: "(\<forall>k. P k) \<longleftrightarrow> P Read \<and> P Write \<and> P Exception"
  by (metis event_kind.exhaust)

definition recorder :: "(event_kind, 'e, notice list) client_code" where
  "recorder = \<lparr>run_timeout = (\<lambda>_ e log. Some (e, log @ [Timed_out])),
               run_action = (\<lambda>cb fd e log. Some (e, log @ [Notice cb fd]))\<rparr>"

definition recording :: "(event_kind, 'f) events_impl \<Rightarrow> bool" where
  "recording this \<longleftrightarrow> ev_on_timeout this = Value (Some Read) \<and> ev_on_read this = Value (Some Read) \<and>
     ev_on_write this = Value (Some Write) \<and> ev_on_exception this = Value (Some Exception)"

text \<open>The registrations a client makes before it waits.\<close>

fun register :: "(event_kind \<Rightarrow> 's \<Rightarrow> int \<Rightarrow> 's option) \<Rightarrow> 's \<Rightarrow> (event_kind \<times> int) list \<Rightarrow> 's option" where
  "register set_event s [] = Some s"
| "register set_event s ((k, fd) # regs) = do { s' \<leftarrow> set_event k s fd; register set_event s' regs }"

text \<open>
  \<open>holds w k fd\<close>: the kernel finds the event \<open>k\<close> on \<open>fd\<close> at that wait. \<open>limit\<close> is the number of
  descriptors that the loop is sure to handle.
\<close>

locale event_loop =
  fixes set_event :: "event_kind \<Rightarrow> 's \<Rightarrow> int \<Rightarrow> 's option"
    and wait :: "'k \<Rightarrow> 's \<Rightarrow> notice list \<Rightarrow> (int \<times> 's \<times> notice list) option"
    and registered :: "'s \<Rightarrow> (event_kind \<times> int) set"
    and holds :: "'k \<Rightarrow> event_kind \<Rightarrow> int \<Rightarrow> bool"
    and fails :: "'k \<Rightarrow> bool"
    and valid_fd :: "int \<Rightarrow> bool"
    and inv :: "'s \<Rightarrow> bool"
    and limit :: nat
  assumes set_law: "inv s \<Longrightarrow> valid_fd fd \<Longrightarrow> card (insert fd (snd ` registered s)) \<le> limit \<Longrightarrow>
      \<exists>s'. set_event k s fd = Some s' \<and> inv s' \<and> registered s' = insert (k, fd) (registered s)"
    and wait_law: "inv s \<Longrightarrow> card (snd ` registered s) \<le> limit \<Longrightarrow>
      \<exists>res s' calls. wait w s log = Some (res, s', log @ calls) \<and> inv s' \<and> registered s' = {} \<and>
        distinct calls \<and>
        (if fails w then res = -1 \<and> calls = []
         else if res = 0 then calls = [Timed_out] \<and> (\<forall>(k, fd) \<in> registered s. \<not> holds w k fd)
         else 0 < res \<and> (\<forall>(k, fd) \<in> registered s. holds w k fd \<longrightarrow> Notice k fd \<in> set calls) \<and>
           (\<forall>c \<in> set calls. \<exists>k fd. c = Notice k fd \<and> holds w k fd \<and> fd \<in> snd ` registered s))"
begin

lemma register_all:
  assumes "inv s" "\<forall>(k, fd) \<in> set regs. valid_fd fd"
    and "finite (registered s)" "card (snd ` (registered s \<union> set regs)) \<le> limit"
  shows "\<exists>s'. register set_event s regs = Some s' \<and> inv s' \<and> registered s' = registered s \<union> set regs"
  using assms
proof (induction regs arbitrary: s)
  case Nil
  then show ?case by simp
next
  case (Cons r regs)
  obtain k fd where r: "r = (k, fd)" by (cases r)
  have sub: "insert fd (snd ` registered s) \<subseteq> snd ` (registered s \<union> set (r # regs))" using r by force
  have "card (insert fd (snd ` registered s)) \<le> limit"
    using card_mono [OF _ sub] Cons.prems(3,4) by fastforce
  then obtain s1 where s1: "set_event k s fd = Some s1" "inv s1" "registered s1 = insert (k, fd) (registered s)"
    using set_law [OF Cons.prems(1), of fd k] Cons.prems(2) r by auto
  show ?case
    using Cons.IH [of s1] s1 Cons.prems r by (auto simp: insert_commute)
qed

text \<open>The wait that follows registrations reports each of them that is ready, once; the next wait
  reports none: the registrations are gone.\<close>

lemma register_wait_wait:
  assumes "inv s" "registered s = {}" "\<forall>(k, fd) \<in> set regs. valid_fd fd" "card (snd ` set regs) \<le> limit"
    and "\<not> fails w"
  shows "\<exists>s1 res s2 calls. register set_event s regs = Some s1 \<and> wait w s1 log = Some (res, s2, log @ calls) \<and>
    distinct calls \<and> (\<forall>(k, fd) \<in> set regs. holds w k fd \<longrightarrow> Notice k fd \<in> set calls) \<and>
    (\<forall>k fd. Notice k fd \<in> set calls \<longrightarrow> holds w k fd \<and> fd \<in> snd ` set regs) \<and>
    (\<forall>w' log'. \<exists>res' s3 calls'. wait w' s2 log' = Some (res', s3, log' @ calls') \<and> set calls' \<subseteq> {Timed_out})"
proof -
  obtain s1 where s1: "register set_event s regs = Some s1" "inv s1" "registered s1 = set regs"
    using register_all [OF assms(1,3)] assms(2,4) by auto
  then obtain res s2 calls where w: "wait w s1 log = Some (res, s2, log @ calls)" "inv s2" "registered s2 = {}"
      "distinct calls"
      "if res = 0 then calls = [Timed_out] \<and> (\<forall>(k, fd) \<in> set regs. \<not> holds w k fd)
       else 0 < res \<and> (\<forall>(k, fd) \<in> set regs. holds w k fd \<longrightarrow> Notice k fd \<in> set calls) \<and>
           (\<forall>c \<in> set calls. \<exists>k fd. c = Notice k fd \<and> holds w k fd \<and> fd \<in> snd ` set regs)"
    using wait_law [OF s1(2), of w log, unfolded s1(3), OF assms(4)] assms(5) by (elim exE conjE) (simp only: if_False)
  have again: "\<exists>res' s3 calls'. wait w' s2 log' = Some (res', s3, log' @ calls') \<and> set calls' \<subseteq> {Timed_out}"
    for w' log'
    using wait_law [OF w(2), of w' log'] w(3) by (fastforce split: if_splits)
  have calls: "(\<forall>(k, fd) \<in> set regs. holds w k fd \<longrightarrow> Notice k fd \<in> set calls)"
      "(\<forall>k fd. Notice k fd \<in> set calls \<longrightarrow> holds w k fd \<and> fd \<in> snd ` set regs)"
    using w(5) by (auto split: if_splits)
  show ?thesis using s1(1) w(1,4) calls again by blast
qed

end

section \<open>The selector provides it\<close>

text \<open>A client registers through the table of functions of the loop that it has.\<close>

definition set_through :: "('cb, 'f, 'w, 'd) cad_events \<Rightarrow> event_kind \<Rightarrow> ('cb, 'f) events_impl \<Rightarrow> int \<Rightarrow> ('cb, 'f) events_impl option" where
  "set_through fn k = (case k of Read \<Rightarrow> events_set_read_slot fn | Write \<Rightarrow> events_set_write_slot fn
     | Exception \<Rightarrow> events_set_exception_slot fn)"

definition set_selector :: "event_kind \<Rightarrow> 'cb selector_impl \<Rightarrow> int \<Rightarrow> 'cb selector_impl option" where
  "set_selector = set_through (fn_selector :: ('cb, selector, select_world, unit) cad_events)"

definition sel_set :: "event_kind \<Rightarrow> selector \<Rightarrow> int set" where
  "sel_set k = (case k of Read \<Rightarrow> sel_read | Write \<Rightarrow> sel_write | Exception \<Rightarrow> sel_exception)"

definition selector_registered :: "'cb selector_impl \<Rightarrow> (event_kind \<times> int) set" where
  "selector_registered this = {(k, fd). fd \<in> sel_set k (ev_fd this)}"

fun select_holds :: "select_world \<Rightarrow> event_kind \<Rightarrow> int \<Rightarrow> bool" where
  "select_holds Select_fails k fd = False"
| "select_holds (Select_ready rs ws xs) k fd = (fd \<in> (case k of Read \<Rightarrow> rs | Write \<Rightarrow> ws | Exception \<Rightarrow> xs))"

definition selector_inv :: "event_kind selector_impl \<Rightarrow> bool" where
  "selector_inv this \<longleftrightarrow> recording this \<and> sel_max (ev_fd this) < FD_SETSIZE \<and> 0 \<le> sel_max (ev_fd this) \<and>
     (\<forall>k. sel_set k (ev_fd this) \<subseteq> {0..sel_max (ev_fd this)})"

text \<open>The calls of one turn of the loop, and of the turns from \<open>i\<close> to \<open>j\<close>.\<close>

definition turn_calls :: "int set \<Rightarrow> int set \<Rightarrow> int set \<Rightarrow> selector \<Rightarrow> int \<Rightarrow> notice list" where
  "turn_calls r w x sel i =
     (if i \<in> sel_read sel \<inter> r then [Notice Read i] else []) @
     (if i \<in> sel_write sel \<inter> w then [Notice Write i] else []) @
     (if i \<in> sel_exception sel \<inter> x then [Notice Exception i] else [])"

lemma select_step_recorder:
  "recording this \<Longrightarrow>
   select_step recorder r w x i (this, log) = Some (this, log @ turn_calls r w x (ev_fd this) i)"
  by (auto simp: select_step_def select_fire_def recording_def recorder_def turn_calls_def)

lemma select_loop_recorder:
  assumes "recording this"
  shows "select_loop recorder r w x i (this, log) =
    Some (this, log @ concat (map (turn_calls r w x (ev_fd this)) [i..sel_max (ev_fd this)]))"
proof (induction "nat (sel_max (ev_fd this) + 1 - i)" arbitrary: i log)
  case 0
  then show ?case by (subst select_loop.simps) simp
next
  case (Suc n)
  then have "i \<le> sel_max (ev_fd this)" "n = nat (sel_max (ev_fd this) + 1 - (i + 1))" by auto
  then show ?case
    using Suc.hyps(1) [of "i + 1"] by (subst select_loop.simps) (simp add: select_step_recorder [OF assms] upto_rec1 [of i])
qed

lemma set_turn_calls:
  "c \<in> set (turn_calls r w x sel i) \<longleftrightarrow>
   (\<exists>k. c = Notice k i \<and> i \<in> sel_set k sel \<and> i \<in> (case k of Read \<Rightarrow> r | Write \<Rightarrow> w | Exception \<Rightarrow> x))"
  unfolding ex_event_kind by (auto simp: turn_calls_def sel_set_def)

lemma distinct_turns:
  "distinct is \<Longrightarrow> distinct (concat (map (turn_calls r w x sel) is))"
proof (induction "is")
  case (Cons i "is")
  have "distinct (turn_calls r w x sel i)" by (auto simp: turn_calls_def)
  moreover have "c \<notin> set (turn_calls r w x sel j)" if "c \<in> set (turn_calls r w x sel i)" "j \<in> set is" for c j
    using that Cons.prems by (auto simp: set_turn_calls)
  ultimately show ?case using Cons by auto
qed simp

lemma selector_registered_sets:
  "selector_registered this =
   {Read} \<times> sel_read (ev_fd this) \<union> {Write} \<times> sel_write (ev_fd this) \<union> {Exception} \<times> sel_exception (ev_fd this)"
  by (auto simp: selector_registered_def sel_set_def split: event_kind.splits)

lemma selector_inv_sets:
  "selector_inv this \<longleftrightarrow> recording this \<and> sel_max (ev_fd this) < FD_SETSIZE \<and> 0 \<le> sel_max (ev_fd this) \<and>
     sel_read (ev_fd this) \<subseteq> {0..sel_max (ev_fd this)} \<and> sel_write (ev_fd this) \<subseteq> {0..sel_max (ev_fd this)} \<and>
     sel_exception (ev_fd this) \<subseteq> {0..sel_max (ev_fd this)}"
  by (auto simp: selector_inv_def all_event_kind sel_set_def)

lemma set_selector_total:
  assumes "selector_inv this" "0 \<le> fd" "fd < FD_SETSIZE"
  shows "\<exists>this'. set_selector k this fd = Some this' \<and> selector_inv this' \<and>
    selector_registered this' = insert (k, fd) (selector_registered this)"
proof -
  have wider: "A \<subseteq> {0..max (sel_max (ev_fd this)) fd}" "insert fd A \<subseteq> {0..max (sel_max (ev_fd this)) fd}"
    if "A \<subseteq> {0..sel_max (ev_fd this)}" for A
    using that assms(2) by (fastforce simp: subset_iff)+
  show ?thesis
    using assms wider
    by (cases k) (simp_all add: set_selector_def set_through_def fn_selector_def set_read_selector_def set_write_selector_def
        set_exception_selector_def FD_SET_def selector_inv_sets selector_registered_sets recording_def)
qed

text \<open>The wait calls exactly what is both registered and ready, in the order of the descriptors.\<close>

definition selector_calls :: "select_world \<Rightarrow> selector \<Rightarrow> notice list" where
  "selector_calls world sel =
     (let (res, r, w, x) = pselect (sel_max sel + 1) (sel_read sel) (sel_write sel) (sel_exception sel) world
      in if res = 0 then [Timed_out]
         else if res > 0 then concat (map (turn_calls r w x sel) [0..sel_max sel])
         else [])"

lemma pselect_registered:
  assumes "selector_inv this" "sel = ev_fd this"
    and "pselect (sel_max sel + 1) (sel_read sel) (sel_write sel) (sel_exception sel) world = (res, r, w, x)"
  shows "res < 0 \<longleftrightarrow> world = Select_fails"
    and "res = 0 \<longleftrightarrow> world \<noteq> Select_fails \<and> (\<forall>(k, fd) \<in> selector_registered this. \<not> select_holds world k fd)"
    and "0 < res \<Longrightarrow> k = Read \<and> ready = r \<or> k = Write \<and> ready = w \<or> k = Exception \<and> ready = x \<Longrightarrow>
      fd \<in> sel_set k sel \<Longrightarrow> fd \<in> ready \<longleftrightarrow> select_holds world k fd"
proof -
  have fin: "finite (sel_set k sel)" for k
    using assms(1,2) finite_subset unfolding selector_inv_def by blast
  have below: "fd < sel_max sel + 1" if "fd \<in> sel_set k sel" for fd k
    using that assms(1,2) unfolding selector_inv_def by fastforce
  have sets: "Set.filter (\<lambda>i. i < sel_max sel + 1 \<and> i \<in> A) (sel_set k sel) = sel_set k sel \<inter> A"
    for k and A :: "int set"
    using below by auto
  note sets' = sets [of _ Read, unfolded sel_set_def event_kind.case] sets [of _ Write, unfolded sel_set_def event_kind.case]
    sets [of _ Exception, unfolded sel_set_def event_kind.case]
  have fin': "finite (sel_read sel \<inter> A)" "finite (sel_write sel \<inter> A)" "finite (sel_exception sel \<inter> A)" for A
    using fin [of Read] fin [of Write] fin [of Exception] by (simp_all add: sel_set_def)
  have ready: "res = int (card r + card w + card x)" "r = sel_read sel \<inter> rs" "w = sel_write sel \<inter> ws" "x = sel_exception sel \<inter> xs"
    if "world = Select_ready rs ws xs" for rs ws xs
    using assms(3) unfolding that pselect.simps Let_def sets' by auto
  show "res < 0 \<longleftrightarrow> world = Select_fails"
    using ready assms(3) by (cases world) auto
  have zero: "res = 0 \<longleftrightarrow> r = {} \<and> w = {} \<and> x = {}" if "world = Select_ready rs ws xs" for rs ws xs
    unfolding ready [OF that] by (simp only: of_nat_eq_0_iff add_is_0 card_0_eq [OF fin'(1)] card_0_eq [OF fin'(2)]
        card_0_eq [OF fin'(3)] conj_assoc)
  show "res = 0 \<longleftrightarrow> world \<noteq> Select_fails \<and> (\<forall>(k, fd) \<in> selector_registered this. \<not> select_holds world k fd)"
  proof (cases world)
    case (Select_ready rs ws xs)
    show ?thesis
      unfolding zero [OF Select_ready] ready(2,3,4) [OF Select_ready]
      using assms(2) by (auto simp: Select_ready selector_registered_def sel_set_def all_event_kind)
  qed (use assms(3) in simp)
  show "fd \<in> ready \<longleftrightarrow> select_holds world k fd"
    if "0 < res" "k = Read \<and> ready = r \<or> k = Write \<and> ready = w \<or> k = Exception \<and> ready = x" "fd \<in> sel_set k sel"
    using ready assms(3) that by (cases world) (auto simp: sel_set_def)
qed

lemma wait_selector_recorder:
  assumes "selector_inv this"
  shows "\<exists>res. wait_selector recorder world this log =
      Some (res, FD_ZERO_all this, log @ selector_calls world (ev_fd this)) \<and>
    (res < 0 \<longleftrightarrow> world = Select_fails) \<and>
    (res = 0 \<longleftrightarrow> world \<noteq> Select_fails \<and> (\<forall>(k, fd) \<in> selector_registered this. \<not> select_holds world k fd))"
proof -
  let ?sel = "ev_fd this"
  obtain res r w x where ps: "pselect (sel_max ?sel + 1) (sel_read ?sel) (sel_write ?sel) (sel_exception ?sel) world =
      (res, r, w, x)"
    using prod_cases4 by blast
  have rec: "recording this" using assms by (simp add: selector_inv_def)
  have "fire_timeout recorder this log = Some (this, log @ [Timed_out])"
    using rec by (simp add: fire_timeout_def recording_def recorder_def)
  then have "wait_selector recorder world this log =
      Some (res, FD_ZERO_all this, log @ selector_calls world (ev_fd this))"
    using ps select_loop_recorder [OF rec] by (simp add: wait_selector_def selector_calls_def)
  then show ?thesis using pselect_registered(1,2) [OF assms refl ps] by blast
qed

lemma selector_calls_exact:
  assumes "selector_inv this" "\<exists>(k, fd) \<in> selector_registered this. select_holds world k fd"
  shows "distinct (selector_calls world (ev_fd this))"
    and "set (selector_calls world (ev_fd this)) =
      {Notice k fd | k fd. (k, fd) \<in> selector_registered this \<and> select_holds world k fd}"
proof -
  let ?sel = "ev_fd this"
  obtain res r w x where ps: "pselect (sel_max ?sel + 1) (sel_read ?sel) (sel_write ?sel) (sel_exception ?sel) world =
      (res, r, w, x)"
    using prod_cases4 by blast
  have "world \<noteq> Select_fails" using assms(2) by auto
  then have pos: "0 < res" using pselect_registered(1,2) [OF assms(1) refl ps] assms(2) by force
  then have calls: "selector_calls world ?sel = concat (map (turn_calls r w x ?sel) [0..sel_max ?sel])"
    using ps by (simp add: selector_calls_def)
  then show "distinct (selector_calls world ?sel)" by (simp add: distinct_turns)
  have range: "fd \<in> sel_set k ?sel \<Longrightarrow> fd \<in> {0..sel_max ?sel}" for k fd
    using assms(1) unfolding selector_inv_def by blast
  have holds: "fd \<in> sel_set k ?sel \<Longrightarrow>
      fd \<in> (case k of Read \<Rightarrow> r | Write \<Rightarrow> w | Exception \<Rightarrow> x) \<longleftrightarrow> select_holds world k fd" for k fd
    using pselect_registered(3) [OF assms(1) refl ps pos] by (cases k) auto
  show "set (selector_calls world ?sel) =
      {Notice k fd | k fd. (k, fd) \<in> selector_registered this \<and> select_holds world k fd}"
    using range holds by (fastforce simp: calls set_turn_calls selector_registered_def)
qed

interpretation selector: event_loop set_selector "wait_selector recorder" selector_registered select_holds
  "\<lambda>w. w = Select_fails" "\<lambda>fd. 0 \<le> fd \<and> fd < FD_SETSIZE" selector_inv 1024
proof
  fix s :: "event_kind selector_impl" and fd k and w log
  assume s: "selector_inv s"
  show "\<exists>s'. set_selector k s fd = Some s' \<and> selector_inv s' \<and> selector_registered s' = insert (k, fd) (selector_registered s)"
    if "0 \<le> fd \<and> fd < FD_SETSIZE"
    using set_selector_total [OF s] that by blast
  obtain res where res: "wait_selector recorder w s log = Some (res, FD_ZERO_all s, log @ selector_calls w (ev_fd s))"
      "res < 0 \<longleftrightarrow> w = Select_fails"
      "res = 0 \<longleftrightarrow> w \<noteq> Select_fails \<and> (\<forall>(k, fd) \<in> selector_registered s. \<not> select_holds w k fd)"
    using wait_selector_recorder [OF s] by blast
  have zero: "selector_inv (FD_ZERO_all s)" "selector_registered (FD_ZERO_all s) = {}"
    using s by (auto simp: FD_ZERO_all_def selector_inv_def selector_registered_def sel_set_def recording_def
        all_event_kind split: event_kind.splits)
  have failed: "selector_calls w (ev_fd s) = []" "res = -1" if "w = Select_fails"
    using that res(1) by (simp_all add: selector_calls_def wait_selector_def)
  have quiet: "selector_calls w (ev_fd s) = [Timed_out]" if "res = 0"
    using that res(1) by (auto simp: selector_calls_def wait_selector_def split: prod.splits bind_splits)
  have busy: "\<exists>(k, fd) \<in> selector_registered s. select_holds w k fd" if "0 < res"
    using that res(2,3) by force
  show "\<exists>res s' calls. wait_selector recorder w s log = Some (res, s', log @ calls) \<and> selector_inv s' \<and>
      selector_registered s' = {} \<and> distinct calls \<and>
      (if w = Select_fails then res = -1 \<and> calls = []
       else if res = 0 then calls = [Timed_out] \<and> (\<forall>(k, fd) \<in> selector_registered s. \<not> select_holds w k fd)
       else 0 < res \<and> (\<forall>(k, fd) \<in> selector_registered s. select_holds w k fd \<longrightarrow> Notice k fd \<in> set calls) \<and>
         (\<forall>c \<in> set calls. \<exists>k fd. c = Notice k fd \<and> select_holds w k fd \<and> fd \<in> snd ` selector_registered s))"
  proof (intro exI conjI)
    show "distinct (selector_calls w (ev_fd s))"
      using res(2) failed quiet selector_calls_exact(1) [OF s busy] by (cases "res = 0"; cases "res < 0") auto
    show "if w = Select_fails then res = -1 \<and> selector_calls w (ev_fd s) = []
       else if res = 0 then selector_calls w (ev_fd s) = [Timed_out] \<and>
         (\<forall>(k, fd) \<in> selector_registered s. \<not> select_holds w k fd)
       else 0 < res \<and> (\<forall>(k, fd) \<in> selector_registered s. select_holds w k fd \<longrightarrow>
           Notice k fd \<in> set (selector_calls w (ev_fd s))) \<and>
         (\<forall>c \<in> set (selector_calls w (ev_fd s)). \<exists>k fd. c = Notice k fd \<and> select_holds w k fd \<and>
           fd \<in> snd ` selector_registered s)"
      using res(2,3) failed quiet selector_calls_exact(2) [OF s busy] by (auto split: if_splits) force
  qed (use res(1) zero in simp_all)
qed

end
