(* ===== verification/Cad_Poller_Laws.thy ===== *)
theory Cad_Poller_Laws
  imports Cad_Events_Laws
begin

text \<open>
  The poller as an events loop: its array holds one \<open>pollfd\<close> per descriptor, in the order of
  their first registration, and cleared cells after them. The wait reads one cell past the last
  element, which is outside the array exactly when the array is full.
\<close>

section \<open>The array of the poller\<close>

definition poller_rep :: "pollfd cad_array_impl \<Rightarrow> pollfd list \<Rightarrow> bool" where
  "poller_rep a es \<longleftrightarrow>
     ai_eltsize a = 8 \<and> ai_count a = length es \<and> length es \<le> ai_capacity a \<and>
     ai_content a = map Stored es @ replicate (ai_capacity a - length es) Zeroed \<and>
     distinct (map pfd_fd es) \<and> (ai_capacity a = 0 \<or> 4 \<le> ai_capacity a)"

lemma pollfd_at_rep: "poller_rep a es \<Longrightarrow> i < length es \<Longrightarrow> pollfd_at a i = Some (es ! i)"
  by (simp add: pollfd_at_def poller_rep_def nth_opt_def nth_append)

lemma pollfd_at_end:
  "poller_rep a es \<Longrightarrow> pollfd_at a (length es) =
     (if length es < ai_capacity a then Some \<lparr>pfd_fd = 0, pfd_events = 0, pfd_revents = 0\<rparr> else None)"
  by (auto simp: pollfd_at_def poller_rep_def nth_opt_def nth_append)

lemma find_pollfd_step:
  assumes "poller_rep a es"
  shows "find_pollfd_loop a fd i =
    (if i < length es then if pfd_fd (es ! i) = fd then Some (Some i) else find_pollfd_loop a fd (i + 1)
     else Some NULL)"
proof -
  have "ai_count a = length es" using assms by (simp add: poller_rep_def)
  then show ?thesis
    by (subst find_pollfd_loop.simps) (simp add: array_get_def array_count_def pollfd_at_rep [OF assms])
qed

lemma find_pollfd_loop_new:
  assumes "poller_rep a es" "\<forall>p \<in> set (drop i es). pfd_fd p \<noteq> fd"
  shows "find_pollfd_loop a fd i = Some NULL"
  using assms(2)
proof (induction "length es - i" arbitrary: i)
  case 0
  then show ?case using find_pollfd_step [OF assms(1)] by simp
next
  case (Suc n)
  then have "pfd_fd (es ! i) \<noteq> fd" "\<forall>p \<in> set (drop (i + 1) es). pfd_fd p \<noteq> fd"
    by (auto simp: Cons_nth_drop_Suc [symmetric])
  then show ?case
    using Suc.hyps(1) [of "i + 1"] Suc.hyps(2) find_pollfd_step [OF assms(1), of fd i] by simp
qed

lemma find_pollfd_loop_old:
  assumes "poller_rep a es" "i \<le> k" "k < length es"
  shows "find_pollfd_loop a (pfd_fd (es ! k)) i = Some (Some k)"
  using assms(2)
proof (induction "k - i" arbitrary: i)
  case 0
  then show ?case using assms find_pollfd_step [OF assms(1)] by simp
next
  case (Suc n)
  then have i: "i < k" by simp
  then have "pfd_fd (es ! i) \<noteq> pfd_fd (es ! k)"
    using assms nth_eq_iff_index_eq [of "map pfd_fd es" i k] by (simp add: poller_rep_def)
  then show ?case
    using Suc.hyps(1) [of "i + 1"] Suc.hyps(2) assms(3) i find_pollfd_step [OF assms(1), of "pfd_fd (es ! k)" i] by simp
qed

definition grown_capacity :: "nat \<Rightarrow> nat \<Rightarrow> nat" where
  "grown_capacity n cap = (if n < cap then cap else if cap = 0 then 4 else 2 * cap)"

lemma poller_append:
  assumes rep: "poller_rep a es" and new: "pfd_fd p \<notin> pfd_fd ` set es"
    and room: "8 * grown_capacity (length es) (ai_capacity a) \<le> INT_MAX"
  shows "\<exists>a'. array_insert a (array_count a) p = Some (length es, a') \<and> poller_rep a' (es @ [p]) \<and>
    ai_capacity a' = grown_capacity (length es) (ai_capacity a)"
proof -
  let ?cap = "grown_capacity (length es) (ai_capacity a)"
  let ?g = "a\<lparr>ai_content := map Stored es @ replicate (?cap - length es) Zeroed, ai_capacity := ?cap\<rparr>"
  have le: "length es < ?cap" "length es \<le> ai_capacity a"
    using rep by (auto simp: poller_rep_def grown_capacity_def)
  have cap: "?cap \<le> INT_MAX" using room by simp
  have same: "ai_content a = map Stored es @ replicate (ai_capacity a - length es) Zeroed" "ai_count a = length es"
      "ai_eltsize a = 8"
    using rep by (simp_all add: poller_rep_def)
  have g: "(if ai_count a = ai_capacity a then array_grow a 2 else Some a) = Some ?g"
  proof (cases "ai_count a = ai_capacity a")
    case True
    then show ?thesis
      using same room cap le
      by (cases "ai_capacity a = 0")
        (simp_all add: array_grow_def grown_capacity_def memset_cells_def c_int_def mult.commute mult_2)
  next
    case False
    then have "?cap = ai_capacity a" using le same by (simp add: grown_capacity_def)
    then show ?thesis using False same by simp
  qed
  have "grow_until (length es) ?g = Some ?g"
    using le by (subst grow_until.simps) simp
  then have "array_insert a (array_count a) p = Some (length es,
      ?g\<lparr>ai_content := (map Stored es @ replicate (?cap - length es) Zeroed) [length es := Stored p],
         ai_count := length es + 1\<rparr>)"
    unfolding array_insert_def g using le same by (simp add: array_count_def upd_opt_def)
  moreover have "(map Stored es @ replicate (?cap - length es) Zeroed) [length es := Stored p] =
      map Stored (es @ [p]) @ replicate (?cap - length (es @ [p])) Zeroed"
    using le by (simp add: list_update_append replicate_Suc [symmetric] Suc_diff_Suc del: replicate_Suc)
      (metis Suc_diff_Suc list_update_code(2) replicate_Suc)
  ultimately show ?thesis
    using rep le new by (auto simp: poller_rep_def grown_capacity_def image_iff)
qed

section \<open>Registration\<close>

definition poll_flag :: "event_kind \<Rightarrow> 16 word" where
  "poll_flag k = (case k of Read \<Rightarrow> POLLIN | Write \<Rightarrow> POLLOUT | Exception \<Rightarrow> POLLEXC)"

definition set_poller :: "event_kind \<Rightarrow> 'cb poller_impl \<Rightarrow> int \<Rightarrow> 'cb poller_impl option" where
  "set_poller = set_through (fn_poller :: ('cb, pollfd cad_array_impl, poll_world, unit) cad_events)"

lemma set_poller_alt:
  "set_poller k this fd = do { (i, this') \<leftarrow> find_pollfd this fd; add_events this' i (poll_flag k) }"
  by (cases k) (simp_all add: set_poller_def set_through_def fn_poller_def poll_flag_def set_read_poller_def set_write_poller_def
      set_exception_poller_def)

lemma poll_flags [simp]:
  "poll_flag k \<noteq> 0" "poll_flag k AND poll_flag k' = (if k = k' then poll_flag k else 0)"
  by (cases k; cases k'; simp add: poll_flag_def POLLIN_def POLLOUT_def POLLEXC_def POLLERR_def POLLHUP_def
      POLLRDHUP_def)+

text \<open>What a registration makes of the entries.\<close>

definition mark :: "16 word \<Rightarrow> pollfd \<Rightarrow> pollfd" where
  "mark flags p = p\<lparr>pfd_events := pfd_events p OR flags\<rparr>"

definition add_entry :: "event_kind \<Rightarrow> int \<Rightarrow> pollfd list \<Rightarrow> pollfd list" where
  "add_entry k fd es =
     (if fd \<in> pfd_fd ` set es then map (\<lambda>p. if pfd_fd p = fd then mark (poll_flag k) p else p) es
      else es @ [\<lparr>pfd_fd = fd, pfd_events = poll_flag k, pfd_revents = 0\<rparr>])"

lemma map_pfd_fd_add_entry:
  "map pfd_fd (add_entry k fd es) = (if fd \<in> pfd_fd ` set es then map pfd_fd es else map pfd_fd es @ [fd])"
  by (auto simp: add_entry_def mark_def)

lemma add_events_at:
  assumes "poller_rep (ev_fd this) es" "i < length es"
  shows "\<exists>this'. add_events this i flags = Some this' \<and> this' = this\<lparr>ev_fd := ev_fd this'\<rparr> \<and>
    poller_rep (ev_fd this') (es[i := mark flags (es ! i)]) \<and> ai_capacity (ev_fd this') = ai_capacity (ev_fd this)"
proof -
  have "map pfd_fd (es[i := mark flags (es ! i)]) = map pfd_fd es"
    by (simp add: map_update mark_def) (metis list_update_id map_update)
  then show ?thesis
    using assms
    by (auto simp: add_events_def pollfd_at_rep mark_def poller_rep_def upd_opt_def list_update_append1 map_update)
qed

lemma map_at_index:
  assumes "distinct (map f xs)" "i < length xs"
  shows "map (\<lambda>x. if f x = f (xs ! i) then g x else x) xs = xs[i := g (xs ! i)]"
proof (rule nth_equalityI)
  fix j assume "j < length (map (\<lambda>x. if f x = f (xs ! i) then g x else x) xs)"
  then show "map (\<lambda>x. if f x = f (xs ! i) then g x else x) xs ! j = xs[i := g (xs ! i)] ! j"
    using assms nth_eq_iff_index_eq [of "map f xs" i j] by (auto simp: nth_list_update)
qed simp

lemma set_poller_total:
  assumes rep: "poller_rep (ev_fd this) es"
    and room: "8 * grown_capacity (length es) (ai_capacity (ev_fd this)) \<le> INT_MAX"
  shows "\<exists>this'. set_poller k this fd = Some this' \<and> this' = this\<lparr>ev_fd := ev_fd this'\<rparr> \<and>
    poller_rep (ev_fd this') (add_entry k fd es) \<and>
    ai_capacity (ev_fd this') =
      (if fd \<in> pfd_fd ` set es then ai_capacity (ev_fd this) else grown_capacity (length es) (ai_capacity (ev_fd this)))"
proof (cases "fd \<in> pfd_fd ` set es")
  case True
  then obtain i where i: "i < length es" "fd = pfd_fd (es ! i)" by (auto simp: in_set_conv_nth)
  have "find_pollfd this fd = Some (i, this)"
    using find_pollfd_loop_old [OF rep, of 0 i] i by (simp add: find_pollfd_def)
  moreover have "add_entry k fd es = es[i := mark (poll_flag k) (es ! i)]"
    using rep i True by (simp add: add_entry_def map_at_index poller_rep_def)
  ultimately show ?thesis
    using add_events_at [OF rep i(1), of "poll_flag k"] True by (simp add: set_poller_alt)
next
  case False
  let ?p = "\<lparr>pfd_fd = fd, pfd_events = 0, pfd_revents = 0\<rparr>"
  obtain a' where a': "array_insert (ev_fd this) (array_count (ev_fd this)) ?p = Some (length es, a')"
      "poller_rep a' (es @ [?p])" "ai_capacity a' = grown_capacity (length es) (ai_capacity (ev_fd this))"
    using poller_append [OF rep _ room, of ?p] False by auto
  have "find_pollfd_loop (ev_fd this) fd 0 = Some NULL"
    using find_pollfd_loop_new [OF rep, of 0 fd] False by force
  then have f: "find_pollfd this fd = Some (length es, this\<lparr>ev_fd := a'\<rparr>)"
    using a'(1) by (simp add: find_pollfd_def)
  have "(es @ [?p]) [length es := mark (poll_flag k) ((es @ [?p]) ! length es)] = add_entry k fd es"
    using False by (simp add: add_entry_def mark_def)
  then obtain this' where "add_events (this\<lparr>ev_fd := a'\<rparr>) (length es) (poll_flag k) = Some this'"
      "this' = this\<lparr>ev_fd := ev_fd this'\<rparr>" "poller_rep (ev_fd this') (add_entry k fd es)"
      "ai_capacity (ev_fd this') = ai_capacity a'"
    using add_events_at [of "this\<lparr>ev_fd := a'\<rparr>" "es @ [?p]" "length es" "poll_flag k"] a'(2) by auto
  then show ?thesis using f a'(3) False by (simp add: set_poller_alt)
qed

section \<open>The wait\<close>

definition notices :: "pollfd \<Rightarrow> notice list" where
  "notices p = map (\<lambda>k. Notice k (pfd_fd p)) (filter (\<lambda>k. pfd_revents p AND poll_flag k \<noteq> 0) [Read, Write, Exception])"

definition poll_calls :: "(int \<Rightarrow> 16 word) \<Rightarrow> pollfd \<Rightarrow> notice list" where
  "poll_calls conds p = notices (poll_one conds p)"

lemma ppoll_entries:
  "\<exists>n. ppoll (map Stored es @ cs) (length es) (Poll_ready conds) =
      Some (int n, map Stored (map (poll_one conds) es) @ cs) \<and>
    (n = 0 \<longleftrightarrow> (\<forall>p \<in> set es. pfd_revents (poll_one conds p) = 0))"
proof (induction es)
  case Nil
  then show ?case by (cases cs) auto
next
  case (Cons p es)
  then obtain n where "ppoll (map Stored es @ cs) (length es) (Poll_ready conds) =
      Some (int n, map Stored (map (poll_one conds) es) @ cs)"
      "n = 0 \<longleftrightarrow> (\<forall>p \<in> set es. pfd_revents (poll_one conds p) = 0)"
    by blast
  then show ?case
    by (cases "pfd_revents (poll_one conds p) = 0") (auto intro: exI [of _ "Suc n"])
qed

lemma poll_step_recorder:
  assumes "recording this" "ai_capacity (ev_fd this) = cap" "pollfd_at (ev_fd this) k = Some p"
  shows "poll_step recorder cap k (this, log) = Some (this, log @ notices p)"
  using assms
  by (simp add: poll_step_def notices_def poll_fire_def pollfd_through_def recording_def recorder_def poll_flag_def)

lemma poll_loop_recorder:
  assumes "poller_rep (ev_fd this) es" "recording this" "k \<le> length es"
  shows "poll_loop recorder (ai_capacity (ev_fd this)) k (length es - k + 1) (this, log) =
    (if length es < ai_capacity (ev_fd this)
     then Some (this, log @ concat (map notices (drop k es)))
     else None)"
  using assms(3)
proof (induction "length es - k" arbitrary: k log)
  case 0
  then have k: "k = length es" by simp
  show ?case
  proof (cases "length es < ai_capacity (ev_fd this)")
    case True
    then show ?thesis
      using pollfd_at_end [OF assms(1)] by (simp add: k poll_step_recorder [OF assms(2) refl] notices_def)
  next
    case False
    then show ?thesis
      using pollfd_at_end [OF assms(1)] by (simp add: k poll_step_def pollfd_through_def)
  qed
next
  case (Suc n)
  then have k: "k < length es" "length es - k = Suc (length es - (k + 1))" by auto
  have "poll_step recorder (ai_capacity (ev_fd this)) k (this, log) = Some (this, log @ notices (es ! k))"
    by (rule poll_step_recorder [OF assms(2) refl pollfd_at_rep [OF assms(1) k(1)]])
  then show ?case
    using Suc.hyps(1) [of "k + 1"] Suc.hyps(2) k
    by (simp add: Cons_nth_drop_Suc [OF k(1), symmetric])
qed

lemma poller_rep_clear: "poller_rep a es \<Longrightarrow> poller_rep (array_clear a) [] \<and> ai_capacity (array_clear a) = ai_capacity a"
  by (auto simp: poller_rep_def array_clear_def)

text \<open>The outcome of a wait: it fails with the kernel, or times out when nothing is reported, or
  calls back for every report; then it reads past the array when the array is full.\<close>

lemma wait_poller_recorder:
  assumes rep: "poller_rep (ev_fd this) es" and rec: "recording this"
  shows "wait_poller recorder Poll_fails this log = Some (-1, this\<lparr>ev_fd := array_clear (ev_fd this)\<rparr>, log)"
    and "\<forall>p \<in> set es. pfd_revents (poll_one conds p) = 0 \<Longrightarrow>
      wait_poller recorder (Poll_ready conds) this log =
        Some (0, this\<lparr>ev_fd := array_clear (ev_fd this)\<rparr>, log @ [Timed_out])"
    and "\<exists>p \<in> set es. pfd_revents (poll_one conds p) \<noteq> 0 \<Longrightarrow> length es < ai_capacity (ev_fd this) \<Longrightarrow>
      \<exists>n > 0. wait_poller recorder (Poll_ready conds) this log =
        Some (n, this\<lparr>ev_fd := array_clear (ev_fd this)\<rparr>, log @ concat (map (poll_calls conds) es))"
    and "\<exists>p \<in> set es. pfd_revents (poll_one conds p) \<noteq> 0 \<Longrightarrow> length es = ai_capacity (ev_fd this) \<Longrightarrow>
      wait_poller recorder (Poll_ready conds) this log = None"
proof -
  let ?a = "ev_fd this"
  let ?z = "replicate (ai_capacity ?a - length es) Zeroed"
  have a: "ai_content ?a = map Stored es @ ?z" "ai_count ?a = length es" using rep by (auto simp: poller_rep_def)
  show "wait_poller recorder Poll_fails this log = Some (-1, this\<lparr>ev_fd := array_clear ?a\<rparr>, log)"
    by (simp add: wait_poller_def array_clear_def)
  obtain n where n: "ppoll (ai_content ?a) (length es) (Poll_ready conds) =
      Some (int n, map Stored (map (poll_one conds) es) @ ?z)"
      "n = 0 \<longleftrightarrow> (\<forall>p \<in> set es. pfd_revents (poll_one conds p) = 0)"
    using ppoll_entries [of es ?z conds] a by auto
  let ?this1 = "this\<lparr>ev_fd := ?a\<lparr>ai_content := map Stored (map (poll_one conds) es) @ ?z\<rparr>\<rparr>"
  have rec1: "recording ?this1" using rec by (simp add: recording_def)
  have rep1: "poller_rep (ev_fd ?this1) (map (poll_one conds) es)"
    using rep by (simp add: poller_rep_def poll_one_def comp_def)
  have clear: "?this1\<lparr>ev_fd := array_clear (ev_fd ?this1)\<rparr> = this\<lparr>ev_fd := array_clear ?a\<rparr>"
    by (simp add: array_clear_def)
  show "wait_poller recorder (Poll_ready conds) this log = Some (0, this\<lparr>ev_fd := array_clear ?a\<rparr>, log @ [Timed_out])"
    if "\<forall>p \<in> set es. pfd_revents (poll_one conds p) = 0"
    using n that rec clear
    by (simp add: wait_poller_def array_count_def a(2) fire_timeout_def recording_def recorder_def)
  have loop: "poll_loop recorder (ai_capacity ?a) 0 (length es + 1) (?this1, log) =
      (if length es < ai_capacity ?a then Some (?this1, log @ concat (map (poll_calls conds) es)) else None)"
    using poll_loop_recorder [OF rep1 rec1, of 0 log] by (simp add: poll_calls_def [abs_def] comp_def del: poll_loop.simps)
  have run: "wait_poller recorder (Poll_ready conds) this log =
      (poll_loop recorder (ai_capacity ?a) 0 (length es + 1) (?this1, log) \<bind>
       (\<lambda>(this', data'). Some (int n, this'\<lparr>ev_fd := array_clear (ev_fd this')\<rparr>, data')))" "0 < int n"
    if "\<exists>p \<in> set es. pfd_revents (poll_one conds p) \<noteq> 0"
  proof -
    show pos: "0 < int n" using n(2) that by auto
    show "wait_poller recorder (Poll_ready conds) this log =
      (poll_loop recorder (ai_capacity ?a) 0 (length es + 1) (?this1, log) \<bind>
       (\<lambda>(this', data'). Some (int n, this'\<lparr>ev_fd := array_clear (ev_fd this')\<rparr>, data')))"
      using pos unfolding wait_poller_def array_count_def a(2) Let_def n(1) by simp
  qed
  show "\<exists>n > 0. wait_poller recorder (Poll_ready conds) this log =
      Some (n, this\<lparr>ev_fd := array_clear ?a\<rparr>, log @ concat (map (poll_calls conds) es))"
    if "\<exists>p \<in> set es. pfd_revents (poll_one conds p) \<noteq> 0" "length es < ai_capacity ?a"
    using run [OF that(1)] that(2) clear unfolding loop by auto
  show "wait_poller recorder (Poll_ready conds) this log = None"
    if "\<exists>p \<in> set es. pfd_revents (poll_one conds p) \<noteq> 0" "length es = ai_capacity ?a"
    using run [OF that(1)] that(2) unfolding loop by simp
qed

section \<open>The poller provides the interface\<close>

definition poller_entries :: "pollfd cad_array_impl \<Rightarrow> pollfd list" where
  "poller_entries a = map (\<lambda>c. case c of Stored p \<Rightarrow> p | _ \<Rightarrow> undefined) (array_abs a)"

definition entry_has :: "pollfd \<Rightarrow> event_kind \<Rightarrow> bool" where
  "entry_has p k \<longleftrightarrow> pfd_events p AND poll_flag k = poll_flag k"

definition entries_registered :: "pollfd list \<Rightarrow> (event_kind \<times> int) set" where
  "entries_registered es = {(k, fd). \<exists>p \<in> set es. pfd_fd p = fd \<and> entry_has p k}"

definition poller_registered :: "'cb poller_impl \<Rightarrow> (event_kind \<times> int) set" where
  "poller_registered this = entries_registered (poller_entries (ev_fd this))"

definition poller_inv :: "event_kind poller_impl \<Rightarrow> bool" where
  "poller_inv this \<longleftrightarrow> recording this \<and> 8 * ai_capacity (ev_fd this) \<le> INT_MAX \<and>
     poller_rep (ev_fd this) (poller_entries (ev_fd this)) \<and>
     (\<forall>p \<in> set (poller_entries (ev_fd this)). \<exists>k. entry_has p k)"

fun poll_holds :: "poll_world \<Rightarrow> event_kind \<Rightarrow> int \<Rightarrow> bool" where
  "poll_holds Poll_fails k fd = False"
| "poll_holds (Poll_ready conds) k fd \<longleftrightarrow> 0 \<le> fd \<and> conds fd AND poll_flag k \<noteq> 0"

lemma poller_entries_rep: "poller_rep a es \<Longrightarrow> poller_entries a = es"
  by (auto simp: poller_entries_def poller_rep_def array_abs_def comp_def)

lemma entry_has_mark: "entry_has (mark (poll_flag k) p) k' \<longleftrightarrow> k = k' \<or> entry_has p k'"
proof (cases "k = k'")
  case True
  then show ?thesis by (simp add: entry_has_def mark_def bit.conj_disj_distrib2)
next
  case False
  then show ?thesis by (simp add: entry_has_def mark_def bit.conj_disj_distrib2)
qed

lemma entries_registered_add:
  "entries_registered (add_entry k fd es) = insert (k, fd) (entries_registered es)"
proof (cases "fd \<in> pfd_fd ` set es")
  case True
  have fd: "pfd_fd (mark f p) = pfd_fd p" for f p by (simp add: mark_def)
  let ?f = "\<lambda>p. if pfd_fd p = fd then mark (poll_flag k) p else p"
  have f: "pfd_fd (?f p) = pfd_fd p" "entry_has (?f p) j \<longleftrightarrow> pfd_fd p = fd \<and> k = j \<or> entry_has p j" for p j
    by (auto simp: fd entry_has_mark)
  have "entries_registered (add_entry k fd es) = {(j, g). \<exists>p \<in> set es. pfd_fd (?f p) = g \<and> entry_has (?f p) j}"
    using True by (simp only: add_entry_def entries_registered_def if_True set_map bex_simps(7))
  also have "\<dots> = insert (k, fd) (entries_registered es)"
    using True unfolding f by (auto simp: entries_registered_def)
  finally show ?thesis .
next
  case False
  have "entry_has \<lparr>pfd_fd = fd, pfd_events = poll_flag k, pfd_revents = 0\<rparr> j \<longleftrightarrow> k = j" for j
    by (simp add: entry_has_def)
  then show ?thesis using False by (auto simp: add_entry_def entries_registered_def)
qed

lemma add_entry_used:
  "\<forall>p \<in> set es. \<exists>k. entry_has p k \<Longrightarrow> \<forall>p \<in> set (add_entry k fd es). \<exists>k. entry_has p k"
  by (auto simp: add_entry_def entry_has_mark) (auto simp: entry_has_def)

lemma poll_one_reports:
  "pfd_revents (poll_one conds p) AND poll_flag k \<noteq> 0 \<Longrightarrow> poll_holds (Poll_ready conds) k (pfd_fd p)"
  by (auto simp: poll_one_def word_bw_assocs word_bw_comms split: if_splits)
    (metis word_bw_comms(1) word_bw_lcs(1) word_log_esimps(1))

lemma poll_one_reports_registered:
  assumes "entry_has p k" "poll_holds (Poll_ready conds) k (pfd_fd p)"
  shows "pfd_revents (poll_one conds p) AND poll_flag k \<noteq> 0"
proof -
  let ?e = "POLLERR OR POLLHUP OR POLLNVAL"
  have "(pfd_events p OR ?e) AND poll_flag k = poll_flag k OR (?e AND poll_flag k)"
    using assms(1) by (simp add: entry_has_def bit.conj_disj_distrib2)
  moreover have "conds (pfd_fd p) AND (poll_flag k OR (?e AND poll_flag k)) = conds (pfd_fd p) AND poll_flag k"
    by (metis word_ao_absorbs(2) word_bw_comms(1) word_bw_comms(2))
  ultimately show ?thesis
    using assms(2) by (simp add: poll_one_def word_bw_assocs not_less)
qed

lemma set_poll_calls:
  "c \<in> set (concat (map (poll_calls conds) es)) \<longleftrightarrow>
   (\<exists>p \<in> set es. \<exists>k. c = Notice k (pfd_fd p) \<and> pfd_revents (poll_one conds p) AND poll_flag k \<noteq> 0)"
  unfolding ex_event_kind by (auto simp: poll_calls_def notices_def poll_one_def)

lemma distinct_poll_calls:
  "distinct (map pfd_fd es) \<Longrightarrow> distinct (concat (map (poll_calls conds) es))"
proof (induction es)
  case (Cons p es)
  have "distinct (poll_calls conds p)" by (auto simp: poll_calls_def notices_def)
  moreover have "set (poll_calls conds p) \<inter> set (concat (map (poll_calls conds) es)) = {}"
    using Cons.prems by (auto simp: poll_calls_def notices_def poll_one_def)
  ultimately show ?case using Cons by auto
qed simp

text \<open>The calls of a wait: every registered event that is ready, no event that is not, none twice.\<close>

lemma poll_calls_law:
  assumes "poller_rep a es"
  shows "(k, fd) \<in> entries_registered es \<Longrightarrow> poll_holds (Poll_ready conds) k fd \<Longrightarrow>
      Notice k fd \<in> set (concat (map (poll_calls conds) es))"
    and "c \<in> set (concat (map (poll_calls conds) es)) \<Longrightarrow>
      \<exists>k fd. c = Notice k fd \<and> poll_holds (Poll_ready conds) k fd \<and> fd \<in> pfd_fd ` set es"
    and "distinct (concat (map (poll_calls conds) es))"
proof -
  show "Notice k fd \<in> set (concat (map (poll_calls conds) es))"
    if "(k, fd) \<in> entries_registered es" "poll_holds (Poll_ready conds) k fd"
    using that poll_one_reports_registered unfolding set_poll_calls entries_registered_def by blast
  show "\<exists>k fd. c = Notice k fd \<and> poll_holds (Poll_ready conds) k fd \<and> fd \<in> pfd_fd ` set es"
    if "c \<in> set (concat (map (poll_calls conds) es))"
    using that poll_one_reports unfolding set_poll_calls by blast
  show "distinct (concat (map (poll_calls conds) es))"
    using assms by (simp add: distinct_poll_calls poller_rep_def del: distinct_concat_iff)
qed

lemma poll_quiet:
  assumes "\<forall>p \<in> set es. pfd_revents (poll_one conds p) = 0" "(k, fd) \<in> entries_registered es"
  shows "\<not> poll_holds (Poll_ready conds) k fd"
  using assms poll_one_reports_registered by (force simp: entries_registered_def)

lemma fds_registered:
  "\<forall>p \<in> set es. \<exists>k. entry_has p k \<Longrightarrow> snd ` entries_registered es = pfd_fd ` set es"
  by (force simp: entries_registered_def)

interpretation poller: event_loop set_poller "wait_poller recorder" poller_registered poll_holds
  "\<lambda>w. w = Poll_fails" "\<lambda>fd. True" poller_inv 3
proof
  fix s :: "event_kind poller_impl" and fd k and w and log :: "notice list"
  assume s: "poller_inv s"
  let ?a = "ev_fd s" and ?es = "poller_entries (ev_fd s)"
  have rec: "recording s" and rep: "poller_rep ?a ?es" and used: "\<forall>p \<in> set ?es. \<exists>k. entry_has p k"
      and cap: "8 * ai_capacity ?a \<le> INT_MAX"
    using s by (auto simp: poller_inv_def)
  have fds: "snd ` poller_registered s = pfd_fd ` set ?es"
    using fds_registered [OF used] by (simp add: poller_registered_def)
  have card: "card (pfd_fd ` set ?es) = length ?es"
    using rep distinct_card [of "map pfd_fd ?es"] by (simp add: poller_rep_def)
  show "\<exists>s'. set_poller k s fd = Some s' \<and> poller_inv s' \<and> poller_registered s' = insert (k, fd) (poller_registered s)"
    if "card (insert fd (snd ` poller_registered s)) \<le> 3"
  proof -
    have le: "length ?es \<le> 3"
      using that card_insert_le [of "pfd_fd ` set ?es" fd] card unfolding fds by linarith
    then have g: "grown_capacity (length ?es) (ai_capacity ?a) \<le> max 4 (ai_capacity ?a)"
      using rep by (auto simp: grown_capacity_def poller_rep_def)
    then have room: "8 * grown_capacity (length ?es) (ai_capacity ?a) \<le> INT_MAX"
      using cap by (simp add: INT_MAX_def max_def split: if_splits)
    from set_poller_total [OF rep this, of k fd] obtain s' where
        s': "set_poller k s fd = Some s'" "s' = s\<lparr>ev_fd := ev_fd s'\<rparr>" "poller_rep (ev_fd s') (add_entry k fd ?es)"
          "ai_capacity (ev_fd s') = (if fd \<in> pfd_fd ` set ?es then ai_capacity ?a
             else grown_capacity (length ?es) (ai_capacity ?a))"
      by blast
    have "recording s'" using rec by (subst s'(2)) (simp add: recording_def)
    then have "poller_inv s'"
      using s'(3,4) room cap add_entry_used [OF used]
      by (simp add: poller_inv_def poller_entries_rep [OF s'(3)])
    then show ?thesis
      using s'(1) by (simp add: poller_registered_def poller_entries_rep [OF s'(3)] entries_registered_add)
  qed
  let ?s' = "s\<lparr>ev_fd := array_clear ?a\<rparr>"
  have clear: "poller_rep (ev_fd ?s') []" "ai_capacity (ev_fd ?s') = ai_capacity ?a"
    using poller_rep_clear [OF rep] by simp_all
  then have after: "poller_inv ?s'" "poller_registered ?s' = {}"
    using rec cap poller_entries_rep [OF clear(1)]
    by (simp_all add: poller_inv_def recording_def poller_registered_def entries_registered_def)
  show "\<exists>res s' calls. wait_poller recorder w s log = Some (res, s', log @ calls) \<and> poller_inv s' \<and>
      poller_registered s' = {} \<and> distinct calls \<and>
      (if w = Poll_fails then res = -1 \<and> calls = []
       else if res = 0 then calls = [Timed_out] \<and> (\<forall>(k, fd) \<in> poller_registered s. \<not> poll_holds w k fd)
       else 0 < res \<and> (\<forall>(k, fd) \<in> poller_registered s. poll_holds w k fd \<longrightarrow> Notice k fd \<in> set calls) \<and>
         (\<forall>c \<in> set calls. \<exists>k fd. c = Notice k fd \<and> poll_holds w k fd \<and> fd \<in> snd ` poller_registered s))"
    if "card (snd ` poller_registered s) \<le> 3"
  proof (cases w)
    case Poll_fails
    then show ?thesis using wait_poller_recorder(1) [OF rep rec] after by (auto intro: exI [of _ ?s'])
  next
    case (Poll_ready conds)
    show ?thesis
    proof (cases "\<forall>p \<in> set ?es. pfd_revents (poll_one conds p) = 0")
      case True
      then show ?thesis
        using wait_poller_recorder(2) [OF rep rec True, of log] after Poll_ready poll_quiet [OF True]
        by (intro exI [of _ 0] exI [of _ ?s'] exI [of _ "[Timed_out]"]) (auto simp: poller_registered_def)
    next
      case False
      have le: "length ?es \<le> 3" using that card by (simp add: fds)
      have "length ?es < ai_capacity ?a" using False le rep by (auto simp: poller_rep_def)
      then obtain n where n: "0 < n" "wait_poller recorder (Poll_ready conds) s log =
          Some (n, ?s', log @ concat (map (poll_calls conds) ?es))"
        using wait_poller_recorder(3) [OF rep rec, of conds log] False by blast
      note calls = poll_calls_law [OF rep, where conds = conds]
      show ?thesis
        using n after calls
        by (intro exI [of _ n] exI [of _ ?s'] exI [of _ "concat (map (poll_calls conds) ?es)"])
          (auto simp: Poll_ready poller_registered_def fds_registered [OF used] simp del: set_concat)
    qed
  qed
qed

end
