(* ===== verification/Cad_Events_Props.thy ===== *)
theory Cad_Events_Props
  imports Cad_Poller_Laws
begin

text \<open>
  Properties of the events loops: what a client gets from a new loop once it has set its four
  callbacks and registered its descriptors, on both loops.
\<close>

definition watch :: "(event_kind, 'f) events_impl \<Rightarrow> (event_kind, 'f) events_impl" where
  "watch this = on_timeout_impl (on_read_impl (on_write_impl (on_exception_impl this
     (Some Exception)) (Some Write)) (Some Read)) (Some Read)"

lemma recording_watch: "recording (watch this)"
  by (simp add: watch_def recording_def on_timeout_impl_def on_read_impl_def on_write_impl_def on_exception_impl_def)

lemma ev_fd_watch [simp]: "ev_fd (watch this) = ev_fd this"
  by (simp add: watch_def on_timeout_impl_def on_read_impl_def on_write_impl_def on_exception_impl_def)

section \<open>The selector\<close>

lemma new_selector:
  assumes "cad_new_events_selector malloc_ok = Some s0"
  shows "selector_inv (watch s0)" "selector_registered (watch s0) = {}"
  using assms recording_watch [of s0]
  by (auto simp: cad_new_events_selector_def selector_inv_sets selector_registered_sets FD_SETSIZE_def split: if_splits)

text \<open>C34: a wait on a selector calls back exactly the registered events that are ready, each once, and
  the registrations do not survive it: the next wait calls back no event, whatever is ready then.\<close>

theorem selector_calls_ready_once:
  assumes "cad_new_events_selector malloc_ok = Some s0" "\<forall>(k, fd) \<in> set regs. 0 \<le> fd \<and> fd < FD_SETSIZE"
    and "(k0, fd0) \<in> set regs" "select_holds w k0 fd0"
  shows "\<exists>s1 res s2 calls. register set_selector (watch s0) regs = Some s1 \<and>
    wait_selector recorder w s1 log = Some (res, s2, log @ calls) \<and> 0 < res \<and> distinct calls \<and>
    set calls = {Notice k fd | k fd. (k, fd) \<in> set regs \<and> select_holds w k fd} \<and>
    (\<forall>w' log'. \<exists>res' s3 calls'. wait_selector recorder w' s2 log' = Some (res', s3, log' @ calls') \<and>
      set calls' \<subseteq> {Timed_out})"
proof -
  have ok: "w \<noteq> Select_fails" using assms(4) by auto
  have "snd ` set regs \<subseteq> {0..<FD_SETSIZE}" using assms(2) by force
  then have few: "card (snd ` set regs) \<le> 1024"
    using card_mono [of "{0..<FD_SETSIZE}"] by (fastforce simp: FD_SETSIZE_def)
  obtain s1 where s1: "register set_selector (watch s0) regs = Some s1" "selector_inv s1"
      "selector_registered s1 = set regs"
    using selector.register_all [of "watch s0" regs] new_selector [OF assms(1)] assms(2) few by auto
  obtain s1' res s2 calls where w: "register set_selector (watch s0) regs = Some s1'"
      "wait_selector recorder w s1' log = Some (res, s2, log @ calls)" "distinct calls"
      "\<forall>w' log'. \<exists>res' s3 calls'. wait_selector recorder w' s2 log' = Some (res', s3, log' @ calls') \<and>
        set calls' \<subseteq> {Timed_out}"
    using selector.register_wait_wait [OF new_selector [OF assms(1)] assms(2) few ok, of log] by blast
  have ready: "\<exists>(k, fd) \<in> selector_registered s1. select_holds w k fd" using assms(3,4) s1(3) by blast
  have res: "0 < res" and calls: "calls = selector_calls w (ev_fd s1)"
    using wait_selector_recorder [OF s1(2), of w log] w(1,2) s1(1) ok ready by force+
  show ?thesis
    using w s1(1) res selector_calls_exact [OF s1(2) ready] unfolding calls s1(3) by blast
qed

lemma selector_calls_ready_once_witness:
  "\<exists>s0 s1 res s2 calls. cad_new_events_selector True = Some s0 \<and>
     register set_selector (watch s0) [(Read, 3), (Write, 5)] = Some s1 \<and>
     wait_selector recorder (Select_ready {3} {} {}) s1 [] = Some (res, s2, calls) \<and> 0 < res \<and>
     set calls = {Notice Read 3}"
proof -
  obtain s0 :: "event_kind selector_impl" where s0: "cad_new_events_selector True = Some s0"
    by (simp add: cad_new_events_selector_def)
  have "{Notice k fd | k fd. (k, fd) \<in> set [(Read, 3), (Write, 5)] \<and> select_holds (Select_ready {3} {} {}) k fd} =
      {Notice Read 3}"
    by auto
  then show ?thesis
    using selector_calls_ready_once [OF s0, of "[(Read, 3), (Write, 5)]" Read 3 "Select_ready {3} {} {}" "[]"] s0
    by (fastforce simp: FD_SETSIZE_def)
qed

section \<open>The poller\<close>

text \<open>The capacity of the array of a new poller after the registration of \<open>n\<close> descriptors.\<close>

definition capacity_for :: "nat \<Rightarrow> nat \<Rightarrow> bool" where
  "capacity_for n cap \<longleftrightarrow> n = 0 \<and> cap = 0 \<or> doubled 4 n cap"

lemma capacity_for_grow: "capacity_for n cap \<Longrightarrow> capacity_for (Suc n) (grown_capacity n cap)"
  using doubled_Suc [of 4 n cap] doubled_start [of 1 4]
  by (auto simp: capacity_for_def grown_capacity_def doubled_def split: if_splits)

lemma capacity_for_bound: "capacity_for n cap \<Longrightarrow> grown_capacity n cap \<le> max 4 (2 * n)"
  using doubled_bound [of 4 n cap] by (auto simp: capacity_for_def grown_capacity_def doubled_def)

lemma capacity_for_full: "capacity_for n cap \<Longrightarrow> n \<noteq> 0 \<Longrightarrow> n = cap \<longleftrightarrow> (\<exists>j. n = 4 * 2 ^ j)"
  using doubled_full [of 4 n cap] by (auto simp: capacity_for_def)

lemma register_poller:
  assumes "poller_rep (ev_fd this) es" "recording this" "capacity_for (length es) (ai_capacity (ev_fd this))"
    and "length es + length regs \<le> 10 ^ 6"
  shows "\<exists>this' es'. register set_poller this regs = Some this' \<and> poller_rep (ev_fd this') es' \<and> recording this' \<and>
    capacity_for (length es') (ai_capacity (ev_fd this')) \<and>
    entries_registered es' = entries_registered es \<union> set regs \<and> pfd_fd ` set es' = pfd_fd ` set es \<union> snd ` set regs"
  using assms
proof (induction regs arbitrary: this es)
  case Nil
  then show ?case by auto
next
  case (Cons r regs)
  obtain k fd where r: "r = (k, fd)" by (cases r)
  have "length es \<le> 10 ^ 6" using Cons.prems(4) by simp
  then have room: "8 * grown_capacity (length es) (ai_capacity (ev_fd this)) \<le> INT_MAX"
    using capacity_for_bound [OF Cons.prems(3)] by (simp add: INT_MAX_def max_def split: if_splits)
  obtain s1 where s1: "set_poller k this fd = Some s1" "s1 = this\<lparr>ev_fd := ev_fd s1\<rparr>"
      "poller_rep (ev_fd s1) (add_entry k fd es)"
      "ai_capacity (ev_fd s1) = (if fd \<in> pfd_fd ` set es then ai_capacity (ev_fd this)
        else grown_capacity (length es) (ai_capacity (ev_fd this)))"
    using set_poller_total [OF Cons.prems(1) room, of k fd] by blast
  have rec: "recording s1" using Cons.prems(2) by (subst s1(2)) (simp add: recording_def)
  have len: "length (add_entry k fd es) = (if fd \<in> pfd_fd ` set es then length es else Suc (length es))"
    by (simp add: add_entry_def)
  then have cap: "capacity_for (length (add_entry k fd es)) (ai_capacity (ev_fd s1))"
    using Cons.prems(3) capacity_for_grow s1(4) by simp
  have fds: "pfd_fd ` set (add_entry k fd es) = insert fd (pfd_fd ` set es)"
    using arg_cong [OF map_pfd_fd_add_entry, of set k fd es] by (auto split: if_splits)
  show ?case
    using Cons.IH [OF s1(3) rec cap] Cons.prems(4) len s1(1) r
    by (auto simp: entries_registered_add fds insert_commute split: if_splits)
qed

lemma new_poller:
  assumes "cad_new_events_poller malloc_ok = Some s0"
  shows "poller_rep (ev_fd (watch s0)) []" "capacity_for 0 (ai_capacity (ev_fd (watch s0)))"
  using assms by (auto simp: cad_new_events_poller_def cad_new_array_def poller_rep_def capacity_for_def split: if_splits)

text \<open>C35: a wait on a new poller, where something that a client has registered is ready, calls back
  every event that is both, each once and nothing that is not ready; but it reads past the end of the
  array when the number of descriptors is 4, 8, 16 and so on.\<close>

theorem poller_wait_outcome:
  assumes "cad_new_events_poller malloc_ok = Some s0" "length regs \<le> 10 ^ 6"
    and "(k0, fd0) \<in> set regs" "poll_holds w k0 fd0"
  shows "\<exists>s1. register set_poller (watch s0) regs = Some s1 \<and>
    (if \<exists>j. card (snd ` set regs) = 4 * 2 ^ j then wait_poller recorder w s1 log = None
     else \<exists>res s2 calls. wait_poller recorder w s1 log = Some (res, s2, log @ calls) \<and> 0 < res \<and> distinct calls \<and>
       (\<forall>(k, fd) \<in> set regs. poll_holds w k fd \<longrightarrow> Notice k fd \<in> set calls) \<and>
       (\<forall>c \<in> set calls. \<exists>k fd. c = Notice k fd \<and> poll_holds w k fd \<and> fd \<in> snd ` set regs))"
proof -
  obtain conds where w: "w = Poll_ready conds" using assms(4) by (cases w) auto
  obtain s1 es where s1: "register set_poller (watch s0) regs = Some s1" "poller_rep (ev_fd s1) es" "recording s1"
      "capacity_for (length es) (ai_capacity (ev_fd s1))" "entries_registered es = set regs"
      "pfd_fd ` set es = snd ` set regs"
    using register_poller [OF new_poller(1) [OF assms(1)] recording_watch, of regs] new_poller(2) [OF assms(1)] assms(2)
    by (simp add: entries_registered_def) blast
  have n: "length es = card (snd ` set regs)"
    using s1(2,6) distinct_card [of "map pfd_fd es"] by (simp add: poller_rep_def)
  have ne: "length es \<noteq> 0" using assms(3) n by (auto simp: card_eq_0_iff)
  have rep: "\<exists>p \<in> set es. pfd_revents (poll_one conds p) \<noteq> 0"
    using poll_quiet [of es conds k0 fd0] assms(3,4) s1(5) w by blast
  show ?thesis
  proof (cases "\<exists>j. card (snd ` set regs) = 4 * 2 ^ j")
    case True
    then have "length es = ai_capacity (ev_fd s1)" using capacity_for_full [OF s1(4) ne] n by simp
    then show ?thesis
      using wait_poller_recorder(4) [OF s1(2,3) rep] s1(1) True w by simp
  next
    case False
    then have "length es < ai_capacity (ev_fd s1)"
      using capacity_for_full [OF s1(4) ne] n s1(2) by (simp add: poller_rep_def)
    from wait_poller_recorder(3) [OF s1(2,3) rep this, of log] obtain r where
        r: "0 < r" "wait_poller recorder w s1 log =
          Some (r, s1\<lparr>ev_fd := array_clear (ev_fd s1)\<rparr>, log @ concat (map (poll_calls conds) es))"
      using w by blast
    have all: "\<forall>(k, fd) \<in> set regs. poll_holds w k fd \<longrightarrow> Notice k fd \<in> set (concat (map (poll_calls conds) es))"
    proof (intro ballI)
      fix r assume reg: "r \<in> set regs"
      obtain k fd where "r = (k, fd)" by (cases r)
      with reg show "case r of (k, fd) \<Rightarrow> poll_holds w k fd \<longrightarrow> Notice k fd \<in> set (concat (map (poll_calls conds) es))"
        using poll_calls_law(1) [OF s1(2), unfolded s1(5)] by (simp add: w del: set_concat poll_holds.simps)
    qed
    have only: "\<forall>c \<in> set (concat (map (poll_calls conds) es)). \<exists>k fd. c = Notice k fd \<and> poll_holds w k fd \<and> fd \<in> snd ` set regs"
      unfolding w by (intro ballI) (rule poll_calls_law(2) [OF s1(2), unfolded s1(6)])
    show ?thesis
      unfolding if_not_P [OF False]
      by (intro exI conjI) (rule s1(1) r(1,2) poll_calls_law(3) [OF s1(2), of conds] all only)+
  qed
qed

lemma poller_wait_outcome_witness:
  "\<exists>s0 s1. cad_new_events_poller True = Some s0 \<and>
     register set_poller (watch s0) [(Read, 0), (Read, 1), (Read, 2), (Read, 3)] = Some s1 \<and>
     wait_poller recorder (Poll_ready (\<lambda>_. POLLIN)) s1 [] = None"
proof -
  obtain s0 :: "event_kind poller_impl" where s0: "cad_new_events_poller True = Some s0"
    by (simp add: cad_new_events_poller_def cad_new_array_def)
  have four: "\<exists>j. card (snd ` set [(Read, 0 :: int), (Read, 1), (Read, 2), (Read, 3)]) = 4 * 2 ^ j"
    by (intro exI [of _ 0]) simp
  have holds: "poll_holds (Poll_ready (\<lambda>_. POLLIN)) Read 0"
    using poll_flags(1) [of Read] by (simp add: poll_flag_def)
  obtain s1 where s1: "register set_poller (watch s0) [(Read, 0), (Read, 1), (Read, 2), (Read, 3)] = Some s1"
      "wait_poller recorder (Poll_ready (\<lambda>_. POLLIN)) s1 [] = None"
    using poller_wait_outcome [OF s0, of "[(Read, 0), (Read, 1), (Read, 2), (Read, 3)]" Read 0 _ "[]", OF _ _ holds]
    unfolding if_P [OF four] by auto
  then show ?thesis using s0 by blast
qed

end
