(* ===== verification/Cad_Event_Queue.thy ===== *)
theory Cad_Event_Queue
  imports Cad_Events
begin

text \<open>
  The event queue on POSIX threads (src/cad_event_queue_pthread.c, include/cad_event_queue.h): a
  worker thread calls the client's provider and writes what it returns into a pipe, from which the
  client pulls. Two threads run, the worker and the client's own, and a step of the model is one step of either;
  they interleave in every possible way. The position of each thread in the code is a program
  counter, a constructor per statement that touches what they share.

  A mutex that is held blocks whoever locks it, its holder too (as glibc does for the default type of
  \<open>pthread_mutex_init\<close>). A \<open>read\<close> of an empty pipe and a \<open>write\<close> to a full one block; both
  transfer a pointer whole. With \<open>faults\<close>, \<open>read\<close>, \<open>write\<close> and \<open>pthread_create\<close> may fail too. The provider
  is a relation between the data it is called with and what it returns.
\<close>

section \<open>The state\<close>

datatype run_state = STATE_INIT | STATE_RUN | STATE_STOP
datatype thread = Worker | Main

text \<open>The states are \<open>int\<close>s in the code; they are ordered as these are.\<close>

fun run_state_int :: "run_state \<Rightarrow> int" where
  "run_state_int STATE_INIT = 0"
| "run_state_int STATE_RUN = 1"
| "run_state_int STATE_STOP = 2"

lemma run_state_int_inject [simp]: "run_state_int a = run_state_int b \<longleftrightarrow> a = b"
  by (cases a; cases b) simp_all

instantiation run_state :: linorder
begin

definition less_eq_run_state :: "run_state \<Rightarrow> run_state \<Rightarrow> bool" where
  "less_eq_run_state a b \<longleftrightarrow> run_state_int a \<le> run_state_int b"

definition less_run_state :: "run_state \<Rightarrow> run_state \<Rightarrow> bool" where
  "less_run_state a b \<longleftrightarrow> run_state_int a < run_state_int b"

instance
  by standard (auto simp: less_eq_run_state_def less_run_state_def)

end

lemma run_state_bounds [simp]: "STATE_INIT \<le> a" "a \<le> STATE_STOP" "STATE_STOP \<le> a \<longleftrightarrow> a = STATE_STOP"
  by (cases a; simp add: less_eq_run_state_def)+

text \<open>In \<open>stop_pthread\<close>, with the state that it has read first.\<close>

datatype stop_pc = Stop_read | Stop_lock run_state | Stop_set run_state | Stop_unlock run_state
  | Stop_test run_state | Stop_join | Stop_done

text \<open>In \<open>pthread_main\<close>; \<open>T_unlock\<close> holds the variable \<open>run\<close>.\<close>

datatype worker_pc = No_thread | T_wait | T_head | T_poll | T_lock | T_check | T_sync | T_provide
  | T_unsync | T_test | T_write | T_stop stop_pc | T_unlock bool | T_sleep | T_exit

text \<open>In a call of the client, or in none.\<close>

datatype 'd client_pc = C_idle | C_start "'d ptr" | C_start_lock "'d ptr" | C_start_set "'d ptr"
  | C_start_create | C_start_run | C_start_unlock | C_pull | C_sync | C_sync_run
  | C_stop stop_pc | C_free stop_pc | C_freed

text \<open>
  The fields of the struct and the pipe, the two program counters, and the local variable \<open>data\<close> of
  the worker. \<open>eq_provided\<close> and \<open>eq_pulled\<close> record what the provider has returned and what the
  client has pulled; the code does not have them.
\<close>

record ('d, 'a) event_queue_pthread =
  eq_state :: run_state
  eq_data :: "'d ptr stored"
  eq_lock :: "thread ptr"
  eq_synchronized_lock :: "thread ptr"
  eq_pipe :: "'a list"
  eq_capacity :: nat
  eq_worker :: worker_pc
  eq_worker_data :: "'a ptr stored"
  eq_client :: "'d client_pc"
  eq_provided :: "'a list"
  eq_pulled :: "'a list"

text \<open>
  \<open>set_pipe_size\<close> is what \<open>fcntl\<close> makes of the size asked for, in bytes: the kernel rounds it up,
  or refuses. When \<open>pipe\<close> fails the code goes on to read the descriptor through \<open>NULL\<close>.
\<close>

definition cad_new_event_queue_pthread ::
  "bool \<Rightarrow> bool \<Rightarrow> (nat \<Rightarrow> nat option) \<Rightarrow> nat \<Rightarrow> ('d, 'a) event_queue_pthread ptr option" where
  "cad_new_event_queue_pthread malloc_ok pipe_ok set_pipe_size capacity =
     (if \<not> malloc_ok then Some NULL
      else if \<not> pipe_ok then None
      else case set_pipe_size (capacity * 8) of
        None \<Rightarrow> Some NULL
      | Some bytes \<Rightarrow> Some (Some
          \<lparr>eq_state = STATE_INIT, eq_data = Indeterminate, eq_lock = NULL, eq_synchronized_lock = NULL,
           eq_pipe = [], eq_capacity = bytes div 8, eq_worker = No_thread, eq_worker_data = Indeterminate,
           eq_client = C_idle, eq_provided = [], eq_pulled = []\<rparr>))"

definition is_running_pthread :: "('d, 'a) event_queue_pthread \<Rightarrow> bool" where
  "is_running_pthread this \<longleftrightarrow> eq_state this = STATE_RUN"

section \<open>Steps\<close>

text \<open>\<open>stop_pthread\<close>, called by \<open>me\<close>. A thread cannot join itself.\<close>

inductive stop_step ::
  "thread \<Rightarrow> ('d, 'a) event_queue_pthread \<Rightarrow> stop_pc \<Rightarrow> ('d, 'a) event_queue_pthread \<Rightarrow> stop_pc \<Rightarrow> bool"
  for me where
  stop_read: "stop_step me s Stop_read s (Stop_lock (eq_state s))"
| stop_lock: "eq_lock s = NULL \<Longrightarrow> stop_step me s (Stop_lock st) (s\<lparr>eq_lock := Some me\<rparr>) (Stop_set st)"
| stop_set: "stop_step me s (Stop_set st) (s\<lparr>eq_state := STATE_STOP, eq_data := Value NULL\<rparr>) (Stop_unlock st)"
| stop_unlock: "stop_step me s (Stop_unlock st) (s\<lparr>eq_lock := NULL\<rparr>) (Stop_test st)"
| stop_test: "stop_step me s (Stop_test st) s (if st = STATE_RUN then Stop_join else Stop_done)"
| stop_join: "me = Main \<Longrightarrow> eq_worker s = T_exit \<Longrightarrow> stop_step me s Stop_join s Stop_done"

definition returned :: "'a ptr \<Rightarrow> 'a list" where
  "returned r = (case r of None \<Rightarrow> [] | Some x \<Rightarrow> [x])"

inductive worker_step ::
  "('d ptr \<Rightarrow> 'a ptr \<Rightarrow> bool) \<Rightarrow> bool \<Rightarrow> ('d, 'a) event_queue_pthread \<Rightarrow> ('d, 'a) event_queue_pthread \<Rightarrow> bool"
  for provider faults where
  w_waits: "eq_worker s = T_wait \<Longrightarrow> eq_state s = STATE_INIT \<Longrightarrow> worker_step provider faults s s"
| w_started: "eq_worker s = T_wait \<Longrightarrow> eq_state s \<noteq> STATE_INIT \<Longrightarrow>
    worker_step provider faults s (s\<lparr>eq_worker := T_head\<rparr>)"
| w_runs: "eq_worker s = T_head \<Longrightarrow> eq_state s = STATE_RUN \<Longrightarrow>
    worker_step provider faults s (s\<lparr>eq_worker := T_poll\<rparr>)"
| w_ends: "eq_worker s = T_head \<Longrightarrow> eq_state s \<noteq> STATE_RUN \<Longrightarrow>
    worker_step provider faults s (s\<lparr>eq_worker := T_exit\<rparr>)"
| w_writable: "eq_worker s = T_poll \<Longrightarrow> length (eq_pipe s) < eq_capacity s \<Longrightarrow>
    worker_step provider faults s (s\<lparr>eq_worker := T_lock\<rparr>)"
| w_timeout: "eq_worker s = T_poll \<Longrightarrow> worker_step provider faults s (s\<lparr>eq_worker := T_head\<rparr>)"
| w_lock: "eq_worker s = T_lock \<Longrightarrow> eq_lock s = NULL \<Longrightarrow>
    worker_step provider faults s (s\<lparr>eq_lock := Some Worker, eq_worker := T_check\<rparr>)"
| w_running: "eq_worker s = T_check \<Longrightarrow> eq_state s = STATE_RUN \<Longrightarrow>
    worker_step provider faults s (s\<lparr>eq_worker := T_sync\<rparr>)"
| w_stopped: "eq_worker s = T_check \<Longrightarrow> eq_state s \<noteq> STATE_RUN \<Longrightarrow>
    worker_step provider faults s (s\<lparr>eq_worker := T_unlock False\<rparr>)"
| w_sync: "eq_worker s = T_sync \<Longrightarrow> eq_synchronized_lock s = NULL \<Longrightarrow>
    worker_step provider faults s (s\<lparr>eq_synchronized_lock := Some Worker, eq_worker := T_provide\<rparr>)"
| w_provide: "eq_worker s = T_provide \<Longrightarrow> eq_data s = Value d \<Longrightarrow> provider d r \<Longrightarrow>
    worker_step provider faults s
      (s\<lparr>eq_worker_data := Value r, eq_provided := eq_provided s @ returned r, eq_worker := T_unsync\<rparr>)"
| w_unsync: "eq_worker s = T_unsync \<Longrightarrow>
    worker_step provider faults s (s\<lparr>eq_synchronized_lock := NULL, eq_worker := T_test\<rparr>)"
| w_nothing: "eq_worker s = T_test \<Longrightarrow> eq_worker_data s = Value NULL \<Longrightarrow>
    worker_step provider faults s (s\<lparr>eq_worker := T_unlock True\<rparr>)"
| w_something: "eq_worker s = T_test \<Longrightarrow> eq_worker_data s = Value (Some x) \<Longrightarrow>
    worker_step provider faults s (s\<lparr>eq_worker := T_write\<rparr>)"
| w_write: "eq_worker s = T_write \<Longrightarrow> eq_worker_data s = Value (Some x) \<Longrightarrow> length (eq_pipe s) < eq_capacity s \<Longrightarrow>
    worker_step provider faults s (s\<lparr>eq_pipe := eq_pipe s @ [x], eq_worker := T_unlock True\<rparr>)"
| w_write_fails: "eq_worker s = T_write \<Longrightarrow> faults \<Longrightarrow>
    worker_step provider faults s (s\<lparr>eq_worker := T_stop Stop_read\<rparr>)"
| w_stop: "eq_worker s = T_stop p \<Longrightarrow> stop_step Worker s p s' p' \<Longrightarrow>
    worker_step provider faults s (s'\<lparr>eq_worker := T_stop p'\<rparr>)"
| w_stop_done: "eq_worker s = T_stop Stop_done \<Longrightarrow>
    worker_step provider faults s (s\<lparr>eq_worker := T_unlock True\<rparr>)"
| w_unlock: "eq_worker s = T_unlock run \<Longrightarrow>
    worker_step provider faults s (s\<lparr>eq_lock := NULL, eq_worker := if run then T_sleep else T_head\<rparr>)"
| w_sleep: "eq_worker s = T_sleep \<Longrightarrow> worker_step provider faults s (s\<lparr>eq_worker := T_head\<rparr>)"

inductive client_step ::
  "bool \<Rightarrow> ('d, 'a) event_queue_pthread \<Rightarrow> ('d, 'a) event_queue_pthread \<Rightarrow> bool"
  for faults where
  c_start: "eq_client s = C_idle \<Longrightarrow> client_step faults s (s\<lparr>eq_client := C_start d\<rparr>)"
| c_start_init: "eq_client s = C_start d \<Longrightarrow> eq_state s = STATE_INIT \<Longrightarrow>
    client_step faults s (s\<lparr>eq_client := C_start_lock d\<rparr>)"
| c_start_other: "eq_client s = C_start d \<Longrightarrow> eq_state s \<noteq> STATE_INIT \<Longrightarrow>
    client_step faults s (s\<lparr>eq_client := C_idle\<rparr>)"
| c_start_lock: "eq_client s = C_start_lock d \<Longrightarrow> eq_lock s = NULL \<Longrightarrow>
    client_step faults s (s\<lparr>eq_lock := Some Main, eq_client := C_start_set d\<rparr>)"
| c_start_set: "eq_client s = C_start_set d \<Longrightarrow>
    client_step faults s (s\<lparr>eq_data := Value d, eq_client := C_start_create\<rparr>)"
| c_start_create: "eq_client s = C_start_create \<Longrightarrow>
    client_step faults s (s\<lparr>eq_worker := T_wait, eq_worker_data := Indeterminate, eq_client := C_start_run\<rparr>)"
| c_start_fails: "eq_client s = C_start_create \<Longrightarrow> faults \<Longrightarrow>
    client_step faults s (s\<lparr>eq_client := C_start_unlock\<rparr>)"
| c_start_run: "eq_client s = C_start_run \<Longrightarrow>
    client_step faults s (s\<lparr>eq_state := STATE_RUN, eq_client := C_start_unlock\<rparr>)"
| c_start_unlock: "eq_client s = C_start_unlock \<Longrightarrow>
    client_step faults s (s\<lparr>eq_lock := NULL, eq_client := C_idle\<rparr>)"
| c_pull: "eq_client s = C_idle \<Longrightarrow> client_step faults s (s\<lparr>eq_client := C_pull\<rparr>)"
| c_pull_read: "eq_client s = C_pull \<Longrightarrow> eq_pipe s = x # xs \<Longrightarrow>
    client_step faults s (s\<lparr>eq_pipe := xs, eq_pulled := eq_pulled s @ [x], eq_client := C_idle\<rparr>)"
| c_pull_fails: "eq_client s = C_pull \<Longrightarrow> faults \<Longrightarrow> client_step faults s (s\<lparr>eq_client := C_idle\<rparr>)"
| c_sync: "eq_client s = C_idle \<Longrightarrow> client_step faults s (s\<lparr>eq_client := C_sync\<rparr>)"
| c_sync_lock: "eq_client s = C_sync \<Longrightarrow> eq_synchronized_lock s = NULL \<Longrightarrow>
    client_step faults s (s\<lparr>eq_synchronized_lock := Some Main, eq_client := C_sync_run\<rparr>)"
| c_sync_unlock: "eq_client s = C_sync_run \<Longrightarrow>
    client_step faults s (s\<lparr>eq_synchronized_lock := NULL, eq_client := C_idle\<rparr>)"
| c_stop: "eq_client s = C_idle \<Longrightarrow> client_step faults s (s\<lparr>eq_client := C_stop Stop_read\<rparr>)"
| c_stop_step: "eq_client s = C_stop p \<Longrightarrow> stop_step Main s p s' p' \<Longrightarrow>
    client_step faults s (s'\<lparr>eq_client := C_stop p'\<rparr>)"
| c_stop_done: "eq_client s = C_stop Stop_done \<Longrightarrow> client_step faults s (s\<lparr>eq_client := C_idle\<rparr>)"
| c_free: "eq_client s = C_idle \<Longrightarrow> client_step faults s (s\<lparr>eq_client := C_free Stop_read\<rparr>)"
| c_free_step: "eq_client s = C_free p \<Longrightarrow> stop_step Main s p s' p' \<Longrightarrow>
    client_step faults s (s'\<lparr>eq_client := C_free p'\<rparr>)"
| c_free_done: "eq_client s = C_free Stop_done \<Longrightarrow> client_step faults s (s\<lparr>eq_client := C_freed\<rparr>)"

definition queue_step ::
  "('d ptr \<Rightarrow> 'a ptr \<Rightarrow> bool) \<Rightarrow> bool \<Rightarrow> ('d, 'a) event_queue_pthread \<Rightarrow> ('d, 'a) event_queue_pthread \<Rightarrow> bool" where
  "queue_step provider faults s s' \<longleftrightarrow> worker_step provider faults s s' \<or> client_step faults s s'"

inductive queue_run ::
  "('d ptr \<Rightarrow> 'a ptr \<Rightarrow> bool) \<Rightarrow> bool \<Rightarrow> ('d, 'a) event_queue_pthread \<Rightarrow> ('d, 'a) event_queue_pthread \<Rightarrow> bool"
  for provider faults s where
  run_start: "queue_run provider faults s s"
| run_step: "queue_run provider faults s s' \<Longrightarrow> queue_step provider faults s' s'' \<Longrightarrow> queue_run provider faults s s''"

inductive_simps stop_step_simps:
  "stop_step me s Stop_read s' p'" "stop_step me s (Stop_lock st) s' p'" "stop_step me s (Stop_set st) s' p'"
  "stop_step me s (Stop_unlock st) s' p'" "stop_step me s (Stop_test st) s' p'" "stop_step me s Stop_join s' p'"
  "stop_step me s Stop_done s' p'"

end
