(* ===== verification/Cad_Event_Queue_Laws.thy ===== *)
theory Cad_Event_Queue_Laws
  imports Cad_Event_Queue
begin

text \<open>
  The invariant of the event queue, and the termination of a stop. The invariant says which
  positions in the code hold which mutex, what is on its way from the provider to the client, and
  that once the state is \<open>STATE_STOP\<close> the worker has ended or the client is still in the call that
  will join it. Its parts are functions of the program counters, so that every step
  evaluates them.
\<close>

section \<open>The invariant\<close>

fun worker_locks :: "worker_pc \<Rightarrow> bool" where
  "worker_locks (T_stop p) = True"
| "worker_locks (T_unlock run) = True"
| "worker_locks T_check = True"
| "worker_locks T_sync = True"
| "worker_locks T_provide = True"
| "worker_locks T_unsync = True"
| "worker_locks T_test = True"
| "worker_locks T_write = True"
| "worker_locks t = False"

fun worker_syncs :: "worker_pc \<Rightarrow> bool" where
  "worker_syncs T_provide = True"
| "worker_syncs T_unsync = True"
| "worker_syncs t = False"

fun stop_locks :: "stop_pc \<Rightarrow> bool" where
  "stop_locks (Stop_set st) = True"
| "stop_locks (Stop_unlock st) = True"
| "stop_locks p = False"

fun client_locks :: "'d client_pc \<Rightarrow> bool" where
  "client_locks (C_start_set d) = True"
| "client_locks C_start_create = True"
| "client_locks C_start_run = True"
| "client_locks C_start_unlock = True"
| "client_locks (C_stop p) = stop_locks p"
| "client_locks (C_free p) = stop_locks p"
| "client_locks c = False"

text \<open>A worker that stops the queue itself is before or at the mutex that it already holds.\<close>

fun worker_stuck :: "worker_pc \<Rightarrow> bool" where
  "worker_stuck (T_stop p) = (case p of Stop_read \<Rightarrow> True | Stop_lock st \<Rightarrow> True | _ \<Rightarrow> False)"
| "worker_stuck t = False"

definition locks_inv :: "('d, 'a) event_queue_pthread \<Rightarrow> bool" where
  "locks_inv s \<longleftrightarrow>
     \<not> (worker_locks (eq_worker s) \<and> client_locks (eq_client s)) \<and>
     eq_lock s = (if worker_locks (eq_worker s) then Some Worker
       else if client_locks (eq_client s) then Some Main else NULL) \<and>
     \<not> (worker_syncs (eq_worker s) \<and> eq_client s = C_sync_run) \<and>
     eq_synchronized_lock s = (if worker_syncs (eq_worker s) then Some Worker
       else if eq_client s = C_sync_run then Some Main else NULL) \<and>
     (case eq_worker s of T_stop p \<Rightarrow> worker_stuck (T_stop p) | _ \<Rightarrow> True)"

text \<open>The item the worker holds between the provider and the pipe.\<close>

fun in_hand :: "worker_pc \<Rightarrow> 'a ptr stored \<Rightarrow> 'a list" where
  "in_hand T_unsync (Value r) = returned r"
| "in_hand T_test (Value r) = returned r"
| "in_hand T_write (Value r) = returned r"
| "in_hand (T_stop p) (Value r) = returned r"
| "in_hand t v = []"

fun has_room :: "worker_pc \<Rightarrow> bool" where
  "has_room T_lock = True"
| "has_room T_check = True"
| "has_room T_sync = True"
| "has_room T_provide = True"
| "has_room T_unsync = True"
| "has_room T_test = True"
| "has_room T_write = True"
| "has_room t = False"

text \<open>What the variable \<open>data\<close> of the worker is where it is read.\<close>

fun data_ok :: "worker_pc \<Rightarrow> 'a ptr stored \<Rightarrow> bool" where
  "data_ok T_unsync v = (v \<noteq> Indeterminate)"
| "data_ok T_test v = (v \<noteq> Indeterminate)"
| "data_ok T_write v = (v \<noteq> Indeterminate \<and> v \<noteq> Value NULL)"
| "data_ok t v = True"

definition items_inv :: "('d, 'a) event_queue_pthread \<Rightarrow> bool" where
  "items_inv s \<longleftrightarrow>
     eq_provided s = eq_pulled s @ eq_pipe s @ in_hand (eq_worker s) (eq_worker_data s) \<and>
     length (eq_pipe s) \<le> eq_capacity s \<and>
     (has_room (eq_worker s) \<longrightarrow> length (eq_pipe s) < eq_capacity s) \<and>
     data_ok (eq_worker s) (eq_worker_data s)"

text \<open>The state where the worker is: \<open>runs\<close> are the positions that a stop cannot reach.\<close>

fun runs :: "worker_pc \<Rightarrow> bool" where
  "runs T_sync = True"
| "runs T_provide = True"
| "runs T_unsync = True"
| "runs T_test = True"
| "runs T_write = True"
| "runs (T_stop p) = True"
| "runs (T_unlock run) = run"
| "runs t = False"

definition quiet :: "worker_pc \<Rightarrow> bool" where
  "quiet t \<longleftrightarrow> t = No_thread \<or> t = T_exit"

text \<open>What the client's position says of the state: a stop that has not set it yet has read it, and
  one that has set it has the worker to join, or the worker has ended.\<close>

fun stop_state :: "stop_pc \<Rightarrow> run_state \<Rightarrow> bool" where
  "stop_state Stop_read st = True"
| "stop_state (Stop_lock st') st = (st' = st)"
| "stop_state (Stop_set st') st = (st' = st)"
| "stop_state p st = (st = STATE_STOP)"

fun stop_joins :: "stop_pc \<Rightarrow> bool" where
  "stop_joins (Stop_unlock st) = (st = STATE_RUN)"
| "stop_joins (Stop_test st) = (st = STATE_RUN)"
| "stop_joins Stop_join = True"
| "stop_joins p = False"

fun client_state :: "'d client_pc \<Rightarrow> run_state \<Rightarrow> bool" where
  "client_state (C_start_lock d) st = (st = STATE_INIT)"
| "client_state (C_start_set d) st = (st = STATE_INIT)"
| "client_state C_start_create st = (st = STATE_INIT)"
| "client_state C_start_run st = (st = STATE_INIT)"
| "client_state (C_stop p) st = stop_state p st"
| "client_state (C_free p) st = stop_state p st"
| "client_state C_freed st = (st = STATE_STOP)"
| "client_state c st = True"

fun client_joins :: "'d client_pc \<Rightarrow> bool" where
  "client_joins (C_stop p) = stop_joins p"
| "client_joins (C_free p) = stop_joins p"
| "client_joins c = False"

definition worker_state :: "run_state \<Rightarrow> 'd client_pc \<Rightarrow> worker_pc \<Rightarrow> bool" where
  "worker_state st c t \<longleftrightarrow> (case st of
     STATE_INIT \<Rightarrow> t = (if c = C_start_run then T_wait else No_thread)
   | STATE_RUN \<Rightarrow> \<not> quiet t
   | STATE_STOP \<Rightarrow> (quiet t \<or> client_joins c) \<and> (client_joins c \<longrightarrow> t \<noteq> No_thread) \<and> \<not> runs t)"

definition state_inv :: "('d, 'a) event_queue_pthread \<Rightarrow> bool" where
  "state_inv s \<longleftrightarrow>
     client_state (eq_client s) (eq_state s) \<and> worker_state (eq_state s) (eq_client s) (eq_worker s) \<and>
     (eq_state s \<noteq> STATE_INIT \<or> eq_client s = C_start_create \<or> eq_client s = C_start_run \<longrightarrow> eq_data s \<noteq> Indeterminate)"

section \<open>Preservation\<close>

lemma worker_syncs_locks: "worker_syncs t \<Longrightarrow> worker_locks t"
  by (cases t) auto

lemma runs_locks: "runs t \<Longrightarrow> worker_locks t"
  by (cases t) auto

text \<open>The only step of a worker in a stop is the first: it waits for a mutex that it holds.\<close>

lemma worker_stop:
  assumes "locks_inv s" "eq_worker s = T_stop p" "stop_step Worker s p s' p'"
  shows "p = Stop_read \<and> s' = s \<and> p' = Stop_lock (eq_state s)"
  using assms(3,1,2) by cases (auto simp: locks_inv_def)

lemma worker_not_done: "locks_inv s \<Longrightarrow> eq_worker s \<noteq> T_stop Stop_done"
  by (auto simp: locks_inv_def)

lemma worker_locks_inv: "worker_step provider faults s s' \<Longrightarrow> locks_inv s \<Longrightarrow> locks_inv s'"
proof (induction rule: worker_step.induct)
  case (w_stop s p s' p')
  then show ?case using worker_stop [OF w_stop.prems w_stop.hyps] by (simp add: locks_inv_def)
qed (auto simp: locks_inv_def split: if_splits)

lemma client_locks_inv: "client_step faults s s' \<Longrightarrow> locks_inv s \<Longrightarrow> locks_inv s'"
  by (induction rule: client_step.induct)
    (simp_all add: locks_inv_def stop_step.simps split: if_splits, auto dest: worker_syncs_locks)

lemma worker_items_inv:
  "worker_step provider faults s s' \<Longrightarrow> locks_inv s \<Longrightarrow> items_inv s \<Longrightarrow> items_inv s'"
proof (induction rule: worker_step.induct)
  case (w_stop s p s' p')
  then show ?case
    using worker_stop [OF w_stop.prems(1) w_stop.hyps] by (cases "eq_worker_data s") (simp_all add: items_inv_def)
next
  case (w_unsync s)
  then show ?case by (cases "eq_worker_data s") (simp_all add: items_inv_def)
next
  case (w_write_fails s)
  then show ?case by (cases "eq_worker_data s") (simp_all add: items_inv_def)
next
  case (w_stop_done s)
  then show ?case using worker_not_done by blast
qed (auto simp: items_inv_def returned_def)

lemma client_items_inv:
  "client_step faults s s' \<Longrightarrow> state_inv s \<Longrightarrow> items_inv s \<Longrightarrow> items_inv s'"
proof (induction rule: client_step.induct)
  case (c_start_create s)
  then have "eq_worker s = No_thread" by (auto simp: state_inv_def worker_state_def)
  with c_start_create show ?case by (simp add: items_inv_def)
next
  case (c_stop_step s p s' p')
  then show ?case by (cases p) (auto simp: items_inv_def stop_step_simps)
next
  case (c_free_step s p s' p')
  then show ?case by (cases p) (auto simp: items_inv_def stop_step_simps)
qed (auto simp: items_inv_def)

lemma worker_state_inv:
  "worker_step provider faults s s' \<Longrightarrow> locks_inv s \<Longrightarrow> state_inv s \<Longrightarrow> state_inv s'"
proof (induction rule: worker_step.induct)
  case (w_stop s p s' p')
  then show ?case
    using worker_stop [OF w_stop.prems(1) w_stop.hyps]
    by (simp add: state_inv_def worker_state_def quiet_def split: run_state.splits if_splits)
next
  case (w_stop_done s)
  then show ?case using worker_not_done by blast
qed (auto simp: state_inv_def worker_state_def quiet_def split: run_state.splits if_splits)

lemma client_state_inv:
  "client_step faults s s' \<Longrightarrow> locks_inv s \<Longrightarrow> state_inv s \<Longrightarrow> state_inv s'"
proof (induction rule: client_step.induct)
  case (c_stop_step s p s' p')
  then show ?case
    by (cases p) (auto simp: state_inv_def worker_state_def quiet_def locks_inv_def stop_step_simps
        split: run_state.splits if_splits dest: runs_locks)
next
  case (c_free_step s p s' p')
  then show ?case
    by (cases p) (auto simp: state_inv_def worker_state_def quiet_def locks_inv_def stop_step_simps
        split: run_state.splits if_splits dest: runs_locks)
qed (auto simp: state_inv_def worker_state_def quiet_def split: run_state.splits if_splits)

definition queue_inv :: "('d, 'a) event_queue_pthread \<Rightarrow> bool" where
  "queue_inv s \<longleftrightarrow> locks_inv s \<and> items_inv s \<and> state_inv s"

lemma queue_inv_step: "queue_inv s \<Longrightarrow> queue_step provider faults s s' \<Longrightarrow> queue_inv s'"
  by (auto simp: queue_inv_def queue_step_def intro: worker_locks_inv client_locks_inv worker_items_inv
      client_items_inv worker_state_inv client_state_inv)

lemma queue_inv_run: "queue_run provider faults s s' \<Longrightarrow> queue_inv s \<Longrightarrow> queue_inv s'"
  by (induction rule: queue_run.induct) (auto intro: queue_inv_step)

text \<open>The state never goes back.\<close>

lemma stop_step_advances: "stop_step me s p s' p' \<Longrightarrow> eq_state s \<le> eq_state s'"
  by (induction rule: stop_step.induct) auto

lemma queue_step_advances:
  assumes "queue_step provider faults s s'" "queue_inv s"
  shows "eq_state s \<le> eq_state s'"
proof -
  have "eq_state s \<le> eq_state s'" if "worker_step provider faults s s'"
    using that by cases (auto dest: stop_step_advances)
  moreover have "eq_state s \<le> eq_state s'" if "client_step faults s s'"
    using that assms(2) by cases (auto dest: stop_step_advances simp: queue_inv_def state_inv_def)
  ultimately show ?thesis using assms(1) by (auto simp: queue_step_def)
qed

lemma queue_run_advances: "queue_run provider faults s s' \<Longrightarrow> queue_inv s \<Longrightarrow> eq_state s \<le> eq_state s'"
proof (induction rule: queue_run.induct)
  case (run_step s' s'')
  then show ?case using queue_inv_run queue_step_advances order_trans by blast
qed simp

lemma queue_inv_new:
  "cad_new_event_queue_pthread malloc_ok pipe_ok set_pipe_size capacity = Some (Some s) \<Longrightarrow> queue_inv s"
  by (auto simp: cad_new_event_queue_pthread_def queue_inv_def locks_inv_def items_inv_def state_inv_def
      worker_state_def split: if_splits option.splits)

section \<open>A stop ends\<close>

text \<open>Every way the system goes on reaches \<open>P\<close>, and it can go on until then.\<close>

inductive inevitable :: "('s \<Rightarrow> 's \<Rightarrow> bool) \<Rightarrow> ('s \<Rightarrow> bool) \<Rightarrow> 's \<Rightarrow> bool"
  for step P where
  now: "P s \<Longrightarrow> inevitable step P s"
| later: "\<exists>s'. step s s' \<Longrightarrow> \<forall>s'. step s s' \<longrightarrow> inevitable step P s' \<Longrightarrow> inevitable step P s"

lemma inevitable_measure:
  assumes "Q s"
    and "\<And>s. Q s \<Longrightarrow> \<not> P s \<Longrightarrow> \<exists>s'. step s s'"
    and "\<And>s s'. Q s \<Longrightarrow> \<not> P s \<Longrightarrow> step s s' \<Longrightarrow> Q s' \<and> f s' < (f s :: nat)"
  shows "inevitable step P s"
  using assms(1)
proof (induction "f s" arbitrary: s rule: less_induct)
  case less
  show ?case
  proof (cases "P s")
    case False
    then show ?thesis using less assms(2,3) by (intro inevitable.later) auto
  qed (rule inevitable.now)
qed

text \<open>A stop that has set the state, and what is left to do from there.\<close>

fun stop_is_set :: "stop_pc \<Rightarrow> bool" where
  "stop_is_set (Stop_unlock st) = True"
| "stop_is_set (Stop_test st) = True"
| "stop_is_set Stop_join = True"
| "stop_is_set Stop_done = True"
| "stop_is_set p = False"

fun client_is_set :: "'d client_pc \<Rightarrow> bool" where
  "client_is_set (C_stop p) = stop_is_set p"
| "client_is_set (C_free p) = stop_is_set p"
| "client_is_set c = False"

fun stop_left :: "stop_pc \<Rightarrow> nat" where
  "stop_left (Stop_unlock st) = 4"
| "stop_left (Stop_test st) = 3"
| "stop_left Stop_join = 2"
| "stop_left p = 1"

fun client_left :: "'d client_pc \<Rightarrow> nat" where
  "client_left (C_stop p) = stop_left p"
| "client_left (C_free p) = stop_left p"
| "client_left c = 0"

fun worker_left :: "worker_pc \<Rightarrow> nat" where
  "worker_left T_poll = 5"
| "worker_left T_lock = 4"
| "worker_left T_check = 3"
| "worker_left (T_unlock run) = 2"
| "worker_left T_sleep = 2"
| "worker_left T_wait = 2"
| "worker_left T_head = 1"
| "worker_left t = 0"

definition stopping :: "('d, 'a) event_queue_pthread \<Rightarrow> bool" where
  "stopping s \<longleftrightarrow> queue_inv s \<and> eq_state s = STATE_STOP \<and>
     (client_is_set (eq_client s) \<or> eq_client s = C_idle \<or> eq_client s = C_freed)"

definition stop_returned :: "('d, 'a) event_queue_pthread \<Rightarrow> bool" where
  "stop_returned s \<longleftrightarrow> eq_client s = C_idle \<or> eq_client s = C_freed"

lemma worker_left_step:
  "worker_step provider faults s s' \<Longrightarrow> locks_inv s \<Longrightarrow> eq_state s = STATE_STOP \<Longrightarrow> \<not> runs (eq_worker s) \<Longrightarrow>
   worker_left (eq_worker s') < worker_left (eq_worker s) \<and> eq_client s' = eq_client s \<and> eq_state s' = eq_state s"
  by (induction rule: worker_step.induct) auto

lemma client_left_step:
  assumes "client_step faults s s'" "client_is_set (eq_client s)"
  shows "client_left (eq_client s') < client_left (eq_client s) \<and> eq_worker s' = eq_worker s \<and> eq_state s' = eq_state s \<and>
    (client_is_set (eq_client s') \<or> eq_client s' = C_idle \<or> eq_client s' = C_freed)"
  using assms
proof (induction rule: client_step.induct)
  case (c_stop_step s p s' p')
  then show ?case by (cases p) (auto simp: stop_step_simps)
next
  case (c_free_step s p s' p')
  then show ?case by (cases p) (auto simp: stop_step_simps)
qed auto

lemma client_set_step:
  assumes "client_is_set (eq_client s)" "eq_client s \<notin> {C_stop Stop_join, C_free Stop_join} \<or> eq_worker s = T_exit"
  shows "\<exists>s'. client_step faults s s'"
proof -
  have stop: "\<exists>s' p'. stop_step Main s p s' p'" if "stop_is_set p" "p \<noteq> Stop_done" "p \<noteq> Stop_join \<or> eq_worker s = T_exit" for p
    using that by (cases p) (auto simp: stop_step_simps)
  show ?thesis
  proof (cases "eq_client s")
    case (C_stop p)
    then show ?thesis
      using assms stop [of p] by (cases "p = Stop_done") (auto intro: client_step.intros)
  next
    case (C_free p)
    then show ?thesis
      using assms stop [of p] by (cases "p = Stop_done") (auto intro: client_step.intros)
  qed (use assms in auto)
qed

text \<open>While the worker has not ended it has a step: once the stop has set the state, the mutex that
  it may wait for is free or the stop is about to release it.\<close>

lemma worker_stopping_step:
  assumes "locks_inv s" "eq_state s = STATE_STOP" "\<not> runs (eq_worker s)" "\<not> quiet (eq_worker s)"
    and "\<not> client_locks (eq_client s)"
  shows "\<exists>s'. worker_step provider faults s s'"
proof -
  have lock: "eq_lock s = NULL" if "\<not> worker_locks (eq_worker s)" using assms(1,5) that by (simp add: locks_inv_def)
  show ?thesis
    using assms(2,3,4) lock w_started [of s] w_ends [of s] w_timeout [of s] w_lock [of s] w_stopped [of s]
      w_unlock [of s] w_sleep [of s]
    by (cases "eq_worker s") (auto simp: quiet_def)
qed

lemma stopping_progress:
  assumes "stopping s" "\<not> stop_returned s"
  shows "\<exists>s'. queue_step provider faults s s'"
proof (cases "eq_client s \<in> {C_stop Stop_join, C_free Stop_join} \<and> eq_worker s \<noteq> T_exit")
  case True
  then have "\<not> quiet (eq_worker s)" "\<not> runs (eq_worker s)" "\<not> client_locks (eq_client s)"
    using assms(1) by (auto simp: stopping_def queue_inv_def state_inv_def worker_state_def quiet_def)
  then show ?thesis
    using worker_stopping_step assms(1) by (fastforce simp: stopping_def queue_inv_def queue_step_def)
next
  case False
  then have "\<exists>s'. client_step faults s s'"
    using client_set_step [of s] assms by (auto simp: stopping_def stop_returned_def)
  then show ?thesis by (auto simp: queue_step_def)
qed

lemma stopping_step:
  assumes "stopping s" "\<not> stop_returned s" "queue_step provider faults s s'"
  shows "stopping s' \<and>
    worker_left (eq_worker s') + client_left (eq_client s') < worker_left (eq_worker s) + client_left (eq_client s)"
proof -
  have st: "queue_inv s" "eq_state s = STATE_STOP" "client_is_set (eq_client s)" "\<not> runs (eq_worker s)"
    using assms(1,2) by (auto simp: stopping_def stop_returned_def queue_inv_def state_inv_def worker_state_def)
  consider "worker_step provider faults s s'" | "client_step faults s s'"
    using assms(3) by (auto simp: queue_step_def)
  then show ?thesis
  proof cases
    case 1
    then show ?thesis
      using worker_left_step [OF 1] st queue_inv_step [OF st(1) assms(3)] by (simp add: stopping_def queue_inv_def)
  next
    case 2
    then show ?thesis
      using client_left_step [OF 2 st(3)] st queue_inv_step [OF st(1) assms(3)] by (simp add: stopping_def)
  qed
qed

lemma stop_inevitable:
  "stopping s \<Longrightarrow> inevitable (queue_step provider faults) (\<lambda>s. stop_returned s \<and> stopping s) s"
  by (rule inevitable_measure [where Q = stopping and f = "\<lambda>s. worker_left (eq_worker s) + client_left (eq_client s)"])
    (auto intro: stopping_progress dest: stopping_step)

lemma stopped_quiet: "stopping s \<Longrightarrow> stop_returned s \<Longrightarrow> quiet (eq_worker s)"
  by (auto simp: stopping_def stop_returned_def queue_inv_def state_inv_def worker_state_def)

text \<open>Once it has ended, the worker stays so: nothing starts it again.\<close>

lemma quiet_step:
  assumes "queue_inv s" "eq_state s = STATE_STOP" "quiet (eq_worker s)" "queue_step provider faults s s'"
  shows "eq_state s' = STATE_STOP \<and> quiet (eq_worker s') \<and> eq_provided s' = eq_provided s"
proof -
  consider "worker_step provider faults s s'" | "client_step faults s s'"
    using assms(4) by (auto simp: queue_step_def)
  then show ?thesis
  proof cases
    case 1
    then show ?thesis using assms(3) by cases (auto simp: quiet_def)
  next
    case 2
    from 2 assms(1,2,3) show ?thesis
      by (induction rule: client_step.induct) (auto simp: queue_inv_def state_inv_def stop_step.simps)
  qed
qed

lemma quiet_run:
  assumes "queue_run provider faults s s'" "queue_inv s" "eq_state s = STATE_STOP" "quiet (eq_worker s)"
  shows "queue_inv s' \<and> eq_state s' = STATE_STOP \<and> quiet (eq_worker s') \<and> eq_provided s' = eq_provided s"
  using assms
proof (induction rule: queue_run.induct)
  case (run_step s' s'')
  then show ?case using quiet_step queue_inv_step by metis
qed simp

section \<open>A worker that stops the queue\<close>

lemma stuck_step:
  assumes "queue_inv s" "worker_stuck (eq_worker s)" "queue_step provider faults s s'"
  shows "worker_stuck (eq_worker s') \<and> eq_provided s' = eq_provided s"
proof -
  obtain p where p: "eq_worker s = T_stop p" using assms(2) by (cases "eq_worker s") auto
  have st: "eq_state s = STATE_RUN"
    using assms(1) p by (auto simp: queue_inv_def state_inv_def worker_state_def split: run_state.splits if_splits)
  consider "worker_step provider faults s s'" | "client_step faults s s'"
    using assms(3) by (auto simp: queue_step_def)
  then show ?thesis
  proof cases
    case 1
    have inv: "locks_inv s" using assms(1) by (simp add: queue_inv_def)
    from 1 show ?thesis
    proof cases
      case (w_stop q t q')
      then show ?thesis using worker_stop [OF inv w_stop(2,3)] by simp
    next
      case w_stop_done
      then show ?thesis using worker_not_done [OF inv] by simp
    qed (use p in simp_all)
  next
    case 2
    from 2 assms(1,2) st p show ?thesis
      by (induction rule: client_step.induct) (auto simp: queue_inv_def state_inv_def stop_step.simps)
  qed
qed

lemma stuck_run:
  assumes "queue_run provider faults s s'" "queue_inv s" "worker_stuck (eq_worker s)"
  shows "queue_inv s' \<and> worker_stuck (eq_worker s') \<and> eq_provided s' = eq_provided s"
  using assms
proof (induction rule: queue_run.induct)
  case (run_step s' s'')
  then show ?case using stuck_step queue_inv_step by metis
qed simp

lemma stuck_running: "queue_inv s \<Longrightarrow> worker_stuck (eq_worker s) \<Longrightarrow> eq_state s = STATE_RUN \<and> eq_lock s = Some Worker"
  by (cases "eq_worker s")
    (auto simp: queue_inv_def locks_inv_def state_inv_def worker_state_def split: run_state.splits if_splits)

end
