(* ===== verification/Cad_Event_Queue_Props.thy ===== *)
theory Cad_Event_Queue_Props
  imports Cad_Event_Queue_Laws
begin

text \<open>
  Properties of the event queue, in every state that a new queue can reach, with the runs that
  show that their hypotheses can hold.
\<close>

section \<open>Runs\<close>

definition new_queue :: "('d, 'a) event_queue_pthread \<Rightarrow> bool" where
  "new_queue s \<longleftrightarrow>
     (\<exists>set_pipe_size capacity. cad_new_event_queue_pthread True True set_pipe_size capacity = Some (Some s))"

lemma new_queue_inv: "new_queue s \<Longrightarrow> queue_run provider faults s s' \<Longrightarrow> queue_inv s'"
  using queue_inv_new queue_inv_run unfolding new_queue_def by blast

lemma run_worker:
  "queue_run provider faults s0 s \<Longrightarrow> worker_step provider faults s s' \<Longrightarrow> queue_run provider faults s0 s'"
  by (auto simp: queue_step_def intro: queue_run.run_step)

lemma run_client:
  "queue_run provider faults s0 s \<Longrightarrow> client_step faults s s' \<Longrightarrow> queue_run provider faults s0 s'"
  by (auto simp: queue_step_def intro: queue_run.run_step)

text \<open>A queue with a page of pipe, its start, and the worker up to its write.\<close>

definition example_queue :: "(nat, nat) event_queue_pthread" where
  "example_queue = \<lparr>eq_state = STATE_INIT, eq_data = Indeterminate, eq_lock = NULL, eq_synchronized_lock = NULL,
     eq_pipe = [], eq_capacity = 512, eq_worker = No_thread, eq_worker_data = Indeterminate,
     eq_client = C_idle, eq_provided = [], eq_pulled = []\<rparr>"

definition example_provider :: "nat ptr \<Rightarrow> nat ptr \<Rightarrow> bool" where
  "example_provider d r \<longleftrightarrow> r = d"

lemma new_example_queue: "new_queue example_queue"
  unfolding new_queue_def example_queue_def cad_new_event_queue_pthread_def
  by (intro exI [of _ "\<lambda>_. Some 4096"] exI [of _ 16]) simp

lemma example_started:
  "queue_run example_provider faults example_queue (example_queue\<lparr>eq_state := STATE_RUN, eq_data := Value (Some 7), eq_worker := T_wait\<rparr>)"
proof -
  note r1 = run_client [OF queue_run.run_start c_start [of example_queue _ "Some 7"], of example_provider faults,
      unfolded example_queue_def, simplified]
  note r2 = run_client [OF r1 c_start_init, simplified]
  note r3 = run_client [OF r2 c_start_lock, simplified]
  note r4 = run_client [OF r3 c_start_set, simplified]
  note r5 = run_client [OF r4 c_start_create, simplified]
  note r6 = run_client [OF r5 c_start_run, simplified]
  show ?thesis using run_client [OF r6 c_start_unlock] by (simp add: example_queue_def)
qed

lemma example_writing:
  "queue_run example_provider faults example_queue (example_queue
     \<lparr>eq_state := STATE_RUN, eq_data := Value (Some 7), eq_lock := Some Worker, eq_worker := T_write,
      eq_worker_data := Value (Some 7), eq_provided := [7]\<rparr>)"
proof -
  note r1 = run_worker [OF example_started [of faults, unfolded example_queue_def] w_started, simplified]
  note r2 = run_worker [OF r1 w_runs, simplified]
  note r3 = run_worker [OF r2 w_writable, simplified]
  note r4 = run_worker [OF r3 w_lock, simplified]
  note r5 = run_worker [OF r4 w_running, simplified]
  note r6 = run_worker [OF r5 w_sync, simplified]
  note r7 = run_worker [OF r6 w_provide [where d = "Some 7" and r = "Some 7"], simplified example_provider_def, simplified]
  note r8 = run_worker [OF r7 w_unsync, simplified]
  show ?thesis
    using run_worker [OF r8 w_something [where x = 7]] by (simp add: example_queue_def returned_def)
qed

lemma example_pulled:
  "queue_run example_provider faults example_queue (example_queue
     \<lparr>eq_state := STATE_RUN, eq_data := Value (Some 7), eq_lock := Some Worker, eq_worker := T_unlock True,
      eq_worker_data := Value (Some 7), eq_provided := [7], eq_pulled := [7]\<rparr>)"
proof -
  note r1 = run_worker [OF example_writing [of faults, unfolded example_queue_def] w_write [where x = 7], simplified]
  note r2 = run_client [OF r1 c_pull, simplified]
  show ?thesis using run_client [OF r2 c_pull_read [where x = 7 and xs = "[]"]] by (simp add: example_queue_def)
qed

lemma example_stopping:
  "queue_run example_provider faults example_queue (example_queue
     \<lparr>eq_state := STATE_STOP, eq_data := Value NULL, eq_lock := Some Main, eq_worker := T_wait,
      eq_client := C_stop (Stop_unlock STATE_RUN)\<rparr>)"
proof -
  note r1 = run_client [OF example_started [of faults, unfolded example_queue_def] c_stop, simplified]
  note r2 = run_client [OF r1 c_stop_step [OF _ stop_read], simplified]
  note r3 = run_client [OF r2 c_stop_step [OF _ stop_lock], simplified]
  show ?thesis using run_client [OF r3 c_stop_step [OF _ stop_set]] by (simp add: example_queue_def)
qed

section \<open>Properties\<close>

text \<open>C5: the queue is first in, first out and loses nothing: what the provider has returned is, in
  order, what the client has pulled, what is in the pipe, and the item that the worker holds; the
  pipe never holds more than its capacity.\<close>

theorem event_queue_fifo:
  assumes "new_queue s0" "queue_run provider faults s0 s"
  shows "eq_provided s = eq_pulled s @ eq_pipe s @ in_hand (eq_worker s) (eq_worker_data s) \<and>
    length (eq_pipe s) \<le> eq_capacity s"
  using new_queue_inv [OF assms] by (simp add: queue_inv_def items_inv_def)

lemma event_queue_fifo_witness:
  "\<exists>s :: (nat, nat) event_queue_pthread. queue_run example_provider False example_queue s \<and>
     eq_pulled s = [7] \<and> eq_provided s = eq_pulled s @ eq_pipe s @ in_hand (eq_worker s) (eq_worker_data s)"
  using event_queue_fifo [OF new_example_queue example_pulled [of False]] example_pulled [of False]
  by - (intro exI conjI, assumption, simp_all)

text \<open>C36: the provider and the function of \<open>synchronized\<close> never run at the same time; while the
  provider runs the queue is running, and it gets the data of the start.\<close>

theorem provider_exclusive:
  assumes "new_queue s0" "queue_run provider faults s0 s" "eq_worker s = T_provide"
  shows "eq_client s \<noteq> C_sync_run \<and> is_running_pthread s \<and> eq_lock s = Some Worker \<and> (\<exists>d. eq_data s = Value d)"
  using new_queue_inv [OF assms(1,2)] assms(3)
  by (cases "eq_data s")
    (auto simp: queue_inv_def locks_inv_def state_inv_def worker_state_def is_running_pthread_def
      split: run_state.splits if_splits)

lemma provider_exclusive_witness:
  "\<exists>s :: (nat, nat) event_queue_pthread. queue_run example_provider False example_queue s \<and>
     eq_worker s = T_provide \<and> eq_client s \<noteq> C_sync_run \<and> is_running_pthread s"
proof -
  note r1 = run_worker [OF example_started [of False, unfolded example_queue_def] w_started, simplified]
  note r2 = run_worker [OF r1 w_runs, simplified]
  note r3 = run_worker [OF r2 w_writable, simplified]
  note r4 = run_worker [OF r3 w_lock, simplified]
  note r5 = run_worker [OF r4 w_running, simplified]
  note r6 = run_worker [OF r5 w_sync, simplified, folded example_queue_def]
  show ?thesis
    using provider_exclusive [OF new_example_queue r6 [folded example_queue_def]] r6 [folded example_queue_def]
    by - (intro exI conjI, assumption, simp_all)
qed

text \<open>C37: once a stop has set the state, the system always goes on until the stop has returned,
  whatever the interleaving; the worker has ended then, and the provider is never called again.\<close>

theorem stop_ends_queue:
  assumes "new_queue s0" "queue_run provider faults s0 s" "client_is_set (eq_client s)"
  shows "inevitable (queue_step provider faults)
    (\<lambda>t. stop_returned t \<and> quiet (eq_worker t) \<and>
       (\<forall>u. queue_run provider faults t u \<longrightarrow> quiet (eq_worker u) \<and> eq_provided u = eq_provided t)) s"
proof -
  have inv: "queue_inv s" by (rule new_queue_inv [OF assms(1,2)])
  have "eq_state s = STATE_STOP"
    using inv assms(3)
    by (auto simp: queue_inv_def state_inv_def elim!: client_is_set.elims stop_is_set.elims)
  then have "stopping s" using inv assms(3) by (simp add: stopping_def)
  from stop_inevitable [OF this] show ?thesis
  proof (induction rule: inevitable.induct)
    case (now t)
    then have "queue_inv t" "eq_state t = STATE_STOP" "quiet (eq_worker t)"
      using stopped_quiet by (auto simp: stopping_def)
    then show ?case using now quiet_run by (intro inevitable.now) blast
  qed (blast intro: inevitable.later)
qed

lemma stop_ends_queue_witness:
  "\<exists>s :: (nat, nat) event_queue_pthread. queue_run example_provider False example_queue s \<and>
     eq_worker s = T_wait \<and> inevitable (queue_step example_provider False)
       (\<lambda>t. stop_returned t \<and> quiet (eq_worker t) \<and>
          (\<forall>u. queue_run example_provider False t u \<longrightarrow> quiet (eq_worker u) \<and> eq_provided u = eq_provided t)) s"
proof (intro exI conjI)
  show "queue_run example_provider False example_queue (example_queue
     \<lparr>eq_state := STATE_STOP, eq_data := Value NULL, eq_lock := Some Main, eq_worker := T_wait,
      eq_client := C_stop (Stop_unlock STATE_RUN)\<rparr>)"
    by (rule example_stopping)
  then show "inevitable (queue_step example_provider False)
       (\<lambda>t. stop_returned t \<and> quiet (eq_worker t) \<and>
          (\<forall>u. queue_run example_provider False t u \<longrightarrow> quiet (eq_worker u) \<and> eq_provided u = eq_provided t))
     (example_queue\<lparr>eq_state := STATE_STOP, eq_data := Value NULL, eq_lock := Some Main, eq_worker := T_wait,
      eq_client := C_stop (Stop_unlock STATE_RUN)\<rparr>)"
    by (rule stop_ends_queue [OF new_example_queue]) simp
qed simp

text \<open>C38: when a write to the pipe fails, the worker stops the queue itself while it holds the
  mutex that the stop locks: from then on it waits for itself, the queue counts as running for ever,
  nothing more is provided, and no stop of the client gets past the mutex.\<close>

theorem write_failure_deadlocks:
  assumes "new_queue s0" "queue_run provider faults s0 s" "eq_worker s = T_write"
    and "queue_run provider faults (s\<lparr>eq_worker := T_stop Stop_read\<rparr>) t" "faults"
  shows "is_running_pthread t \<and> eq_lock t = Some Worker \<and> eq_provided t = eq_provided s \<and>
    \<not> quiet (eq_worker t) \<and> \<not> client_is_set (eq_client t)"
proof -
  have "queue_step provider faults s (s\<lparr>eq_worker := T_stop Stop_read\<rparr>)"
    using w_write_fails [OF assms(3,5)] by (auto simp: queue_step_def)
  then have "queue_inv (s\<lparr>eq_worker := T_stop Stop_read\<rparr>)"
    using new_queue_inv [OF assms(1,2)] queue_inv_step by blast
  from stuck_run [OF assms(4) this] have t: "queue_inv t" "worker_stuck (eq_worker t)" "eq_provided t = eq_provided s"
    by simp_all
  have "\<not> client_is_set (eq_client t)"
    using t(1) stuck_running [OF t(1,2)]
    by (auto simp: queue_inv_def state_inv_def elim!: client_is_set.elims stop_is_set.elims)
  then show ?thesis
    using t stuck_running [OF t(1,2)] by (cases "eq_worker t") (simp_all add: is_running_pthread_def quiet_def)
qed

lemma write_failure_deadlocks_witness:
  "\<exists>t :: (nat, nat) event_queue_pthread. queue_run example_provider True example_queue t \<and>
     eq_worker t = T_stop Stop_read \<and> eq_lock t = Some Worker \<and> is_running_pthread t"
proof -
  note r = example_writing [of True]
  note r' = run_worker [OF r w_write_fails, simplified]
  show ?thesis
    using write_failure_deadlocks [OF new_example_queue r _ queue_run.run_start] r'
    by - (intro exI conjI, assumption, simp_all)
qed

text \<open>The state of a queue only advances, from initial to running to stopped: while threads and
  calls interleave in any way and any of them fails, a queue that runs is never initial again, and
  one that is stopped stays stopped.\<close>

theorem queue_state_advances:
  assumes "new_queue s0" "queue_run provider faults s0 s" "queue_run provider faults s s'"
  shows "eq_state s \<le> eq_state s' \<and> (eq_state s = STATE_STOP \<longrightarrow> \<not> is_running_pthread s')"
  using queue_run_advances [OF assms(3) new_queue_inv [OF assms(1,2)]] by (auto simp: is_running_pthread_def)

lemma queue_state_advances_witness:
  "\<exists>s :: (nat, nat) event_queue_pthread. queue_run example_provider False example_queue s \<and> eq_state s = STATE_RUN \<and>
     (\<forall>s'. queue_run example_provider False s s' \<longrightarrow> STATE_RUN \<le> eq_state s')"
  using queue_state_advances [OF new_example_queue example_started [of False]] example_started [of False]
  by - (intro exI conjI, assumption, simp_all)

end
