(* ===== verification/Cad_Stache.thy ===== *)
theory Cad_Stache
  imports Cad_Stream_String
begin

text \<open>
  The stache engine (src/cad_stache.c, include/cad_stache.h): the buffer over the template, with
  the partials that are spliced into it and the open loops, and the renderer. The client's
  callbacks, the objects they resolve and the streams of its partials are a parameter that acts on
  the client's world. The buffer is an array of bytes whose fresh bytes have any values (\<open>junk\<close>);
  an access outside it is undefined. The arrays of loops and partials are lists in
  the order of the array: the renderer only inserts, reads and deletes at the end of them.
  Allocations succeed, as the code does not test them. Of the releases, the model keeps those of
  the names of the loops, which are done in two places.
\<close>

section \<open>Data\<close>

text \<open>A callback may also return an integer that is none of the enumeration's constants.\<close>

datatype cad_stache_lookup_type = Cad_stache_not_found | Cad_stache_string | Cad_stache_list
  | Cad_stache_partial | Other_type

text \<open>
  The code of the client. \<open>'h\<close> names the objects it resolves, \<open>'i\<close> the streams of its partials. A
  member of a resolved object is a function pointer that may be \<open>NULL\<close>. The bool of \<open>free\<close>, \<open>close\<close>
  and of the \<open>get\<close> of a list is whether the result is not 0.
\<close>

record ('w, 'h, 'i) stache_client =
  sc_resolve :: "cstring \<Rightarrow> 'w \<Rightarrow> (cad_stache_lookup_type \<times> 'h) \<times> 'w"
  sc_string_get :: "'h \<Rightarrow> ('w \<Rightarrow> cstring ptr \<times> 'w) ptr"
  sc_string_free :: "'h \<Rightarrow> ('w \<Rightarrow> bool \<times> 'w) ptr"
  sc_list_get :: "'h \<Rightarrow> (nat \<Rightarrow> 'w \<Rightarrow> bool \<times> 'w) ptr"
  sc_list_close :: "'h \<Rightarrow> ('w \<Rightarrow> bool \<times> 'w) ptr"
  sc_partial_get :: "'h \<Rightarrow> ('w \<Rightarrow> 'i ptr \<times> 'w) ptr"
  sc_partial_free :: "'h \<Rightarrow> ('w \<Rightarrow> bool \<times> 'w) ptr"
  sc_item :: "'i \<Rightarrow> 'w \<Rightarrow> int \<times> 'w"
  sc_next :: "'i \<Rightarrow> 'w \<Rightarrow> int \<times> 'w"

datatype loop_type = Loop_else | Loop_while

text \<open>The name is \<open>NULL\<close> here once it has been released, and dangles in the code.\<close>

record 'h stache_loop =
  sl_type :: loop_type
  sl_name :: "cstring ptr"
  sl_lookup :: cad_stache_lookup_type
  sl_resolved :: "'h ptr"
  sl_buffer_index :: int
  sl_loop_index :: nat
  sl_empty :: bool

datatype 'i partial_stream = String_stream cad_input_stream_string | Client_stream 'i

record ('h, 'i) stache_partial =
  sp_lookup :: cad_stache_lookup_type
  sp_resolved :: 'h
  sp_stream :: "'i partial_stream"
  sp_save :: char

text \<open>The parts of a rendering that do not change: the input and output streams' operations, the
  client's code, and what fresh memory holds.\<close>

record ('s, 'o, 'w, 'h, 'i) stache_env =
  se_input :: "'s cad_input_stream"
  se_output :: "'o cad_output_stream"
  se_client :: "('w, 'h, 'i) stache_client"
  se_junk :: "nat \<Rightarrow> char"

text \<open>The \<open>struct buffer\<close>, the delimiters of the \<open>struct cad_stache_impl\<close>, the output and the
  client's world.\<close>

record ('s, 'o, 'w, 'h, 'i) stache_state =
  b_input :: 's
  b_data :: "char list"
  b_index :: int
  b_fill :: nat
  b_capacity :: nat
  b_eof :: bool
  b_partials :: "('h, 'i) stache_partial list"
  b_loops :: "'h stache_loop list"
  b_error :: cstring
  b_open :: cstring
  b_close :: cstring
  b_output :: 'o
  b_world :: 'w

text \<open>A call of the client through a function pointer.\<close>

definition call ::
  "('w \<Rightarrow> 'r \<times> 'w) ptr \<Rightarrow> ('s, 'o, 'w, 'h, 'i) stache_state \<Rightarrow> ('r \<times> ('s, 'o, 'w, 'h, 'i) stache_state) option" where
  "call fn st = do {
     f \<leftarrow> fn;
     let (r, w) = f (b_world st);
     Some (r, st\<lparr>b_world := w\<rparr>)
   }"

definition fail ::
  "cstring \<Rightarrow> ('s, 'o, 'w, 'h, 'i) stache_state \<Rightarrow> (bool \<times> ('s, 'o, 'w, 'h, 'i) stache_state) option" where
  "fail msg st = Some (False, st\<lparr>b_error := msg\<rparr>)"

section \<open>The buffer\<close>

text \<open>The stream that is read: that of the last partial, or the template. Its \<open>item\<close> and \<open>next\<close>.\<close>

definition source_item ::
  "('s, 'o, 'w, 'h, 'i) stache_env \<Rightarrow> ('s, 'o, 'w, 'h, 'i) stache_state
    \<Rightarrow> (int \<times> ('s, 'o, 'w, 'h, 'i) stache_state) option" where
  "source_item env st =
     (if b_partials st = [] then do { c \<leftarrow> cis_item (se_input env) (b_input st); Some (c, st) }
      else case sp_stream (last (b_partials st)) of
        String_stream t \<Rightarrow> do { c \<leftarrow> string_item t; Some (c, st) }
      | Client_stream i \<Rightarrow> call (Some (sc_item (se_client env) i)) st)"

definition source_next ::
  "('s, 'o, 'w, 'h, 'i) stache_env \<Rightarrow> ('s, 'o, 'w, 'h, 'i) stache_state
    \<Rightarrow> (int \<times> ('s, 'o, 'w, 'h, 'i) stache_state) option" where
  "source_next env st =
     (if b_partials st = [] then do {
        (r, input) \<leftarrow> cis_next (se_input env) (b_input st);
        Some (r, st\<lparr>b_input := input\<rparr>)
      }
      else let p = last (b_partials st) in
        case sp_stream p of
          String_stream t \<Rightarrow> do {
            (r, t') \<leftarrow> string_next t;
            Some (r, st\<lparr>b_partials := butlast (b_partials st) @ [p\<lparr>sp_stream := String_stream t'\<rparr>]\<rparr>)
          }
        | Client_stream i \<Rightarrow> call (Some (sc_next (se_client env) i)) st)"

definition buffer_room ::
  "('s, 'o, 'w, 'h, 'i) stache_env \<Rightarrow> ('s, 'o, 'w, 'h, 'i) stache_state \<Rightarrow> ('s, 'o, 'w, 'h, 'i) stache_state option" where
  "buffer_room env st =
     (if b_fill st = b_capacity st then do {
        capacity \<leftarrow> c_int (b_capacity st * 2);
        Some (st\<lparr>b_capacity := capacity, b_data := b_data st @ map (se_junk env) [b_capacity st..<capacity]\<rparr>)
      } else Some st)"

text \<open>\<open>buffer->data[buffer->fill++] = c\<close>\<close>

definition buffer_put ::
  "int \<Rightarrow> ('s, 'o, 'w, 'h, 'i) stache_state \<Rightarrow> ('s, 'o, 'w, 'h, 'i) stache_state option" where
  "buffer_put c st = do {
     data \<leftarrow> upd_opt (b_data st) (b_fill st) (int_char c);
     Some (st\<lparr>b_data := data, b_fill := b_fill st + 1\<rparr>)
   }"

text \<open>The end of the last partial: it is released, and the byte it has replaced comes back.\<close>

definition end_partial ::
  "('s, 'o, 'w, 'h, 'i) stache_env \<Rightarrow> ('s, 'o, 'w, 'h, 'i) stache_state \<Rightarrow> ('s, 'o, 'w, 'h, 'i) stache_state option" where
  "end_partial env st = do {
     let p = last (b_partials st);
     (c, st1) \<leftarrow>
       (case sp_lookup p of
          Cad_stache_not_found \<Rightarrow> Some (EOF, st\<lparr>b_error := ''BUG unexpected type''\<rparr>)
        | Cad_stache_list \<Rightarrow> Some (EOF, st\<lparr>b_error := ''BUG unexpected type''\<rparr>)
        | Cad_stache_string \<Rightarrow> do {
            (_, st') \<leftarrow> call (sc_string_free (se_client env) (sp_resolved p)) st;
            Some (char_int (sp_save p), st')
          }
        | Cad_stache_partial \<Rightarrow> do {
            (_, st') \<leftarrow> call (sc_partial_free (se_client env) (sp_resolved p)) st;
            Some (char_int (sp_save p), st')
          }
        | Other_type \<Rightarrow> Some (EOF, st));
     buffer_put c (st1\<lparr>b_partials := butlast (b_partials st1)\<rparr>)
   }"

definition buffer_next ::
  "('s, 'o, 'w, 'h, 'i) stache_env \<Rightarrow> ('s, 'o, 'w, 'h, 'i) stache_state
    \<Rightarrow> (bool \<times> ('s, 'o, 'w, 'h, 'i) stache_state) option" where
  "buffer_next env st =
     (if b_eof st then fail ''Buffer end reached'' st
      else let st1 = st\<lparr>b_index := b_index st + 1\<rparr> in
        if b_index st1 = int (b_fill st1) then do {
          st2 \<leftarrow> buffer_room env st1;
          (c, st3) \<leftarrow> source_item env st2;
          if c = EOF then
            (if b_partials st3 = [] then Some (True, st3\<lparr>b_eof := True\<rparr>)
             else do { st4 \<leftarrow> end_partial env st3; Some (True, st4) })
          else do {
            st4 \<leftarrow> buffer_put c st3;
            (r, st5) \<leftarrow> source_next env st4;
            Some (True, if r \<noteq> 0 then st5\<lparr>b_eof := True\<rparr> else st5)
          }
        } else Some (True, st1))"

definition buffer_eof :: "('s, 'o, 'w, 'h, 'i) stache_state \<Rightarrow> bool" where
  "buffer_eof st \<longleftrightarrow> b_eof st \<and> int (b_fill st) \<le> b_index st"

definition buffer_item :: "('s, 'o, 'w, 'h, 'i) stache_state \<Rightarrow> char option" where
  "buffer_item st = (if b_index st < 0 then None else nth_opt (b_data st) (nat (b_index st)))"

fun look_at_loop ::
  "('s, 'o, 'w, 'h, 'i) stache_env \<Rightarrow> ('s, 'o, 'w, 'h, 'i) stache_state \<Rightarrow> cstring
    \<Rightarrow> (bool \<times> ('s, 'o, 'w, 'h, 'i) stache_state) option" where
  "look_at_loop env st [] = Some (True, st)"
| "look_at_loop env st (e # es) = do {
     c \<leftarrow> buffer_item st;
     if c = e then do {
       (ok, st') \<leftarrow> buffer_next env st;
       if ok then look_at_loop env st' es else Some (False, st')
     } else Some (False, st)
   }"

definition buffer_look_at ::
  "('s, 'o, 'w, 'h, 'i) stache_env \<Rightarrow> ('s, 'o, 'w, 'h, 'i) stache_state \<Rightarrow> cstring
    \<Rightarrow> (bool \<times> ('s, 'o, 'w, 'h, 'i) stache_state) option" where
  "buffer_look_at env st expected = do {
     (result, st') \<leftarrow> look_at_loop env st expected;
     Some (result, if result then st' else st'\<lparr>b_index := b_index st\<rparr>)
   }"

text \<open>The names of the loops are released; one that has been released already must not be.\<close>

definition buffer_unwind_loops ::
  "('s, 'o, 'w, 'h, 'i) stache_state \<Rightarrow> ('s, 'o, 'w, 'h, 'i) stache_state option" where
  "buffer_unwind_loops st =
     (if list_all (\<lambda>l. sl_name l \<noteq> NULL) (b_loops st) then Some (st\<lparr>b_loops := []\<rparr>) else None)"

definition loop_skips :: "'h stache_loop \<Rightarrow> bool" where
  "loop_skips l \<longleftrightarrow> (if sl_type l = Loop_while then sl_empty l else \<not> sl_empty l)"

definition buffer_skip_output :: "('s, 'o, 'w, 'h, 'i) stache_state \<Rightarrow> bool" where
  "buffer_skip_output st \<longleftrightarrow> list_ex loop_skips (rev (b_loops st))"

text \<open>The formatted text is an argument, as it is of \<open>vput\<close>.\<close>

definition buffer_output ::
  "('s, 'o, 'w, 'h, 'i) stache_env \<Rightarrow> ('s, 'o, 'w, 'h, 'i) stache_state \<Rightarrow> cstring
    \<Rightarrow> ('s, 'o, 'w, 'h, 'i) stache_state option" where
  "buffer_output env st text =
     (if \<not> buffer_skip_output st then do {
        (_, out) \<leftarrow> cos_put (se_output env) (b_output st) text;
        Some (st\<lparr>b_output := out\<rparr>)
      } else Some st)"

partial_function (option) buffer_skip_blanks ::
  "('s, 'o, 'w, 'h, 'i) stache_env \<Rightarrow> ('s, 'o, 'w, 'h, 'i) stache_state \<Rightarrow> ('s, 'o, 'w, 'h, 'i) stache_state option" where
  "buffer_skip_blanks env st =
     (if buffer_eof st then Some st
      else do {
        c \<leftarrow> buffer_item st;
        if c = CHR '' '' \<or> c = CHR 0x0A then do {
          (again, st') \<leftarrow> buffer_next env st;
          if again then buffer_skip_blanks env st' else Some st'
        } else Some st
      })"

section \<open>Names\<close>

text \<open>
  The loop of \<open>parse_name\<close>, with the bytes of the name so far and the capacity of their block. The
  result is whether the name is closed.
\<close>

partial_function (option) parse_name_loop ::
  "('s, 'o, 'w, 'h, 'i) stache_env \<Rightarrow> cstring ptr \<Rightarrow> ('s, 'o, 'w, 'h, 'i) stache_state \<Rightarrow> char list \<Rightarrow> nat
    \<Rightarrow> (bool \<times> char list \<times> nat \<times> ('s, 'o, 'w, 'h, 'i) stache_state) option" where
  "parse_name_loop env suffix st name capacity =
     (if buffer_eof st then Some (False, name, capacity, st)
      else do {
        (suffixed, st1) \<leftarrow> (case suffix of None \<Rightarrow> Some (False, st) | Some s \<Rightarrow> buffer_look_at env st s);
        (closed, st2) \<leftarrow> buffer_look_at env st1 (b_close st1);
        if suffixed then Some (closed, name, capacity, st2)
        else if closed then Some (suffix = NULL, name, capacity, st2)
        else do {
          capacity' \<leftarrow> (if capacity = length name then c_int (capacity * 2) else Some capacity);
          c \<leftarrow> buffer_item st2;
          (more, st3) \<leftarrow> buffer_next env st2;
          if more then parse_name_loop env suffix st3 (name @ [c]) capacity'
          else Some (False, name @ [c], capacity', st3)
        }
      })"

text \<open>The terminating NUL is stored at the end of the name, which must be inside its block. The name
  that its readers see ends at its first NUL.\<close>

definition c_name :: "char list \<Rightarrow> cstring" where
  "c_name name = takeWhile (\<lambda>c. c \<noteq> NUL) name"

definition parse_name ::
  "('s, 'o, 'w, 'h, 'i) stache_env \<Rightarrow> cstring ptr \<Rightarrow> ('s, 'o, 'w, 'h, 'i) stache_state
    \<Rightarrow> (char list ptr \<times> ('s, 'o, 'w, 'h, 'i) stache_state) option" where
  "parse_name env suffix st = do {
     st1 \<leftarrow> buffer_skip_blanks env st;
     (found, name, capacity, st2) \<leftarrow> parse_name_loop env suffix st1 [] 16;
     if found then (if length name < capacity then Some (Some name, st2) else None)
     else Some (NULL, st2\<lparr>b_error := ''Unclosed or invalid 'stache'', b_index := b_index st\<rparr>)
   }"

definition resolve ::
  "('s, 'o, 'w, 'h, 'i) stache_env \<Rightarrow> cstring \<Rightarrow> ('s, 'o, 'w, 'h, 'i) stache_state
    \<Rightarrow> (cad_stache_lookup_type \<times> 'h) \<times> ('s, 'o, 'w, 'h, 'i) stache_state" where
  "resolve env name st = (let (r, w) = sc_resolve (se_client env) name (b_world st) in (r, st\<lparr>b_world := w\<rparr>))"

section \<open>Variables\<close>

text \<open>\<open>c = resolved->string.get(resolved)\<close>, what is done with \<open>c\<close> (which may be \<open>NULL\<close>), and
  \<open>resolved->string.free(resolved)\<close>.\<close>

definition with_string ::
  "('s, 'o, 'w, 'h, 'i) stache_env \<Rightarrow> 'h
    \<Rightarrow> (cstring ptr \<Rightarrow> ('s, 'o, 'w, 'h, 'i) stache_state \<Rightarrow> ('s, 'o, 'w, 'h, 'i) stache_state option)
    \<Rightarrow> ('s, 'o, 'w, 'h, 'i) stache_state \<Rightarrow> (bool \<times> ('s, 'o, 'w, 'h, 'i) stache_state) option" where
  "with_string env resolved print st = do {
     (c, st1) \<leftarrow> call (sc_string_get (se_client env) resolved) st;
     st2 \<leftarrow> print c st1;
     (freed, st3) \<leftarrow> call (sc_string_free (se_client env) resolved) st2;
     if freed then Some (True, st3) else fail ''could not free string'' st3
   }"

text \<open>The switch of both kinds of variables, on what the name is resolved to.\<close>

definition render_value ::
  "('s, 'o, 'w, 'h, 'i) stache_env
    \<Rightarrow> (cstring ptr \<Rightarrow> ('s, 'o, 'w, 'h, 'i) stache_state \<Rightarrow> ('s, 'o, 'w, 'h, 'i) stache_state option)
    \<Rightarrow> cstring \<Rightarrow> ('s, 'o, 'w, 'h, 'i) stache_state \<Rightarrow> (bool \<times> ('s, 'o, 'w, 'h, 'i) stache_state) option" where
  "render_value env print name st =
     (let ((type, resolved), st1) = resolve env name st in
        case type of
          Cad_stache_not_found \<Rightarrow> Some (True, st1)
        | Cad_stache_string \<Rightarrow> with_string env resolved print st1
        | Cad_stache_list \<Rightarrow> fail ''unexpected list'' st1
        | Cad_stache_partial \<Rightarrow> fail ''unexpected partial'' st1
        | Other_type \<Rightarrow> fail ''invalid type'' st1)"

text \<open>A raw value is not read when nothing is put out, so that it may be \<open>NULL\<close> then.\<close>

definition print_raw ::
  "('s, 'o, 'w, 'h, 'i) stache_env \<Rightarrow> cstring ptr \<Rightarrow> ('s, 'o, 'w, 'h, 'i) stache_state
    \<Rightarrow> ('s, 'o, 'w, 'h, 'i) stache_state option" where
  "print_raw env c st = (if buffer_skip_output st then Some st else do { s \<leftarrow> c; buffer_output env st s })"

definition render_stache_raw ::
  "('s, 'o, 'w, 'h, 'i) stache_env \<Rightarrow> ('s, 'o, 'w, 'h, 'i) stache_state
    \<Rightarrow> (bool \<times> ('s, 'o, 'w, 'h, 'i) stache_state) option" where
  "render_stache_raw env st = do {
     (name, st1) \<leftarrow> parse_name env (Some ''}'') st;
     (case name of
        None \<Rightarrow> Some (True, st1)
      | Some n \<Rightarrow>
          if c_name n = [] then fail ''invalid raw name'' st1
          else render_value env (print_raw env) (c_name n) st1)
   }"

definition escape_char :: "char \<Rightarrow> cstring" where
  "escape_char c =
     (if c = CHR ''<'' then ''&lt;''
      else if c = CHR ''>'' then ''&gt;''
      else if c = CHR ''&'' then ''&amp;''
      else if c = CHR 0x22 then ''&quot;''
      else if c = CHR 0x27 then ''&apos;''
      else [c])"

fun escape_output ::
  "('s, 'o, 'w, 'h, 'i) stache_env \<Rightarrow> cstring \<Rightarrow> ('s, 'o, 'w, 'h, 'i) stache_state
    \<Rightarrow> ('s, 'o, 'w, 'h, 'i) stache_state option" where
  "escape_output env [] st = Some st"
| "escape_output env (c # cs) st = do { st' \<leftarrow> buffer_output env st (escape_char c); escape_output env cs st' }"

definition print_escaped ::
  "('s, 'o, 'w, 'h, 'i) stache_env \<Rightarrow> cstring ptr \<Rightarrow> ('s, 'o, 'w, 'h, 'i) stache_state
    \<Rightarrow> ('s, 'o, 'w, 'h, 'i) stache_state option" where
  "print_escaped env c st = do { s \<leftarrow> c; escape_output env s st }"

definition render_stache_escape ::
  "('s, 'o, 'w, 'h, 'i) stache_env \<Rightarrow> ('s, 'o, 'w, 'h, 'i) stache_state
    \<Rightarrow> (bool \<times> ('s, 'o, 'w, 'h, 'i) stache_state) option" where
  "render_stache_escape env st = do {
     (name, st1) \<leftarrow> parse_name env NULL st;
     (case name of
        None \<Rightarrow> Some (True, st1)
      | Some n \<Rightarrow>
          if c_name n = [] then fail ''invalid escape name'' st1
          else render_value env (print_escaped env) (c_name n) st1)
   }"

section \<open>Loops\<close>

text \<open>Releasing a string or a partial that decides a loop: no \<open>free\<close>, or one that fails, is an error.\<close>

definition release ::
  "('w \<Rightarrow> bool \<times> 'w) ptr \<Rightarrow> cstring \<Rightarrow> ('s, 'o, 'w, 'h, 'i) stache_state
    \<Rightarrow> (bool \<times> ('s, 'o, 'w, 'h, 'i) stache_state) option" where
  "release free_fn msg st =
     (case free_fn of
        None \<Rightarrow> fail msg st
      | Some f \<Rightarrow> do { (freed, st') \<leftarrow> call (Some f) st; if freed then Some (True, st') else fail msg st' })"

text \<open>Whether the loop is empty, and the result so far.\<close>

definition string_empty ::
  "('s, 'o, 'w, 'h, 'i) stache_env \<Rightarrow> 'h \<Rightarrow> ('s, 'o, 'w, 'h, 'i) stache_state
    \<Rightarrow> (bool \<times> bool \<times> ('s, 'o, 'w, 'h, 'i) stache_state) option" where
  "string_empty env resolved st = do {
     (c, st1) \<leftarrow> (case sc_string_get (se_client env) resolved of
        None \<Rightarrow> Some (NULL, st)
      | Some f \<Rightarrow> call (Some f) st);
     (ok, st2) \<leftarrow> release (sc_string_free (se_client env) resolved) ''could not free string'' st1;
     Some (c = NULL \<or> c = Some [], ok, st2)
   }"

definition list_empty ::
  "('s, 'o, 'w, 'h, 'i) stache_env \<Rightarrow> 'h \<Rightarrow> ('s, 'o, 'w, 'h, 'i) stache_state
    \<Rightarrow> (bool \<times> bool \<times> ('s, 'o, 'w, 'h, 'i) stache_state) option" where
  "list_empty env resolved st =
     (case sc_list_get (se_client env) resolved of
        None \<Rightarrow> Some (True, True, st)
      | Some f \<Rightarrow> do { (more, st') \<leftarrow> call (Some (f 0)) st; Some (\<not> more, True, st') })"

definition partial_empty ::
  "('s, 'o, 'w, 'h, 'i) stache_env \<Rightarrow> 'h \<Rightarrow> ('s, 'o, 'w, 'h, 'i) stache_state
    \<Rightarrow> (bool \<times> bool \<times> ('s, 'o, 'w, 'h, 'i) stache_state) option" where
  "partial_empty env resolved st = do {
     (s, st1) \<leftarrow> (case sc_partial_get (se_client env) resolved of
        None \<Rightarrow> Some (NULL, st)
      | Some f \<Rightarrow> call (Some f) st);
     (empty, ok, st2) \<leftarrow> (case s of
        None \<Rightarrow> Some (True, True, st1)
      | Some i \<Rightarrow> do {
          (r, st') \<leftarrow> call (Some (sc_next (se_client env) i)) st1;
          if r \<noteq> 0 then Some (False, False, st'\<lparr>b_error := ''error while reading partial''\<rparr>)
          else do {
            (c, st'') \<leftarrow> call (Some (sc_item (se_client env) i)) st';
            Some (c = EOF, True, st'')
          }
        });
     (freed, st3) \<leftarrow> release (sc_partial_free (se_client env) resolved) ''could not free partial'' st2;
     Some (empty, ok \<and> freed, st3)
   }"

definition loop_empty ::
  "('s, 'o, 'w, 'h, 'i) stache_env \<Rightarrow> cad_stache_lookup_type \<Rightarrow> 'h \<Rightarrow> ('s, 'o, 'w, 'h, 'i) stache_state
    \<Rightarrow> (bool \<times> bool \<times> ('s, 'o, 'w, 'h, 'i) stache_state) option" where
  "loop_empty env type resolved st =
     (case type of
        Cad_stache_not_found \<Rightarrow> Some (True, True, st)
      | Cad_stache_string \<Rightarrow> string_empty env resolved st
      | Cad_stache_list \<Rightarrow> list_empty env resolved st
      | Cad_stache_partial \<Rightarrow> partial_empty env resolved st
      | Other_type \<Rightarrow> Some (False, False, st\<lparr>b_error := ''invalid type''\<rparr>))"

definition open_loop ::
  "('s, 'o, 'w, 'h, 'i) stache_env \<Rightarrow> loop_type \<Rightarrow> cstring \<Rightarrow> ('s, 'o, 'w, 'h, 'i) stache_state
    \<Rightarrow> (bool \<times> ('s, 'o, 'w, 'h, 'i) stache_state) option" where
  "open_loop env loop_type name st = do {
     let ((type, resolved), st1) = resolve env name st;
     (empty, result, st2) \<leftarrow> loop_empty env type resolved st1;
     let loop = \<lparr>sl_type = loop_type, sl_name = Some name, sl_lookup = type,
                 sl_resolved = (if type = Cad_stache_list then Some resolved else NULL),
                 sl_buffer_index = b_index st, sl_loop_index = 0, sl_empty = empty\<rparr>;
     Some (result, st2\<lparr>b_loops := b_loops st2 @ [loop]\<rparr>)
   }"

definition render_stache_loop ::
  "('s, 'o, 'w, 'h, 'i) stache_env \<Rightarrow> loop_type \<Rightarrow> ('s, 'o, 'w, 'h, 'i) stache_state
    \<Rightarrow> (bool \<times> ('s, 'o, 'w, 'h, 'i) stache_state) option" where
  "render_stache_loop env loop_type st = do {
     (name, st1) \<leftarrow> parse_name env NULL st;
     (case name of None \<Rightarrow> Some (True, st1) | Some n \<Rightarrow> open_loop env loop_type (c_name n) st1)
   }"

definition render_stache_while ::
  "('s, 'o, 'w, 'h, 'i) stache_env \<Rightarrow> ('s, 'o, 'w, 'h, 'i) stache_state
    \<Rightarrow> (bool \<times> ('s, 'o, 'w, 'h, 'i) stache_state) option" where
  "render_stache_while env st = render_stache_loop env Loop_while st"

definition render_stache_else ::
  "('s, 'o, 'w, 'h, 'i) stache_env \<Rightarrow> ('s, 'o, 'w, 'h, 'i) stache_state
    \<Rightarrow> (bool \<times> ('s, 'o, 'w, 'h, 'i) stache_state) option" where
  "render_stache_else env st = render_stache_loop env Loop_else st"

text \<open>The end of a turn of a loop over a list: on to the next element, or the end of the loop. Its name
  is released even when the list cannot be closed, and the loop stays in the array then.\<close>

definition list_turn ::
  "('s, 'o, 'w, 'h, 'i) stache_env \<Rightarrow> 'h stache_loop \<Rightarrow> ('s, 'o, 'w, 'h, 'i) stache_state
    \<Rightarrow> (bool \<times> ('s, 'o, 'w, 'h, 'i) stache_state) option" where
  "list_turn env loop st = do {
     let outer = butlast (b_loops st);
     let loop' = loop\<lparr>sl_loop_index := sl_loop_index loop + 1\<rparr>;
     resolved \<leftarrow> sl_resolved loop';
     (get, st1) \<leftarrow>
       (if sl_type loop' = Loop_else then Some (False, st)
        else do {
          f \<leftarrow> sc_list_get (se_client env) resolved;
          call (Some (f (sl_loop_index loop'))) st
        });
     if get then Some (True, st1\<lparr>b_loops := outer @ [loop'], b_index := sl_buffer_index loop'\<rparr>)
     else do {
       (closed, st2) \<leftarrow> (case sc_list_close (se_client env) resolved of
          None \<Rightarrow> Some (False, st1)
        | Some f \<Rightarrow> call (Some f) st1);
       if closed then Some (True, st2\<lparr>b_loops := outer\<rparr>)
       else fail ''could not close loop list'' (st2\<lparr>b_loops := outer @ [loop'\<lparr>sl_name := NULL\<rparr>]\<rparr>)
     }
   }"

definition close_loop ::
  "('s, 'o, 'w, 'h, 'i) stache_env \<Rightarrow> cstring \<Rightarrow> ('s, 'o, 'w, 'h, 'i) stache_state
    \<Rightarrow> (bool \<times> ('s, 'o, 'w, 'h, 'i) stache_state) option" where
  "close_loop env name st =
     (if b_loops st = [] then fail ''closing non-open loop'' st
      else let loop = last (b_loops st) in
        if sl_name loop \<noteq> Some name then fail ''closing loop name different from opening loop name'' st
        else case sl_lookup loop of
          Cad_stache_list \<Rightarrow> list_turn env loop st
        | Other_type \<Rightarrow> Some (True, st)
        | _ \<Rightarrow> Some (True, st\<lparr>b_loops := butlast (b_loops st)\<rparr>))"

definition render_stache_end ::
  "('s, 'o, 'w, 'h, 'i) stache_env \<Rightarrow> ('s, 'o, 'w, 'h, 'i) stache_state
    \<Rightarrow> (bool \<times> ('s, 'o, 'w, 'h, 'i) stache_state) option" where
  "render_stache_end env st = do {
     (name, st1) \<leftarrow> parse_name env NULL st;
     (case name of None \<Rightarrow> Some (True, st1) | Some n \<Rightarrow> close_loop env (c_name n) st1)
   }"

section \<open>Delimiters, comments and partials\<close>

definition blank :: "char \<Rightarrow> bool" where
  "blank c \<longleftrightarrow> c = CHR '' '' \<or> c = CHR 0x0A"

text \<open>The search for the first blank does not stop at the end of the name: without one it runs out of
  its block.\<close>

definition render_stache_delimiters ::
  "('s, 'o, 'w, 'h, 'i) stache_env \<Rightarrow> ('s, 'o, 'w, 'h, 'i) stache_state
    \<Rightarrow> (bool \<times> ('s, 'o, 'w, 'h, 'i) stache_state) option" where
  "render_stache_delimiters env st = do {
     (delimiters, st1) \<leftarrow> parse_name env (Some ''='') st;
     (case delimiters of
        None \<Rightarrow> Some (False, st1)
      | Some d \<Rightarrow>
          (case dropWhile (\<lambda>c. \<not> blank c) d of
             [] \<Rightarrow> None
           | _ # rest \<Rightarrow>
               let close = dropWhile blank (c_name rest) in
               if close = [] then fail ''invalid delimiter change: close delimiter not found'' st1
               else if list_ex blank close then
                 fail ''invalid delimiter change: no space allowed in close delimiter'' st1
               else if length close > 1 \<and> last close = CHR ''='' then
                 Some (True, st1\<lparr>b_open := c_name (takeWhile (\<lambda>c. \<not> blank c) d), b_close := butlast close\<rparr>)
               else fail ''invalid delimiter change: missing closing equal sign'' st1))
   }"

partial_function (option) render_stache_comment ::
  "('s, 'o, 'w, 'h, 'i) stache_env \<Rightarrow> ('s, 'o, 'w, 'h, 'i) stache_state
    \<Rightarrow> (bool \<times> ('s, 'o, 'w, 'h, 'i) stache_state) option" where
  "render_stache_comment env st = do {
     (found, st1) \<leftarrow> buffer_look_at env st (b_close st);
     if found then Some (True, st1)
     else do {
       (ok, st2) \<leftarrow> buffer_next env st1;
       if ok then render_stache_comment env st2 else Some (False, st2)
     }
   }"

text \<open>The stream of a partial, if there is one, and the result so far.\<close>

definition partial_source ::
  "('s, 'o, 'w, 'h, 'i) stache_env \<Rightarrow> cad_stache_lookup_type \<Rightarrow> 'h \<Rightarrow> ('s, 'o, 'w, 'h, 'i) stache_state
    \<Rightarrow> ('i partial_stream ptr \<times> bool \<times> ('s, 'o, 'w, 'h, 'i) stache_state) option" where
  "partial_source env type resolved st =
     (case type of
        Cad_stache_string \<Rightarrow> do {
          (c, st1) \<leftarrow> call (sc_string_get (se_client env) resolved) st;
          (case c of
             Some s \<Rightarrow> Some (map_option String_stream (new_cad_input_stream_from_string True s), True, st1)
           | None \<Rightarrow> do {
               (_, st2) \<leftarrow> call (sc_string_free (se_client env) resolved) st1;
               Some (NULL, True, st2)
             })
        }
      | Cad_stache_list \<Rightarrow> do {
          (_, st1) \<leftarrow> call (sc_list_close (se_client env) resolved) (st\<lparr>b_error := ''unexpected list for partial''\<rparr>);
          Some (NULL, False, st1)
        }
      | Cad_stache_partial \<Rightarrow> do {
          (s, st1) \<leftarrow> call (sc_partial_get (se_client env) resolved) st;
          (case s of
             Some i \<Rightarrow> Some (Some (Client_stream i), True, st1)
           | None \<Rightarrow> do {
               (_, st2) \<leftarrow> call (sc_partial_free (se_client env) resolved) st1;
               Some (NULL, True, st2)
             })
        }
      | _ \<Rightarrow> Some (NULL, True, st))"

definition render_stache_partial ::
  "('s, 'o, 'w, 'h, 'i) stache_env \<Rightarrow> int \<Rightarrow> ('s, 'o, 'w, 'h, 'i) stache_state
    \<Rightarrow> (bool \<times> ('s, 'o, 'w, 'h, 'i) stache_state) option" where
  "render_stache_partial env start_index st = do {
     (name, st1) \<leftarrow> parse_name env NULL st;
     (case name of
        None \<Rightarrow> Some (True, st1)
      | Some n \<Rightarrow> do {
          let ((type, resolved), st2) = resolve env (c_name n) st1;
          (stream, result, st3) \<leftarrow> partial_source env type resolved st2;
          st4 \<leftarrow> (case stream of
             None \<Rightarrow> Some st3
           | Some s \<Rightarrow> do {
               save \<leftarrow> buffer_item st3;
               let p = \<lparr>sp_lookup = type, sp_resolved = resolved, sp_stream = s, sp_save = save\<rparr>;
               Some (st3\<lparr>b_partials := b_partials st3 @ [p]\<rparr>)
             });
          (ok, st5) \<leftarrow> buffer_next env (st4\<lparr>b_index := start_index - 1, b_fill := nat start_index\<rparr>);
          if ok then Some (result, st5) else fail ''BUG: no next at partial start'' st5
        })
   }"

section \<open>Rendering\<close>

definition render_stache ::
  "('s, 'o, 'w, 'h, 'i) stache_env \<Rightarrow> int \<Rightarrow> ('s, 'o, 'w, 'h, 'i) stache_state
    \<Rightarrow> (bool \<times> ('s, 'o, 'w, 'h, 'i) stache_state) option" where
  "render_stache env start_index st =
     (if buffer_eof st then fail ''Invalid 'stache: nothing found after 'stache opening'' st
      else do {
        c \<leftarrow> buffer_item st;
        (ok, st1) \<leftarrow> buffer_next env st;
        if \<not> ok then fail ''Invalid 'stache: nothing found after 'stache opening'' st1
        else if c = CHR ''{'' then render_stache_raw env st1
        else if c = CHR ''#'' then render_stache_while env st1
        else if c = CHR ''/'' then render_stache_end env st1
        else if c = CHR ''^'' then render_stache_else env st1
        else if c = CHR ''='' then render_stache_delimiters env st1
        else if c = CHR ''!'' then render_stache_comment env st1
        else if c = CHR ''>'' then render_stache_partial env start_index st1
        else render_stache_escape env (st1\<lparr>b_index := b_index st1 - 1\<rparr>)
      })"

partial_function (option) render_template ::
  "('s, 'o, 'w, 'h, 'i) stache_env \<Rightarrow> ('s, 'o, 'w, 'h, 'i) stache_state
    \<Rightarrow> (bool \<times> ('s, 'o, 'w, 'h, 'i) stache_state) option" where
  "render_template env st =
     (if buffer_eof st then Some (True, st)
      else do {
        (opened, st1) \<leftarrow> buffer_look_at env st (b_open st);
        (result, st2) \<leftarrow>
          (if opened then render_stache env (b_index st) st1
           else do {
             c \<leftarrow> buffer_item st1;
             st1' \<leftarrow> buffer_output env st1 [c];
             buffer_next env st1'
           });
        if result then render_template env st2 else Some (False, st2)
      })"

text \<open>What \<open>on_error\<close> is called with, if it is, is part of the result.\<close>

definition render ::
  "('s, 'o, 'w, 'h, 'i) stache_env \<Rightarrow> 's \<Rightarrow> 'o \<Rightarrow> 'w
    \<Rightarrow> (int \<times> (cstring \<times> int) ptr \<times> ('s, 'o, 'w, 'h, 'i) stache_state) option" where
  "render env input output world = do {
     let st = \<lparr>b_input = input, b_data = map (se_junk env) [0..<4096], b_index = -1, b_fill = 0,
               b_capacity = 4096, b_eof = False, b_partials = [], b_loops = [], b_error = '''',
               b_open = ''{{'', b_close = ''}}'', b_output = output, b_world = world\<rparr>;
     (ok, st1) \<leftarrow> buffer_next env st;
     (result, report, st2) \<leftarrow>
       (if ok then do {
          (rendered, st') \<leftarrow> render_template env st1;
          Some (if rendered then
                  (if b_loops st' \<noteq> [] then (-1, Some (''Unfinished loops'', b_index st'), st') else (0, NULL, st'))
                else (-1, Some (b_error st', b_index st'), st'))
        } else Some (-1, Some (''Empty buffer'', 0), st1));
     st3 \<leftarrow> buffer_unwind_loops st2;
     Some (result, report, st3)
   }"

text \<open>The loops are executable.\<close>

declare buffer_skip_blanks.simps [code] parse_name_loop.simps [code] render_stache_comment.simps [code]
  render_template.simps [code]

section \<open>The engine as an object\<close>

text \<open>The constructor stores the callback and its data, which are in the environment of the model; \<open>free_\<close> releases
  the object: the result is the number of blocks.\<close>

definition new_cad_stache ::
  "bool \<Rightarrow> ('s, 'o, 'w, 'h, 'i) stache_env \<Rightarrow> ('s, 'o, 'w, 'h, 'i) stache_env ptr" where
  "new_cad_stache malloc_ok env = (if \<not> malloc_ok then NULL else Some env)"

definition stache_free :: "('s, 'o, 'w, 'h, 'i) stache_env \<Rightarrow> nat" where
  "stache_free this = 1"

record ('s, 'o, 'w, 'h, 'i) cad_stache =
  stache_free_slot :: "('s, 'o, 'w, 'h, 'i) stache_env \<Rightarrow> nat"
  stache_render_slot :: "('s, 'o, 'w, 'h, 'i) stache_env \<Rightarrow> 's \<Rightarrow> 'o \<Rightarrow> 'w
    \<Rightarrow> (int \<times> (cstring \<times> int) ptr \<times> ('s, 'o, 'w, 'h, 'i) stache_state) option"

definition stache_fn :: "('s, 'o, 'w, 'h, 'i) cad_stache" where
  "stache_fn =
     \<lparr>stache_free_slot = stache_free,
      stache_render_slot = render\<rparr>"

end
