(* ===== verification/Cad_Stache_Spec.thy ===== *)
theory Cad_Stache_Spec
  imports Cad_Stache
begin

text \<open>
  What a template means: its tree, its text, and the texts that a rendering puts out, as a big-step
  relation over the client's world. A section that is skipped still resolves its names, as the
  engine does; it only puts out nothing. A partial that is a string means what its own tree means, and
  it is resolved once: its text replaces its tag in the template, also for the later turns of a list.
\<close>

section \<open>Templates\<close>

text \<open>\<open>End\<close> is an end tag that is not that of a section; no valid template has one.\<close>

datatype node = Text cstring | Variable cstring | Unescaped cstring | Comment cstring
  | Partial cstring | End cstring | Section cstring "node list" | Inverted cstring "node list"

fun print_node :: "node \<Rightarrow> cstring" where
  "print_node (Text t) = t"
| "print_node (Variable n) = ''{{'' @ n @ ''}}''"
| "print_node (Unescaped n) = ''{{{'' @ n @ ''}}}''"
| "print_node (Comment c) = ''{{!'' @ c @ ''}}''"
| "print_node (Partial n) = ''{{>'' @ n @ ''}}''"
| "print_node (End n) = ''{{/'' @ n @ ''}}''"
| "print_node (Section n body) = ''{{#'' @ n @ ''}}'' @ concat (map print_node body) @ ''{{/'' @ n @ ''}}''"
| "print_node (Inverted n body) = ''{{^'' @ n @ ''}}'' @ concat (map print_node body) @ ''{{/'' @ n @ ''}}''"

abbreviation print_nodes :: "node list \<Rightarrow> cstring" where
  "print_nodes ns \<equiv> concat (map print_node ns)"

text \<open>A name the engine reads back: not empty, without \<open>}\<close>, NUL and a leading blank, and not of a
  length whose terminating NUL falls outside its block.\<close>

definition wf_name :: "cstring \<Rightarrow> bool" where
  "wf_name n \<longleftrightarrow> n \<noteq> [] \<and> CHR ''}'' \<notin> set n \<and> NUL \<notin> set n \<and> \<not> blank (hd n) \<and> \<not> (\<exists>j. length n = 16 * 2 ^ j)"

fun wf_node :: "node \<Rightarrow> bool" where
  "wf_node (Text t) \<longleftrightarrow> CHR ''{'' \<notin> set t"
| "wf_node (Variable n) \<longleftrightarrow> wf_name n \<and> hd n \<notin> set ''{#/^=!>''"
| "wf_node (Unescaped n) \<longleftrightarrow> wf_name n"
| "wf_node (Comment c) \<longleftrightarrow> CHR ''}'' \<notin> set c"
| "wf_node (Partial n) \<longleftrightarrow> wf_name n"
| "wf_node (End n) \<longleftrightarrow> wf_name n"
| "wf_node (Section n body) \<longleftrightarrow> wf_name n \<and> list_all wf_node body"
| "wf_node (Inverted n body) \<longleftrightarrow> wf_name n \<and> list_all wf_node body"

text \<open>The nodes that hold no partial.\<close>

fun expanded :: "node \<Rightarrow> bool" where
  "expanded (Partial n) \<longleftrightarrow> False"
| "expanded (Section n body) \<longleftrightarrow> list_all expanded body"
| "expanded (Inverted n body) \<longleftrightarrow> list_all expanded body"
| "expanded v \<longleftrightarrow> True"

section \<open>Their meaning\<close>

definition shown :: "bool \<Rightarrow> cstring list \<Rightarrow> cstring list" where
  "shown skip ts = (if skip then [] else ts)"

text \<open>The value of a string object, which is released after use.\<close>

definition string_value ::
  "('w, 'h, 'i) stache_client \<Rightarrow> 'h \<Rightarrow> 'w \<Rightarrow> (cstring \<times> 'w) option" where
  "string_value cl h w = do {
     get \<leftarrow> sc_string_get cl h;
     let (v, w1) = get w;
     s \<leftarrow> v;
     free \<leftarrow> sc_string_free cl h;
     let (ok, w2) = free w1;
     if ok then Some (s, w2) else None
   }"

text \<open>Whether a section on something that is not a list is shown.\<close>

definition truth ::
  "('w, 'h, 'i) stache_client \<Rightarrow> cad_stache_lookup_type \<Rightarrow> 'h \<Rightarrow> 'w \<Rightarrow> (bool \<times> 'w) option" where
  "truth cl type h w =
     (case type of
        Cad_stache_not_found \<Rightarrow> Some (False, w)
      | Cad_stache_string \<Rightarrow> do {
          let (v, w1) = (case sc_string_get cl h of None \<Rightarrow> (NULL, w) | Some get \<Rightarrow> get w);
          free \<leftarrow> sc_string_free cl h;
          let (ok, w2) = free w1;
          if ok then Some (v \<noteq> NULL \<and> v \<noteq> Some [], w2) else None
        }
      | _ \<Rightarrow> None)"

text \<open>A partial whose release leaves the client's world as it is: when it is released depends on how
  far the engine has looked ahead.\<close>

definition quiet_free :: "('w, 'h, 'i) stache_client \<Rightarrow> 'h \<Rightarrow> bool" where
  "quiet_free cl h \<longleftrightarrow> (\<exists>free. sc_string_free cl h = Some free \<and> (\<forall>w. snd (free w) = w))"

text \<open>The text of a partial is the text of its tree.\<close>

definition parsed :: "(cstring \<Rightarrow> node list) \<Rightarrow> cstring \<Rightarrow> bool" where
  "parsed tree p \<longleftrightarrow> print_nodes (tree p) = p \<and> list_all wf_node (tree p) \<and> valid_cstring p \<and> CHR 0xFF \<notin> set p"

text \<open>
  The relation also gives the nodes with the partials that have been replaced by their trees, and the
  number of bytes of these partials. A partial that is not found takes the character after its tag
  with it.
\<close>

inductive renders ::
    "('w, 'h, 'i) stache_client \<Rightarrow> (cstring \<Rightarrow> node list) \<Rightarrow> bool \<Rightarrow> node list \<Rightarrow> 'w \<Rightarrow> cstring list \<Rightarrow> 'w \<Rightarrow> node list
      \<Rightarrow> nat \<Rightarrow> bool"
  and iterates ::
    "('w, 'h, 'i) stache_client \<Rightarrow> (cstring \<Rightarrow> node list) \<Rightarrow> bool \<Rightarrow> 'h \<Rightarrow> node list \<Rightarrow> nat \<Rightarrow> 'w \<Rightarrow> cstring list \<Rightarrow> 'w
      \<Rightarrow> node list \<Rightarrow> nat \<Rightarrow> bool"
  for cl tree where
  r_nil: "renders cl tree skip [] w [] w [] 0"
| r_text: "renders cl tree skip ns w ts w' us g \<Longrightarrow>
    renders cl tree skip (Text t # ns) w (shown skip (map (\<lambda>c. [c]) t) @ ts) w' (Text t # us) g"
| r_comment: "renders cl tree skip ns w ts w' us g \<Longrightarrow> renders cl tree skip (Comment c # ns) w ts w' (Comment c # us) g"
| r_missing: "v = Variable n \<or> v = Unescaped n \<Longrightarrow> sc_resolve cl n w = ((Cad_stache_not_found, h), w1) \<Longrightarrow>
    renders cl tree skip ns w1 ts w' us g \<Longrightarrow> renders cl tree skip (v # ns) w ts w' (v # us) g"
| r_variable: "sc_resolve cl n w = ((Cad_stache_string, h), w1) \<Longrightarrow> string_value cl h w1 = Some (s, w2) \<Longrightarrow>
    renders cl tree skip ns w2 ts w' us g \<Longrightarrow>
    renders cl tree skip (Variable n # ns) w (shown skip (map escape_char s) @ ts) w' (Variable n # us) g"
| r_unescaped: "sc_resolve cl n w = ((Cad_stache_string, h), w1) \<Longrightarrow> string_value cl h w1 = Some (s, w2) \<Longrightarrow>
    renders cl tree skip ns w2 ts w' us g \<Longrightarrow>
    renders cl tree skip (Unescaped n # ns) w (shown skip [s] @ ts) w' (Unescaped n # us) g"
| r_partial: "sc_resolve cl n w = ((Cad_stache_string, h), w1) \<Longrightarrow> sc_string_get cl h = Some get \<Longrightarrow>
    get w1 = (Some p, w2) \<Longrightarrow> quiet_free cl h \<Longrightarrow> parsed tree p \<Longrightarrow> renders cl tree skip (tree p @ ns) w2 ts w' us g \<Longrightarrow>
    renders cl tree skip (Partial n # ns) w ts w' us (length p + g)"
| r_missing_partial: "sc_resolve cl n w = ((Cad_stache_not_found, h), w1) \<Longrightarrow>
    renders cl tree skip (Text t # ns) w1 ts w' us g \<Longrightarrow>
    renders cl tree skip (Partial n # Text (c # t) # ns) w ts w' us g"
| r_section: "sc_resolve cl n w = ((type, h), w1) \<Longrightarrow> truth cl type h w1 = Some (b, w2) \<Longrightarrow>
    renders cl tree (skip \<or> \<not> b) body w2 ts w3 body' g \<Longrightarrow> renders cl tree skip ns w3 ts' w' us g' \<Longrightarrow>
    renders cl tree skip (Section n body # ns) w (ts @ ts') w' (Section n body' # us) (g + g')"
| r_inverted: "sc_resolve cl n w = ((type, h), w1) \<Longrightarrow> truth cl type h w1 = Some (b, w2) \<Longrightarrow>
    renders cl tree (skip \<or> b) body w2 ts w3 body' g \<Longrightarrow> renders cl tree skip ns w3 ts' w' us g' \<Longrightarrow>
    renders cl tree skip (Inverted n body # ns) w (ts @ ts') w' (Inverted n body' # us) (g + g')"
| r_section_list: "sc_resolve cl n w = ((Cad_stache_list, h), w1) \<Longrightarrow> sc_list_get cl h = Some get \<Longrightarrow>
    get 0 w1 = (b, w2) \<Longrightarrow> iterates cl tree (skip \<or> \<not> b) h body 0 w2 ts w3 body' g \<Longrightarrow>
    renders cl tree skip ns w3 ts' w' us g' \<Longrightarrow>
    renders cl tree skip (Section n body # ns) w (ts @ ts') w' (Section n body' # us) (g + g')"
| r_inverted_list: "sc_resolve cl n w = ((Cad_stache_list, h), w1) \<Longrightarrow> sc_list_get cl h = Some get \<Longrightarrow>
    get 0 w1 = (b, w2) \<Longrightarrow> renders cl tree (skip \<or> b) body w2 ts w3 body' g \<Longrightarrow>
    sc_list_close cl h = Some close \<Longrightarrow> close w3 = (True, w4) \<Longrightarrow> renders cl tree skip ns w4 ts' w' us g' \<Longrightarrow>
    renders cl tree skip (Inverted n body # ns) w (ts @ ts') w' (Inverted n body' # us) (g + g')"
| i_last: "renders cl tree skip body w ts w1 body' g \<Longrightarrow> sc_list_get cl h = Some get \<Longrightarrow>
    get (Suc i) w1 = (False, w2) \<Longrightarrow> sc_list_close cl h = Some close \<Longrightarrow> close w2 = (True, w3) \<Longrightarrow>
    iterates cl tree skip h body i w ts w3 body' g"
| i_more: "renders cl tree skip body w ts w1 body' g \<Longrightarrow> sc_list_get cl h = Some get \<Longrightarrow>
    get (Suc i) w1 = (True, w2) \<Longrightarrow> iterates cl tree skip h body' (Suc i) w2 ts' w3 body'' g' \<Longrightarrow>
    iterates cl tree skip h body i w (ts @ ts') w3 body'' (g + g')"

section \<open>The nodes that are left\<close>

lemma print_expanded:
  "renders cl tree skip ns w ts w' us g \<Longrightarrow> list_all expanded us \<and> (list_all wf_node ns \<longrightarrow> list_all wf_node us) \<and>
     length (print_nodes us) \<le> length (print_nodes ns) + g"
  "iterates cl tree skip h body i w ts w' body' g \<Longrightarrow> list_all expanded body' \<and> (list_all wf_node body \<longrightarrow> list_all wf_node body') \<and>
     length (print_nodes body') \<le> length (print_nodes body) + g"
proof (induction rule: renders_iterates.inducts)
  case (r_missing v n w h w1 skip ns ts w' us g)
  then show ?case by auto
next
  case (r_partial n w h w1 get p w2 skip ns ts w' us g)
  then show ?case by (simp add: parsed_def)
qed simp_all

lemma expanded_same:
  "renders cl tree skip ns w ts w' us g \<Longrightarrow> list_all expanded ns \<longrightarrow> us = ns \<and> g = 0"
  "iterates cl tree skip h body i w ts w' body' g \<Longrightarrow> list_all expanded body \<longrightarrow> body' = body \<and> g = 0"
  by (induction rule: renders_iterates.inducts) auto

section \<open>The meaning is a function\<close>

inductive_cases renders_NilE: "renders cl tree skip [] w ts w' us g"
inductive_cases renders_TextE: "renders cl tree skip (Text t # ns) w ts w' us g"
inductive_cases renders_CommentE: "renders cl tree skip (Comment c # ns) w ts w' us g"
inductive_cases renders_VariableE: "renders cl tree skip (Variable n # ns) w ts w' us g"
inductive_cases renders_UnescapedE: "renders cl tree skip (Unescaped n # ns) w ts w' us g"
inductive_cases renders_PartialE: "renders cl tree skip (Partial n # ns) w ts w' us g"
inductive_cases renders_SectionE: "renders cl tree skip (Section n body # ns) w ts w' us g"
inductive_cases renders_InvertedE: "renders cl tree skip (Inverted n body # ns) w ts w' us g"
inductive_cases iteratesE: "iterates cl tree skip h body i w ts w' us g"

lemma truth_list [simp]: "truth cl Cad_stache_list h w = None"
  by (simp add: truth_def)

definition unique :: "('a \<Rightarrow> 'b \<Rightarrow> 'c \<Rightarrow> 'd \<Rightarrow> bool) \<Rightarrow> 'a \<Rightarrow> 'b \<Rightarrow> 'c \<Rightarrow> 'd \<Rightarrow> bool" where
  "unique P a b c d \<longleftrightarrow> (\<forall>x y z u. P x y z u \<longrightarrow> x = a \<and> y = b \<and> z = c \<and> u = d)"

lemma uniqueI: "(\<And>x y z u. P x y z u \<Longrightarrow> x = a \<and> y = b \<and> z = c \<and> u = d) \<Longrightarrow> unique P a b c d"
  by (simp add: unique_def)

lemma uniqueD:
  "renders cl tree skip ns w x y z u \<Longrightarrow> unique (renders cl tree skip ns w) a b c d \<Longrightarrow> x = a \<and> y = b \<and> z = c \<and> u = d"
  "iterates cl tree skip h body i w x y z u \<Longrightarrow> unique (iterates cl tree skip h body i w) a b c d \<Longrightarrow> x = a \<and> y = b \<and> z = c \<and> u = d"
  by (simp_all add: unique_def)

lemma meaning_deterministic:
  shows "renders cl tree skip ns w ts w' us g \<Longrightarrow> unique (renders cl tree skip ns w) ts w' us g"
    and "iterates cl tree skip h body i w ts w' us g \<Longrightarrow> unique (iterates cl tree skip h body i w) ts w' us g"
proof (induction rule: renders_iterates.inducts)
  case (r_nil skip w)
  show ?case by (auto intro!: uniqueI elim: renders_NilE)
next
  case (r_text skip ns w ts w' us g t)
  show ?case using r_text(2) by (auto intro!: uniqueI elim!: renders_TextE dest: uniqueD)
next
  case (r_comment skip ns w ts w' us g c)
  show ?case using r_comment(2) by (auto intro!: uniqueI elim!: renders_CommentE dest: uniqueD)
next
  case (r_missing v n w h w1 skip ns ts w' us g)
  show ?case using r_missing(1,2,4) by (auto intro!: uniqueI elim!: renders_VariableE renders_UnescapedE) (metis uniqueD(1))+
next
  case (r_variable n w h w1 s w2 skip ns ts w' us g)
  show ?case using r_variable(1,2,4) by (auto intro!: uniqueI elim!: renders_VariableE) (metis uniqueD)+
next
  case (r_unescaped n w h w1 s w2 skip ns ts w' us g)
  show ?case using r_unescaped(1,2,4) by (auto intro!: uniqueI elim!: renders_UnescapedE) (metis uniqueD)+
next
  case (r_partial n w h w1 get p w2 skip ns ts w' us g)
  show ?case
  proof (rule uniqueI)
    fix x y z u
    assume "renders cl tree skip (Partial n # ns) w x y z u"
    then obtain k where "renders cl tree skip (tree p @ ns) w2 x y z k" "u = length p + k"
      using r_partial(1,2,7) by (auto elim!: renders_PartialE)
    then show "x = ts \<and> y = w' \<and> z = us \<and> u = length p + g" using uniqueD(1) [OF _ r_partial(6)] by blast
  qed
next
  case (r_missing_partial n w h w1 skip t ns ts w' us g c)
  show ?case using r_missing_partial(1,3) by (auto intro!: uniqueI elim!: renders_PartialE) (metis uniqueD)+
next
  case (r_section n w type h w1 b w2 skip body ts w3 body' g ns ts' w' us g')
  show ?case using r_section(1,2,4,6) by (auto intro!: uniqueI elim!: renders_SectionE) (metis uniqueD)+
next
  case (r_inverted n w type h w1 b w2 skip body ts w3 body' g ns ts' w' us g')
  show ?case using r_inverted(1,2,4,6) by (auto intro!: uniqueI elim!: renders_InvertedE) (metis uniqueD)+
next
  case (r_section_list n w h w1 get b w2 skip body ts w3 body' g ns ts' w' us g')
  show ?case using r_section_list(1,2,4,6,7) by (auto intro!: uniqueI elim!: renders_SectionE) (metis uniqueD)+
next
  case (r_inverted_list n w h w1 get b w2 skip body ts w3 body' g close w4 ns ts' w' us g')
  show ?case
  proof (rule uniqueI)
    fix x y z u
    assume "renders cl tree skip (Inverted n body # ns) w x y z u"
    then show "x = ts @ ts' \<and> y = w' \<and> z = Inverted n body' # us \<and> u = g + g'"
    proof (rule renders_InvertedE)
      fix ha w1a geta ba w2a ts1 w3a b1 k1 closea w4a ts2 us2 k2
      assume a: "x = ts1 @ ts2" "z = Inverted n b1 # us2" "u = k1 + k2" "sc_resolve cl n w = ((Cad_stache_list, ha), w1a)"
        "sc_list_get cl ha = Some geta" "geta 0 w1a = (ba, w2a)" "renders cl tree (skip \<or> ba) body w2a ts1 w3a b1 k1"
        "sc_list_close cl ha = Some closea" "closea w3a = (True, w4a)" "renders cl tree skip ns w4a ts2 y us2 k2"
      have eqs: "ha = h" "w1a = w1" "geta = get" "ba = b" "w2a = w2" "closea = close"
        using a r_inverted_list(1,2,5,8) by auto
      have body: "ts1 = ts \<and> w3a = w3 \<and> b1 = body' \<and> k1 = g" using uniqueD(1) [OF _ r_inverted_list(4)] a(7) unfolding eqs by blast
      then have "w4a = w4" using a(9) r_inverted_list(9) unfolding eqs by auto
      then show ?thesis using a(1-3,10) body uniqueD(1) [OF _ r_inverted_list(7)] by blast
    qed (use r_inverted_list(1) in auto)
  qed
next
  case (i_last skip body w ts w1 body' g h get i w2 close w3)
  show ?case
  proof (rule uniqueI)
    fix x y z u
    assume "iterates cl tree skip h body i w x y z u"
    then show "x = ts \<and> y = w3 \<and> z = body' \<and> u = g"
    proof (rule iteratesE)
      fix w1a geta w2a closea
      assume a: "renders cl tree skip body w x w1a z u" "sc_list_get cl h = Some geta" "geta (Suc i) w1a = (False, w2a)"
        "sc_list_close cl h = Some closea" "closea w2a = (True, y)"
      have "x = ts \<and> w1a = w1 \<and> z = body' \<and> u = g" using uniqueD(1) [OF a(1) i_last(2)] .
      then show ?thesis using a i_last(3-6) by auto
    next
      fix ts1 w1a b1 k1 geta w2a ts2 k2
      assume a: "renders cl tree skip body w ts1 w1a b1 k1" "sc_list_get cl h = Some geta" "geta (Suc i) w1a = (True, w2a)"
      have "w1a = w1" using uniqueD(1) [OF a(1) i_last(2)] by simp
      then show ?thesis using a i_last(3-6) by auto
    qed
  qed
next
  case (i_more skip body w ts w1 body' g h get i w2 ts' w3 body'' g')
  show ?case
  proof (rule uniqueI)
    fix x y z u
    assume "iterates cl tree skip h body i w x y z u"
    then show "x = ts @ ts' \<and> y = w3 \<and> z = body'' \<and> u = g + g'"
    proof (rule iteratesE)
      fix w1a geta w2a
      assume a: "renders cl tree skip body w x w1a z u" "sc_list_get cl h = Some geta" "geta (Suc i) w1a = (False, w2a)"
      have "w1a = w1" using uniqueD(1) [OF a(1) i_more(2)] by simp
      then show ?thesis using a i_more(3,6) by auto
    next
      fix ts1 w1a b1 k1 geta w2a ts2 k2
      assume a: "x = ts1 @ ts2" "u = k1 + k2" "renders cl tree skip body w ts1 w1a b1 k1" "sc_list_get cl h = Some geta"
        "geta (Suc i) w1a = (True, w2a)" "iterates cl tree skip h b1 (Suc i) w2a ts2 y z k2"
      have eqs: "ts1 = ts" "w1a = w1" "b1 = body'" "k1 = g" using uniqueD(1) [OF a(3) i_more(2)] by simp_all
      then have "w2a = w2" using a(4,5) i_more(3,6) by auto
      then show ?thesis using a(1,2,6) eqs uniqueD(2) [OF _ i_more(5)] by blast
    qed
  qed
qed

end
