(* ===== verification/Cad_Stache_Laws.thy ===== *)
theory Cad_Stache_Laws
  imports Cad_Stache_Spec Cad_Stream_Fd
begin

text \<open>
  The buffer of the stache engine over a template, for every input stream that keeps the contract
  of Cad_Stream. While partials are open, the template is what the buffer, the open partials and the
  input hold together: as if the text of the partials stood in the place of their tags. While the
  buffer is inside the template, its item is the template's byte and its moves are moves in the
  template, whatever has been read ahead and however the buffer has grown.
\<close>

section \<open>Open partials\<close>

text \<open>A partial that is a string.\<close>

definition string_partial :: "('w, 'h, 'i) stache_client \<Rightarrow> ('h, 'i) stache_partial \<Rightarrow> bool" where
  "string_partial cl p \<longleftrightarrow>
     sp_lookup p = Cad_stache_string \<and> (\<exists>t. sp_stream p = String_stream t \<and> string_inv t) \<and> quiet_free cl (sp_resolved p)"

text \<open>What is still to come from the open partials: the rest of the last one and the byte that it
  has replaced, and so on.\<close>

definition partial_text :: "('h, 'i) stache_partial \<Rightarrow> char list" where
  "partial_text p = (case sp_stream p of String_stream t \<Rightarrow> string_rest t | Client_stream i \<Rightarrow> []) @ [sp_save p]"

definition to_come :: "('h, 'i) stache_partial list \<Rightarrow> char list" where
  "to_come ps = concat (map partial_text (rev ps))"

lemma to_come_simps [simp]: "to_come [] = []" "to_come (ps @ [p]) = partial_text p @ to_come ps"
  by (simp_all add: to_come_def)

section \<open>The buffer at a position of the template\<close>

definition reading ::
  "('s \<Rightarrow> char list) \<Rightarrow> ('s \<Rightarrow> bool) \<Rightarrow> ('w, 'h, 'i) stache_client \<Rightarrow> char list \<Rightarrow> ('s, 'o, 'w, 'h, 'i) stache_state \<Rightarrow> bool" where
  "reading rest good cl T st \<longleftrightarrow>
     good (b_input st) \<and> list_all (string_partial cl) (b_partials st) \<and> \<not> b_eof st \<and>
     b_fill st \<le> length T \<and> b_fill st \<le> b_capacity st \<and> 0 < b_capacity st \<and> length (b_data st) = b_capacity st \<and>
     take (b_fill st) (b_data st) = take (b_fill st) T \<and>
     to_come (b_partials st) @ rest (b_input st) = drop (b_fill st) T \<and>
     CHR 0xFF \<notin> set T \<and> length T \<le> 2 ^ 29 \<and> b_capacity st \<le> 2 ^ 30 \<and> b_open st = ''{{'' \<and> b_close st = ''}}''"

definition at_pos ::
  "('s \<Rightarrow> char list) \<Rightarrow> ('s \<Rightarrow> bool) \<Rightarrow> ('w, 'h, 'i) stache_client \<Rightarrow> char list \<Rightarrow> ('s, 'o, 'w, 'h, 'i) stache_state
    \<Rightarrow> nat \<Rightarrow> bool" where
  "at_pos rest good cl T st pos \<longleftrightarrow> reading rest good cl T st \<and> b_index st = int pos \<and> pos < b_fill st"

text \<open>The end of the template: it has been read to its last byte.\<close>

definition at_end :: "char list \<Rightarrow> ('s, 'o, 'w, 'h, 'i) stache_state \<Rightarrow> bool" where
  "at_end T st \<longleftrightarrow> b_eof st \<and> b_index st = int (length T) \<and> b_fill st = length T \<and> length T \<le> length (b_data st) \<and>
     take (length T) (b_data st) = T \<and> b_open st = ''{{'' \<and> b_close st = ''}}''"

text \<open>What a move forward leaves alone, and how far it has read.\<close>

definition same_run :: "('s, 'o, 'w, 'h, 'i) stache_state \<Rightarrow> ('s, 'o, 'w, 'h, 'i) stache_state \<Rightarrow> bool" where
  "same_run st st' \<longleftrightarrow> b_loops st' = b_loops st \<and> b_world st' = b_world st \<and> b_output st' = b_output st \<and>
     b_open st' = b_open st \<and> b_close st' = b_close st \<and> b_error st' = b_error st \<and>
     (b_eof st \<longrightarrow> b_eof st') \<and> b_index st \<le> b_index st' \<and>
     (b_eof st' \<or> int (b_fill st') = max (int (b_fill st)) (b_index st' + 1))"

lemma same_run_refl: "at_pos rest good cl T st pos \<Longrightarrow> same_run st st"
  by (auto simp: same_run_def at_pos_def)

lemma same_run_trans [trans]: "same_run st st' \<Longrightarrow> same_run st' st'' \<Longrightarrow> same_run st st''"
  by (auto simp: same_run_def)

lemma same_run_fill: "same_run st st' \<Longrightarrow> at_pos rest good cl T st' pos \<Longrightarrow> b_fill st' = max (b_fill st) (Suc pos)"
  by (auto simp: same_run_def at_pos_def reading_def)

lemma at_end_eof: "at_end T st \<Longrightarrow> buffer_eof st"
  by (simp add: at_end_def buffer_eof_def)

lemma at_pos_item: "at_pos rest good cl T st pos \<Longrightarrow> buffer_item st = Some (T ! pos)"
proof -
  assume at: "at_pos rest good cl T st pos"
  then have "b_data st ! pos = T ! pos" unfolding at_pos_def reading_def by (metis nth_take)
  then show ?thesis using at by (simp add: at_pos_def reading_def buffer_item_def)
qed

lemma at_pos_not_eof: "at_pos rest good cl T st pos \<Longrightarrow> \<not> buffer_eof st"
  by (simp add: at_pos_def reading_def buffer_eof_def)

lemma at_pos_less: "at_pos rest good cl T st pos \<Longrightarrow> pos < length T"
  by (simp add: at_pos_def reading_def)

lemma at_pos_delimiters: "at_pos rest good cl T st pos \<Longrightarrow> b_open st = ''{{'' \<and> b_close st = ''}}''"
  by (simp add: at_pos_def reading_def)

lemma at_pos_back: "at_pos rest good cl T st pos \<Longrightarrow> p \<le> pos \<Longrightarrow> at_pos rest good cl T (st\<lparr>b_index := int p\<rparr>) p"
  by (auto simp: at_pos_def reading_def)

lemma reading_update [simp]:
  "reading rest good cl T (st\<lparr>b_output := out\<rparr>) = reading rest good cl T st"
  "reading rest good cl T (st\<lparr>b_world := w\<rparr>) = reading rest good cl T st"
  "reading rest good cl T (st\<lparr>b_loops := ls\<rparr>) = reading rest good cl T st"
  "reading rest good cl T (st\<lparr>b_index := j\<rparr>) = reading rest good cl T st"
  by (simp_all add: reading_def)

lemma at_pos_update [simp]:
  "at_pos rest good cl T (st\<lparr>b_output := out\<rparr>) pos = at_pos rest good cl T st pos"
  "at_pos rest good cl T (st\<lparr>b_world := w\<rparr>) pos = at_pos rest good cl T st pos"
  "at_pos rest good cl T (st\<lparr>b_loops := ls\<rparr>) pos = at_pos rest good cl T st pos"
  by (simp_all add: at_pos_def)

text \<open>What follows a position of the template, and its first byte.\<close>

lemma drop_Cons_nth: "drop pos T = c # cs \<Longrightarrow> T ! pos = c \<and> drop (Suc pos) T = cs \<and> pos < length T"
  by (metis Cons_nth_drop_Suc drop_all list.distinct(1) list.inject not_le)

lemma drop_append_length: "drop pos T = xs @ ys \<Longrightarrow> drop (pos + length xs) T = ys"
  by (metis add.commute append_eq_conv_conj drop_drop)

lemma int_char_not_eof: "c \<noteq> CHR 0xFF \<Longrightarrow> char_int c \<noteq> EOF"
proof
  assume c: "c \<noteq> CHR 0xFF" "char_int c = EOF"
  then have "int_char (char_int c) = int_char (-1)" by (simp add: EOF_def)
  then show False using c(1) by (simp add: int_char_int) (simp add: int_char_def char_of_def)
qed

lemma buffer_room_total:
  assumes "length (b_data st) = b_capacity st" "b_fill st \<le> b_capacity st" "b_fill st \<le> 2 ^ 29" "b_capacity st \<le> 2 ^ 30"
    and "0 < b_capacity st"
  shows "\<exists>d cap. buffer_room env st = Some (st\<lparr>b_capacity := cap, b_data := d\<rparr>) \<and> length d = cap \<and> b_fill st < cap \<and>
    cap \<le> 2 ^ 30 \<and> take (b_fill st) d = take (b_fill st) (b_data st)"
proof (cases "b_fill st = b_capacity st")
  case True
  let ?d = "b_data st @ map (se_junk env) [b_capacity st..<b_capacity st * 2]"
  have "c_int (b_capacity st * 2) = Some (b_capacity st * 2)"
    using True assms(3) by (simp add: c_int_def INT_MAX_def)
  then have "buffer_room env st = Some (st\<lparr>b_capacity := b_capacity st * 2, b_data := ?d\<rparr>)"
    using True by (simp add: buffer_room_def del: c_int_Some_iff)
  then show ?thesis
    using True assms by - (intro exI conjI, assumption, simp_all)
next
  case False
  then show ?thesis
    using assms by (auto simp: buffer_room_def intro!: exI [of _ "b_data st"] exI [of _ "b_capacity st"])
qed

context input_stream
begin

lemma buffer_next_frontier:
  assumes env: "se_input env = ops" and at: "reading rest inv (se_client env) T st" "b_index st + 1 = int (b_fill st)"
  shows "\<exists>st'. buffer_next env st = Some (True, st') \<and> same_run st st' \<and>
    (if b_fill st < length T then at_pos rest inv (se_client env) T st' (b_fill st) else at_end T st')"
proof -
  let ?k = "b_fill st" and ?st1 = "st\<lparr>b_index := int (b_fill st)\<rparr>"
  note r = at(1) [unfolded reading_def]
  obtain d cap where room: "buffer_room env ?st1 = Some (?st1\<lparr>b_capacity := cap, b_data := d\<rparr>)"
      "length d = cap" "?k < cap" "cap \<le> 2 ^ 30" "take ?k d = take ?k (b_data st)"
    using buffer_room_total [of ?st1 env] r by auto
  let ?st2 = "?st1\<lparr>b_capacity := cap, b_data := d\<rparr>"
  have take: "take ?k d = take ?k T" using room(5) r by simp
  have next_is: "buffer_next env st = (do {
      (c, st3) \<leftarrow> source_item env ?st2;
      if c = EOF then
        (if b_partials st3 = [] then Some (True, st3\<lparr>b_eof := True\<rparr>)
         else do { st4 \<leftarrow> end_partial env st3; Some (True, st4) })
      else do {
        st4 \<leftarrow> buffer_put c st3;
        (q, st5) \<leftarrow> source_next env st4;
        Some (True, if q \<noteq> 0 then st5\<lparr>b_eof := True\<rparr> else st5)
      } })"
    using r at(2) room(1) by (simp add: buffer_next_def Let_def)
  have put: "buffer_put (char_int x) ?st2 = Some (?st2\<lparr>b_data := d[?k := x], b_fill := Suc ?k\<rparr>)" for x
    using room(2,3) by (simp add: buffer_put_def int_char_int c_access)
  have stored: "take (Suc ?k) (d[?k := x]) = take (Suc ?k) T" if "drop ?k T = x # xs" for x xs
    using that take room(2,3) drop_Cons_nth [of ?k T x xs] by (simp add: take_Suc_conv_app_nth)
  have not_eof: "char_int x \<noteq> EOF" if "drop ?k T = x # xs" for x xs
    using that r in_set_dropD [of x ?k T] by (intro int_char_not_eof) auto
  show ?thesis
  proof (cases "b_partials st" rule: rev_cases)
    case Nil
    have item: "source_item env ?st2 = Some (head_item (drop ?k T), ?st2)"
      using item_law [of "b_input st"] r Nil env by (simp add: source_item_def)
    show ?thesis
    proof (cases "drop ?k T")
      case over: Nil
      have "buffer_next env st = Some (True, ?st2\<lparr>b_eof := True\<rparr>)"
        using next_is item over Nil by (simp add: head_item_def)
      moreover have "at_end T (?st2\<lparr>b_eof := True\<rparr>)" using over r room(2,3) take by (simp add: at_end_def)
      ultimately show ?thesis using over at(2) by (auto simp: same_run_def)
    next
      case (Cons x xs)
      obtain s' where s': "cis_next ops (b_input st) = Some (0, s')" "inv s'" "rest s' = xs"
        using next_law [of "b_input st"] r Nil Cons by auto
      let ?st3 = "?st2\<lparr>b_data := d[?k := x], b_fill := Suc ?k, b_input := s'\<rparr>"
      have "buffer_next env st = Some (True, ?st3)"
        using next_is item Cons not_eof [OF Cons] put s'(1) Nil env by (simp add: head_item_def source_next_def)
      moreover have "at_pos rest inv (se_client env) T ?st3 ?k"
        using r room stored [OF Cons] s'(2,3) Nil drop_Cons_nth [OF Cons] by (simp add: at_pos_def reading_def)
      ultimately show ?thesis using drop_Cons_nth [OF Cons] at(2) r by (auto simp: same_run_def)
    qed
  next
    case (snoc ps p)
    obtain t where t: "sp_stream p = String_stream t" "string_inv t" and p: "sp_lookup p = Cad_stache_string"
        and quiet: "quiet_free (se_client env) (sp_resolved p)" and ps: "list_all (string_partial (se_client env)) ps"
      using r snoc by (auto simp: string_partial_def)
    have tl: "drop ?k T = string_rest t @ sp_save p # to_come ps @ rest (b_input st)"
      using r snoc t(1) by (simp add: partial_text_def)
    have item: "source_item env ?st2 = Some (head_item (string_rest t), ?st2)"
      using string_in.item_law [OF t(2)] t(1) snoc by (simp add: source_item_def)
    show ?thesis
    proof (cases "string_rest t")
      case Nil
      obtain free ok where free: "sc_string_free (se_client env) (sp_resolved p) = Some free" "free (b_world st) = (ok, b_world st)"
        using quiet unfolding quiet_free_def by (metis prod.collapse)
      let ?st3 = "?st2\<lparr>b_data := d[?k := sp_save p], b_fill := Suc ?k, b_partials := ps\<rparr>"
      have here: "drop ?k T = sp_save p # to_come ps @ rest (b_input st)" using tl Nil by simp
      have "buffer_next env st = Some (True, ?st3)"
        using next_is item Nil snoc p free room(2,3)
        by (simp add: head_item_def end_partial_def call_def buffer_put_def int_char_int c_access Let_def)
      moreover have "at_pos rest inv (se_client env) T ?st3 ?k"
        using r room stored [OF here] ps drop_Cons_nth [OF here] by (simp add: at_pos_def reading_def)
      ultimately show ?thesis using drop_Cons_nth [OF here] at(2) r by (auto simp: same_run_def)
    next
      case (Cons x xs)
      have here: "drop ?k T = x # xs @ sp_save p # to_come ps @ rest (b_input st)" using tl Cons by simp
      obtain t' where t': "string_next t = Some (0, t')" "string_inv t'" "string_rest t' = xs"
        using string_in.next_law [OF t(2)] Cons by auto
      let ?p = "p\<lparr>sp_stream := String_stream t'\<rparr>"
      let ?st3 = "?st2\<lparr>b_data := d[?k := x], b_fill := Suc ?k, b_partials := ps @ [?p]\<rparr>"
      have "buffer_next env st = Some (True, ?st3)"
        using next_is item Cons snoc not_eof [OF here] put t(1) t'(1) by (simp add: head_item_def source_next_def Let_def)
      moreover have "string_partial (se_client env) ?p" using t'(2) p quiet by (simp add: string_partial_def)
      then have "at_pos rest inv (se_client env) T ?st3 ?k"
        using r room stored [OF here] ps t'(3) drop_Cons_nth [OF here] by (simp add: at_pos_def reading_def partial_text_def)
      ultimately show ?thesis using drop_Cons_nth [OF here] at(2) r by (auto simp: same_run_def)
    qed
  qed
qed

lemma buffer_next_at:
  assumes env: "se_input env = ops" and at: "at_pos rest inv (se_client env) T st pos"
  shows "\<exists>st'. buffer_next env st = Some (True, st') \<and> same_run st st' \<and>
    (if Suc pos < length T then at_pos rest inv (se_client env) T st' (Suc pos) else at_end T st')"
proof (cases "Suc pos = b_fill st")
  case True
  then show ?thesis
    using buffer_next_frontier [OF env, of T st] at by (auto simp: at_pos_def)
next
  case False
  then have fill: "Suc pos < b_fill st" using at by (simp add: at_pos_def)
  then have "buffer_next env st = Some (True, st\<lparr>b_index := int (Suc pos)\<rparr>)"
    using at by (auto simp: buffer_next_def at_pos_def reading_def)
  then show ?thesis using at fill by (auto simp: at_pos_def reading_def same_run_def)
qed

end

section \<open>Looking at the template\<close>

lemma look_at_differs:
  "at_pos rest good cl T st pos \<Longrightarrow> T ! pos \<noteq> e \<Longrightarrow> buffer_look_at env st (e # es) = Some (False, st)"
  by (simp add: buffer_look_at_def at_pos_item)

lemma skip_blanks_none:
  "at_pos rest good cl T st pos \<Longrightarrow> \<not> blank (T ! pos) \<Longrightarrow> buffer_skip_blanks env st = Some st"
  by (subst buffer_skip_blanks.simps) (simp add: at_pos_item at_pos_not_eof blank_def)

context input_stream
begin

lemma look_at_loop_matches:
  assumes env: "se_input env = ops" and "at_pos rest inv (se_client env) T st pos" "drop pos T = e @ r" "r \<noteq> []"
  shows "\<exists>st'. look_at_loop env st e = Some (True, st') \<and> at_pos rest inv (se_client env) T st' (pos + length e) \<and> same_run st st'"
  using assms(2,3)
proof (induction e arbitrary: st pos)
  case Nil
  then show ?case using same_run_refl by auto
next
  case (Cons c e)
  have c: "T ! pos = c" "drop (Suc pos) T = e @ r" using drop_Cons_nth [of pos T c] Cons.prems(2) by auto
  then have "Suc pos < length T" using assms(4) by (metis append_is_Nil_conv drop_eq_Nil not_le)
  then obtain st1 where st1: "buffer_next env st = Some (True, st1)" "at_pos rest inv (se_client env) T st1 (Suc pos)" "same_run st st1"
    using buffer_next_at [OF env Cons.prems(1)] by auto
  obtain st2 where "look_at_loop env st1 e = Some (True, st2)" "at_pos rest inv (se_client env) T st2 (Suc pos + length e)" "same_run st1 st2"
    using Cons.IH [OF st1(2) c(2)] by blast
  then show ?case
    using st1 c(1) at_pos_item [OF Cons.prems(1)] same_run_trans by (fastforce simp: add.commute)
qed

lemma look_at_matches:
  assumes "se_input env = ops" "at_pos rest inv (se_client env) T st pos" "drop pos T = e @ r" "r \<noteq> []"
  shows "\<exists>st'. buffer_look_at env st e = Some (True, st') \<and> at_pos rest inv (se_client env) T st' (pos + length e) \<and> same_run st st'"
  using look_at_loop_matches [OF assms] by (auto simp: buffer_look_at_def)

section \<open>Names\<close>

lemma parse_name_loop_at:
  assumes env: "se_input env = ops" and "at_pos rest inv (se_client env) T st pos"
    and "drop pos T = n @ sfx @ ''}}'' @ r" "r \<noteq> []" "CHR ''}'' \<notin> set n"
    and "suffix = NULL \<and> sfx = [] \<or> suffix = Some ''}'' \<and> sfx = ''}''" "doubled 16 (length name) cap"
    and "length name + length n \<le> 2 ^ 29"
  shows "\<exists>st' cap'. parse_name_loop env suffix st name cap = Some (True, name @ n, cap', st') \<and>
    doubled 16 (length (name @ n)) cap' \<and> at_pos rest inv (se_client env) T st' (pos + length (n @ sfx) + 2) \<and> same_run st st'"
  using assms(2,3,5,7,8)
proof (induction n arbitrary: st pos name cap)
  case Nil
  have close: "b_close st = ''}}''" using at_pos_delimiters [OF Nil.prems(1)] by simp
  show ?case
  proof (cases suffix)
    case None
    then have sfx: "sfx = []" using assms(6) by simp
    obtain st' where "buffer_look_at env st ''}}'' = Some (True, st')" "at_pos rest inv (se_client env) T st' (pos + 2)" "same_run st st'"
      using look_at_matches [OF env Nil.prems(1), of "''}}''"] Nil.prems(2) sfx assms(4) by auto
    then show ?thesis
      using None sfx close Nil.prems(4) by (subst parse_name_loop.simps) (simp add: at_pos_not_eof [OF Nil.prems(1)])
  next
    case (Some s)
    then have sfx: "s = ''}''" "sfx = ''}''" using assms(6) by auto
    obtain st1 where st1: "buffer_look_at env st ''}'' = Some (True, st1)" "at_pos rest inv (se_client env) T st1 (pos + 1)" "same_run st st1"
      using look_at_matches [OF env Nil.prems(1), of "''}''" "''}}'' @ r"] Nil.prems(2) sfx by auto
    have "drop (pos + 1) T = ''}}'' @ r" using drop_append_length [of pos T "''}''"] Nil.prems(2) sfx by simp
    then obtain st2 where "buffer_look_at env st1 ''}}'' = Some (True, st2)" "at_pos rest inv (se_client env) T st2 (pos + 1 + 2)" "same_run st1 st2"
      using look_at_matches [OF env st1(2), of "''}}''" r] assms(4) by auto
    moreover have "b_close st1 = ''}}''" using at_pos_delimiters [OF st1(2)] by simp
    ultimately show ?thesis
      using Some sfx st1 Nil.prems(4) same_run_trans [OF st1(3)]
      by (subst parse_name_loop.simps) (simp add: at_pos_not_eof [OF Nil.prems(1)])
  qed
next
  case (Cons c n)
  have c: "T ! pos = c" "drop (Suc pos) T = n @ sfx @ ''}}'' @ r" using drop_Cons_nth [of pos T c] Cons.prems(2) by auto
  then have more: "Suc pos < length T" using assms(4) by (metis append_is_Nil_conv drop_eq_Nil not_le)
  obtain st1 where st1: "buffer_next env st = Some (True, st1)" "at_pos rest inv (se_client env) T st1 (Suc pos)" "same_run st st1"
    using buffer_next_at [OF env Cons.prems(1)] more by auto
  have look: "buffer_look_at env st ''}'' = Some (False, st)" "buffer_look_at env st ''}}'' = Some (False, st)"
    using look_at_differs [OF Cons.prems(1)] c(1) Cons.prems(3) by auto
  let ?cap = "if cap = length name then cap * 2 else cap"
  have cap: "doubled 16 (length (name @ [c])) ?cap" using doubled_Suc [OF Cons.prems(4)] by simp
  have room: "c_int (length name * 2) = Some (length name * 2)"
    using Cons.prems(5) by (auto simp: c_int_def INT_MAX_def)
  obtain st2 cap' where st2: "parse_name_loop env suffix st1 (name @ [c]) ?cap = Some (True, (name @ [c]) @ n, cap', st2)"
      "doubled 16 (length ((name @ [c]) @ n)) cap'" "at_pos rest inv (se_client env) T st2 (Suc pos + length (n @ sfx) + 2)" "same_run st1 st2"
    using Cons.IH [OF st1(2) c(2) _ cap] Cons.prems(3,5) by auto
  have close: "b_close st = ''}}''" using at_pos_delimiters [OF Cons.prems(1)] by simp
  have "parse_name_loop env suffix st name cap = parse_name_loop env suffix st1 (name @ [c]) ?cap"
    using assms(6) look st1(1) c(1)
    by (subst parse_name_loop.simps)
      (auto simp: at_pos_not_eof [OF Cons.prems(1)] at_pos_item [OF Cons.prems(1)] close room simp del: c_int_Some_iff)
  then show ?case using st2 same_run_trans [OF st1(3) st2(4)] by auto
qed

end

context input_stream
begin

text \<open>A name inside its delimiters is read, unless its length is one of those where the terminating NUL
  falls outside its block.\<close>

lemma parse_name_at:
  assumes env: "se_input env = ops" and at: "at_pos rest inv (se_client env) T st pos"
    and drop: "drop pos T = n @ sfx @ ''}}'' @ r" and r: "r \<noteq> []" and n: "CHR ''}'' \<notin> set n" "n = [] \<or> \<not> blank (hd n)"
    and sfx: "suffix = NULL \<and> sfx = [] \<or> suffix = Some ''}'' \<and> sfx = ''}''"
  shows "\<exists>st'. parse_name env suffix st = (if \<exists>j. length n = 16 * 2 ^ j then None else Some (Some n, st')) \<and>
    at_pos rest inv (se_client env) T st' (pos + length (n @ sfx) + 2) \<and> same_run st st'"
proof -
  have "T ! pos = hd (n @ sfx @ ''}}'' @ r)"
    using drop drop_Cons_nth [of pos T] by (cases "n @ sfx @ ''}}'' @ r") auto
  then have skip: "buffer_skip_blanks env st = Some st"
    using n(2) sfx by (intro skip_blanks_none [OF at]) (cases n, auto simp: blank_def)
  have "length n \<le> length T" using arg_cong [OF drop, of length] by simp
  then have len: "length ([] :: char list) + length n \<le> 2 ^ 29" using at by (simp add: at_pos_def reading_def)
  obtain st' cap where loop: "parse_name_loop env suffix st [] 16 = Some (True, n, cap, st')" "doubled 16 (length n) cap"
      "at_pos rest inv (se_client env) T st' (pos + length (n @ sfx) + 2)" "same_run st st'"
    using parse_name_loop_at [OF env at drop r n(1) sfx _ len, of 16] doubled_start [of 0 16] by auto
  have "length n \<le> cap" using loop(2) by (auto simp: doubled_def)
  then have "length n < cap \<longleftrightarrow> \<not> (\<exists>j. length n = 16 * 2 ^ j)"
    unfolding doubled_full [OF loop(2), symmetric, simplified] by linarith
  then have "parse_name env suffix st = (if \<exists>j. length n = 16 * 2 ^ j then None else Some (Some n, st'))"
    using skip loop(1) by (simp add: parse_name_def)
  then show ?thesis using loop(3,4) by blast
qed

end

end
