(* ===== verification/Cad_Stache_Tags.thy ===== *)
theory Cad_Stache_Tags
  imports Cad_Stache_Laws Cad_Stache_Spec
begin

text \<open>
  One turn of the renderer: a text, or a tag of each kind. From a position in the template where the text of a
  node begins, \<open>render_template\<close> comes to the position where it ends, with what the node puts out and
  the calls of the client; a partial changes the template from there on.
\<close>

section \<open>Output\<close>

lemma put_all_append: "put_all ops s (xs @ ys) = do { s' \<leftarrow> put_all ops s xs; put_all ops s' ys }"
  by (induction xs arbitrary: s) (auto split: bind_splits)

lemma buffer_skip_output_loops [simp]:
  "b_loops st = ls \<Longrightarrow> buffer_skip_output (st\<lparr>b_output := out\<rparr>) = list_ex loop_skips ls"
  "b_loops st = ls \<Longrightarrow> buffer_skip_output (st\<lparr>b_world := w\<rparr>) = list_ex loop_skips ls"
  by (simp_all add: buffer_skip_output_def)

lemma buffer_output_shown:
  "put_all (se_output env) (b_output st) (shown (buffer_skip_output st) [t]) = Some out \<Longrightarrow>
    buffer_output env st t = Some (st\<lparr>b_output := out\<rparr>)"
  by (auto simp: buffer_output_def shown_def split: if_splits bind_splits)

lemma escape_output_shown:
  "put_all (se_output env) (b_output st) (shown (buffer_skip_output st) (map escape_char s)) = Some out \<Longrightarrow>
    escape_output env s st = Some (st\<lparr>b_output := out\<rparr>)"
proof (induction s arbitrary: st)
  case Nil
  then show ?case by (auto simp: shown_def split: if_splits)
next
  case (Cons c s)
  obtain out1 where out1: "put_all (se_output env) (b_output st) (shown (buffer_skip_output st) [escape_char c]) = Some out1"
      "put_all (se_output env) out1 (shown (buffer_skip_output st) (map escape_char s)) = Some out"
    using Cons.prems by (auto simp: shown_def split: if_splits bind_splits)
  have "buffer_skip_output (st\<lparr>b_output := out1\<rparr>) = buffer_skip_output st" by (simp add: buffer_skip_output_def)
  then show ?case
    using buffer_output_shown [OF out1(1)] Cons.IH [of "st\<lparr>b_output := out1\<rparr>"] out1(2) by simp
qed

text \<open>Where a rendering stands: its position, what has been read ahead of it, the open loops, the
  world and the output. \<open>F\<close> is a number of bytes that have been read before; it stays the same while
  the rendering goes forward.\<close>

definition ready where
  "ready rest good cl T st pos F ls w out \<longleftrightarrow>
     at_pos rest good cl T st pos \<and> b_fill st = max F (Suc pos) \<and> b_loops st = ls \<and> b_world st = w \<and> b_output st = out"

abbreviation skips :: "'h stache_loop list \<Rightarrow> bool" where
  "skips ls \<equiv> list_ex loop_skips (rev ls)"

lemma ready_same_run:
  assumes at: "ready rest good cl T st pos F ls w out" and at': "at_pos rest good cl T st' pos'" and run: "same_run st st'"
  shows "ready rest good cl T st' pos' F ls w out"
proof -
  have "b_fill st' = max (b_fill st) (Suc pos')" using same_run_fill [OF run at'] .
  moreover have "pos \<le> pos'" using at at' run by (simp add: ready_def at_pos_def same_run_def)
  ultimately have "b_fill st' = max F (Suc pos')" using at by (simp add: ready_def)
  then show ?thesis using at at' run by (simp add: ready_def same_run_def)
qed

lemma ready_forget: "ready rest good cl T st pos (max F k) ls w out \<Longrightarrow> k \<le> Suc pos \<Longrightarrow> ready rest good cl T st pos F ls w out"
  by (auto simp: ready_def)

lemma ready_skips: "ready rest good cl T st pos F ls w out \<Longrightarrow> buffer_skip_output st = skips ls"
  by (simp add: ready_def buffer_skip_output_def)

lemma c_name_no_nul: "NUL \<notin> set n \<Longrightarrow> c_name n = n"
  by (auto simp: c_name_def takeWhile_eq_all_conv)

text \<open>A string object is printed with what puts out its value.\<close>

lemma with_string_value:
  assumes "string_value (se_client env) h w = Some (s, w2)" "b_world st = w"
    and print: "\<And>w1. print (Some s) (st\<lparr>b_world := w1\<rparr>) = Some (st\<lparr>b_world := w1, b_output := out\<rparr>)"
  shows "with_string env h print st = Some (True, st\<lparr>b_world := w2, b_output := out\<rparr>)"
  using assms(1,2) by (auto simp: string_value_def with_string_def call_def print split: bind_splits prod.splits if_splits)

lemma print_raw_shown:
  assumes "put_all (se_output env) (b_output st) (shown (buffer_skip_output st) [s]) = Some out"
  shows "print_raw env (Some s) (st\<lparr>b_world := w\<rparr>) = Some (st\<lparr>b_world := w, b_output := out\<rparr>)"
  using assms buffer_output_shown [of env "st\<lparr>b_world := w\<rparr>" s out]
  by (auto simp: print_raw_def buffer_skip_output_def shown_def split: if_splits)

lemma print_escaped_shown:
  assumes "put_all (se_output env) (b_output st) (shown (buffer_skip_output st) (map escape_char s)) = Some out"
  shows "print_escaped env (Some s) (st\<lparr>b_world := w\<rparr>) = Some (st\<lparr>b_world := w, b_output := out\<rparr>)"
  using assms escape_output_shown [of env "st\<lparr>b_world := w\<rparr>" s out]
  by (simp add: print_escaped_def buffer_skip_output_def)

section \<open>One turn of the renderer\<close>

text \<open>What is left of a turn once its text or its tag is done.\<close>

abbreviation turn ::
  "('s, 'o, 'w, 'h, 'i) stache_env \<Rightarrow> (bool \<times> ('s, 'o, 'w, 'h, 'i) stache_state) option
    \<Rightarrow> (bool \<times> ('s, 'o, 'w, 'h, 'i) stache_state) option" where
  "turn env step \<equiv> do { (result, st) \<leftarrow> step; if result then render_template env st else Some (False, st) }"

context input_stream
begin

abbreviation at_node where
  "at_node env \<equiv> ready rest inv (se_client env)"

lemma text_turn:
  assumes env: "se_input env = ops" and at: "at_node env T st pos F ls w out"
    and drop: "drop pos T = c # r" and r: "r \<noteq> []" and c: "c \<noteq> CHR ''{''"
    and out: "put_all (se_output env) out (shown (skips ls) [[c]]) = Some out'"
  shows "\<exists>st'. render_template env st = render_template env st' \<and> at_node env T st' (Suc pos) F ls w out'"
proof -
  have st: "at_pos rest inv (se_client env) T st pos" "b_output st = out" using at by (auto simp: ready_def)
  have c': "T ! pos = c" "Suc pos < length T" using drop_Cons_nth [OF drop] r by (auto simp: not_le [symmetric])
  have look: "buffer_look_at env st (b_open st) = Some (False, st)"
    using look_at_differs [OF st(1), of "CHR ''{''"] c c'(1) at_pos_delimiters [OF st(1)] by simp
  have put: "buffer_output env st [c] = Some (st\<lparr>b_output := out'\<rparr>)"
    using buffer_output_shown [of env st "[c]" out'] out st(2) ready_skips [OF at] by simp
  obtain st' where st': "buffer_next env (st\<lparr>b_output := out'\<rparr>) = Some (True, st')"
      "same_run (st\<lparr>b_output := out'\<rparr>) st'" "at_pos rest inv (se_client env) T st' (Suc pos)"
    using buffer_next_at [OF env, of T "st\<lparr>b_output := out'\<rparr>" pos] st(1) c'(2) by auto
  have "render_template env st = render_template env st'"
    by (subst render_template.simps) (simp add: at_pos_not_eof [OF st(1)] look at_pos_item [OF st(1)] c'(1) put st'(1))
  moreover have "at_node env T (st\<lparr>b_output := out'\<rparr>) pos F ls w out'" using at by (simp add: ready_def)
  then have "at_node env T st' (Suc pos) F ls w out'" using ready_same_run [OF _ st'(3,2)] by blast
  ultimately show ?thesis by blast
qed

lemma text_turns:
  assumes env: "se_input env = ops" and "at_node env T st pos F ls w out" "drop pos T = t @ r" "r \<noteq> []" "CHR ''{'' \<notin> set t"
    and "put_all (se_output env) out (shown (skips ls) (map (\<lambda>c. [c]) t)) = Some out'"
  shows "\<exists>st'. render_template env st = render_template env st' \<and> at_node env T st' (pos + length t) F ls w out'"
  using assms(2,3,5,6)
proof (induction t arbitrary: st pos out)
  case Nil
  then show ?case by (auto simp: shown_def split: if_splits)
next
  case (Cons c t)
  obtain out1 where out1: "put_all (se_output env) out (shown (skips ls) [[c]]) = Some out1"
      "put_all (se_output env) out1 (shown (skips ls) (map (\<lambda>c. [c]) t)) = Some out'"
    using Cons.prems(4) by (auto simp: shown_def split: if_splits bind_splits)
  obtain st1 where st1: "render_template env st = render_template env st1" "at_node env T st1 (Suc pos) F ls w out1"
    using text_turn [OF env Cons.prems(1) _ _ _ out1(1), of "t @ r"] Cons.prems(2,3) assms(4) by auto
  have "drop (Suc pos) T = t @ r" using Cons.prems(2) drop_Cons_nth [of pos T c "t @ r"] by simp
  then obtain st2 where "render_template env st1 = render_template env st2" "at_node env T st2 (Suc pos + length t) F ls w out'"
    using Cons.IH [OF st1(2)] Cons.prems(3) out1(2) by auto
  then show ?case using st1(1) by auto
qed

text \<open>A tag is entered after its opening and the character that tells its kind.\<close>

lemma tag_turn:
  assumes env: "se_input env = ops" and at: "at_node env T st pos F ls w out"
    and drop: "drop pos T = ''{{'' @ c # r" and r: "r \<noteq> []"
  shows "\<exists>st1 st2. render_template env st = turn env (render_stache env (int pos) st1) \<and>
    buffer_next env st1 = Some (True, st2) \<and> buffer_item st1 = Some c \<and> \<not> buffer_eof st1 \<and>
    at_node env T st2 (pos + 3) F ls w out"
proof -
  have st: "at_pos rest inv (se_client env) T st pos" using at by (simp add: ready_def)
  obtain st1 where st1: "buffer_look_at env st ''{{'' = Some (True, st1)" "at_pos rest inv (se_client env) T st1 (pos + 2)" "same_run st st1"
    using look_at_matches [OF env st drop] by auto
  have tl: "drop (pos + 2) T = c # r" using drop_append_length [OF drop] by simp
  then have c: "T ! (pos + 2) = c" "Suc (pos + 2) < length T" using drop_Cons_nth [OF tl] r by (auto simp: not_le [symmetric])
  obtain st2 where st2: "buffer_next env st1 = Some (True, st2)" "same_run st1 st2" "at_pos rest inv (se_client env) T st2 (Suc (pos + 2))"
    using buffer_next_at [OF env st1(2)] c(2) by auto
  have "render_template env st = turn env (render_stache env (int pos) st1)"
    using at_pos_delimiters [OF st] st by (subst render_template.simps) (simp add: at_pos_not_eof [OF st] st1(1), simp add: at_pos_def)
  moreover have "at_node env T st2 (pos + 3) F ls w out"
    using ready_same_run [OF at st2(3) same_run_trans [OF st1(3) st2(2)]] by (simp add: numeral_3_eq_3)
  ultimately show ?thesis using st2(1) at_pos_item [OF st1(2)] c(1) at_pos_not_eof [OF st1(2)] by blast
qed

end

section \<open>The tags\<close>

context input_stream
begin

text \<open>The tags whose kind is a character, and the escaped variables that have none.\<close>

lemma kind_turn:
  assumes "se_input env = ops" "at_node env T st pos F ls w out" "drop pos T = ''{{'' @ c # r" "r \<noteq> []" "c \<in> set ''{#/^!''"
  shows "\<exists>st2. at_node env T st2 (pos + 3) F ls w out \<and> render_template env st = turn env
    (if c = CHR ''{'' then render_stache_raw env st2
     else if c = CHR ''#'' then render_stache_loop env Loop_while st2
     else if c = CHR ''/'' then render_stache_end env st2
     else if c = CHR ''^'' then render_stache_loop env Loop_else st2
     else render_stache_comment env st2)"
proof -
  obtain st1 st2 where st: "render_template env st = turn env (render_stache env (int pos) st1)"
      "buffer_next env st1 = Some (True, st2)" "buffer_item st1 = Some c" "\<not> buffer_eof st1" "at_node env T st2 (pos + 3) F ls w out"
    using tag_turn [OF assms(1-4)] by blast
  have "render_stache env (int pos) st1 =
    (if c = CHR ''{'' then render_stache_raw env st2
     else if c = CHR ''#'' then render_stache_loop env Loop_while st2
     else if c = CHR ''/'' then render_stache_end env st2
     else if c = CHR ''^'' then render_stache_loop env Loop_else st2
     else render_stache_comment env st2)"
    using assms(5) st(2-4) by (auto simp: render_stache_def render_stache_while_def render_stache_else_def)
  then show ?thesis using st(1,5) by (intro exI [of _ st2]) simp
qed

lemma variable_turn:
  assumes env: "se_input env = ops" and at: "at_node env T st pos F ls w out"
    and drop: "drop pos T = ''{{'' @ c # r" and r: "r \<noteq> []" and c: "c \<notin> set ''{#/^=!>''"
  shows "\<exists>st2. at_node env T st2 (pos + 2) (max F (pos + 4)) ls w out \<and>
    render_template env st = turn env (render_stache_escape env st2)"
proof -
  obtain st1 st2 where st: "render_template env st = turn env (render_stache env (int pos) st1)"
      "buffer_next env st1 = Some (True, st2)" "buffer_item st1 = Some c" "\<not> buffer_eof st1" "at_node env T st2 (pos + 3) F ls w out"
    using tag_turn [OF env at drop r] by blast
  have prev: "b_index st2 - 1 = int (pos + 2)" using st(5) by (simp add: ready_def at_pos_def)
  then have "at_node env T (st2\<lparr>b_index := b_index st2 - 1\<rparr>) (pos + 2) (max F (pos + 4)) ls w out"
    using st(5) at_pos_back [of rest inv "se_client env" T st2 "pos + 3" "pos + 2"] unfolding prev
    by (simp add: ready_def max_def)
  then show ?thesis using st(1-4) c by (auto simp: render_stache_def)
qed

lemma name_at:
  assumes env: "se_input env = ops" and at: "at_node env T st pos F ls w out" and drop: "drop pos T = n @ ''}}'' @ r"
    and r: "r \<noteq> []" and n: "wf_name n"
  shows "\<exists>st'. parse_name env NULL st = Some (Some n, st') \<and> at_node env T st' (pos + length n + 2) F ls w out"
proof -
  have st: "at_pos rest inv (se_client env) T st pos" using at by (simp add: ready_def)
  obtain st' where "parse_name env NULL st = Some (Some n, st')" "at_pos rest inv (se_client env) T st' (pos + length n + 2)" "same_run st st'"
    using parse_name_at [OF env st, of n "[]" r NULL] drop r n by (auto simp: wf_name_def)
  then show ?thesis using ready_same_run [OF at] by blast
qed

lemma raw_name_at:
  assumes env: "se_input env = ops" and at: "at_node env T st pos F ls w out" and drop: "drop pos T = n @ ''}}}'' @ r"
    and r: "r \<noteq> []" and n: "wf_name n"
  shows "\<exists>st'. parse_name env (Some ''}'') st = Some (Some n, st') \<and> at_node env T st' (pos + length n + 3) F ls w out"
proof -
  have st: "at_pos rest inv (se_client env) T st pos" using at by (simp add: ready_def)
  obtain st' where "parse_name env (Some ''}'') st = Some (Some n, st')" "at_pos rest inv (se_client env) T st' (pos + length n + 3)" "same_run st st'"
    using parse_name_at [OF env st, of n "''}''" r "Some ''}''"] drop r n by (auto simp: wf_name_def numeral_3_eq_3)
  then show ?thesis using ready_same_run [OF at] by blast
qed

lemma comment_at:
  assumes env: "se_input env = ops" and "at_node env T st pos F ls w out" "drop pos T = t @ ''}}'' @ r" "r \<noteq> []" "CHR ''}'' \<notin> set t"
  shows "\<exists>st'. render_stache_comment env st = Some (True, st') \<and> at_node env T st' (pos + length t + 2) F ls w out"
  using assms(2,3,5)
proof (induction t arbitrary: st pos)
  case Nil
  have st: "at_pos rest inv (se_client env) T st pos" using Nil.prems by (simp add: ready_def)
  obtain st' where st': "buffer_look_at env st ''}}'' = Some (True, st')" "at_pos rest inv (se_client env) T st' (pos + 2)" "same_run st st'"
    using look_at_matches [OF env st, of "''}}''" r] Nil.prems(2) assms(4) by auto
  then show ?case
    using ready_same_run [OF Nil.prems(1) st'(2,3)] at_pos_delimiters [OF st] by (subst render_stache_comment.simps) simp
next
  case (Cons c t)
  have st: "at_pos rest inv (se_client env) T st pos" using Cons.prems by (simp add: ready_def)
  have c: "T ! pos = c" "drop (Suc pos) T = t @ ''}}'' @ r" "Suc pos < length T"
    using drop_Cons_nth [of pos T c "t @ ''}}'' @ r"] Cons.prems(2) by (auto simp: not_le [symmetric])
  obtain st1 where st1: "buffer_next env st = Some (True, st1)" "same_run st st1" "at_pos rest inv (se_client env) T st1 (Suc pos)"
    using buffer_next_at [OF env st] c(3) by auto
  obtain st2 where st2: "render_stache_comment env st1 = Some (True, st2)" "at_node env T st2 (Suc pos + length t + 2) F ls w out"
    using Cons.IH [OF ready_same_run [OF Cons.prems(1) st1(3,2)] c(2)] Cons.prems(3) by auto
  have "buffer_look_at env st (b_close st) = Some (False, st)"
    using look_at_differs [OF st, of "CHR ''}''" env "''}''"] c(1) Cons.prems(3) at_pos_delimiters [OF st] by auto
  then show ?case using st1(1) st2 by (subst render_stache_comment.simps) simp
qed

end

section \<open>Values, sections and their ends\<close>

context input_stream
begin

lemma variable_node:
  assumes env: "se_input env = ops" and at: "at_node env T st pos F ls w out"
    and drop: "drop pos T = print_node (Variable n) @ r" and r: "r \<noteq> []" and wf: "wf_node (Variable n)"
  shows "\<exists>st1. render_template env st = turn env (render_value env (print_escaped env) n st1) \<and>
    at_node env T st1 (pos + length (print_node (Variable n))) F ls w out"
proof -
  have n: "n = hd n # tl n" "wf_name n" "c_name n = n" using wf by (auto simp: wf_name_def intro: c_name_no_nul)
  have "drop pos T = ''{{'' @ hd n # tl n @ ''}}'' @ r" using drop n(1) by (cases n) auto
  then obtain st1 where st1: "at_node env T st1 (pos + 2) (max F (pos + 4)) ls w out" "render_template env st = turn env (render_stache_escape env st1)"
    using variable_turn [OF env at, of "hd n"] wf by auto
  have "drop (pos + 2) T = n @ ''}}'' @ r" using drop_append_length [of pos T "''{{''"] drop by simp
  then obtain st2 where st2: "parse_name env NULL st1 = Some (Some n, st2)"
      "at_node env T st2 (pos + 2 + length n + 2) (max F (pos + 4)) ls w out"
    using name_at [OF env st1(1) _ r n(2)] by blast
  have "at_node env T st2 (pos + 2 + length n + 2) F ls w out" using ready_forget [OF st2(2)] by simp
  then show ?thesis
    using st1(2) st2(1) n by (intro exI [of _ st2]) (auto simp: render_stache_escape_def wf_name_def add.commute add.left_commute)
qed

lemma unescaped_node:
  assumes env: "se_input env = ops" and at: "at_node env T st pos F ls w out"
    and drop: "drop pos T = print_node (Unescaped n) @ r" and r: "r \<noteq> []" and wf: "wf_node (Unescaped n)"
  shows "\<exists>st1. render_template env st = turn env (render_value env (print_raw env) n st1) \<and>
    at_node env T st1 (pos + length (print_node (Unescaped n))) F ls w out"
proof -
  have n: "wf_name n" "c_name n = n" using wf by (auto simp: wf_name_def intro: c_name_no_nul)
  have "drop pos T = ''{{'' @ CHR ''{'' # n @ ''}}}'' @ r" using drop by simp
  then obtain st1 where st1: "at_node env T st1 (pos + 3) F ls w out" "render_template env st = turn env (render_stache_raw env st1)"
    using kind_turn [OF env at, of "CHR ''{''"] by auto
  have "drop (pos + 3) T = n @ ''}}}'' @ r" using drop_append_length [of pos T "''{{{''"] drop by (simp add: numeral_3_eq_3)
  then obtain st2 where st2: "parse_name env (Some ''}'') st1 = Some (Some n, st2)" "at_node env T st2 (pos + 3 + length n + 3) F ls w out"
    using raw_name_at [OF env st1(1) _ r n(1)] by blast
  then show ?thesis
    using st1(2) n by (intro exI [of _ st2]) (auto simp: render_stache_raw_def wf_name_def eval_nat_numeral)
qed

lemma value_missing:
  assumes "at_node env T st pos F ls w out" "sc_resolve (se_client env) n w = ((Cad_stache_not_found, h), w1)"
  shows "\<exists>st'. render_value env print n st = Some (True, st') \<and> at_node env T st' pos F ls w1 out"
  using assms by (auto simp: render_value_def resolve_def ready_def)

lemma value_string:
  assumes at: "at_node env T st pos F ls w out"
    and resolved: "sc_resolve (se_client env) n w = ((Cad_stache_string, h), w1)"
    and str: "string_value (se_client env) h w1 = Some (s, w2)"
    and print: "\<And>w. print (Some s) (st\<lparr>b_world := w\<rparr>) = Some (st\<lparr>b_world := w, b_output := out'\<rparr>)"
  shows "\<exists>st'. render_value env print n st = Some (True, st') \<and> at_node env T st' pos F ls w2 out'"
proof -
  have "with_string env h print (st\<lparr>b_world := w1\<rparr>) = Some (True, st\<lparr>b_world := w2, b_output := out'\<rparr>)"
    using with_string_value [OF str, of "st\<lparr>b_world := w1\<rparr>" print out'] print by simp
  then show ?thesis using at resolved by (auto simp: render_value_def resolve_def ready_def)
qed

lemma open_node:
  assumes env: "se_input env = ops" and at: "at_node env T st pos F ls w out"
    and drop: "drop pos T = ''{{'' @ c # n @ ''}}'' @ r" and r: "r \<noteq> []" and n: "wf_name n"
    and c: "c = CHR ''#'' \<and> type = Loop_while \<or> c = CHR ''^'' \<and> type = Loop_else"
  shows "\<exists>st1. render_template env st = turn env (open_loop env type n st1) \<and> at_node env T st1 (pos + length n + 5) F ls w out"
proof -
  have n': "c_name n = n" using n by (auto simp: wf_name_def intro: c_name_no_nul)
  obtain st1 where st1: "at_node env T st1 (pos + 3) F ls w out" "render_template env st = turn env (render_stache_loop env type st1)"
    using kind_turn [OF env at drop] c by auto
  have "drop (pos + 3) T = n @ ''}}'' @ r" using drop_append_length [of pos T "''{{'' @ [c]"] drop by (simp add: numeral_3_eq_3)
  then obtain st2 where st2: "parse_name env NULL st1 = Some (Some n, st2)" "at_node env T st2 (pos + 3 + length n + 2) F ls w out"
    using name_at [OF env st1(1) _ r n] by blast
  then show ?thesis
    using st1(2) n' by (intro exI [of _ st2]) (auto simp: render_stache_loop_def eval_nat_numeral)
qed

lemma end_node:
  assumes env: "se_input env = ops" and at: "at_node env T st pos F ls w out"
    and drop: "drop pos T = ''{{/'' @ n @ ''}}'' @ r" and r: "r \<noteq> []" and n: "wf_name n"
  shows "\<exists>st1. at_node env T st1 (pos + length n + 5) F ls w out \<and> render_template env st = turn env (close_loop env n st1)"
proof -
  have n': "c_name n = n" using n by (auto simp: wf_name_def intro: c_name_no_nul)
  have "drop pos T = ''{{'' @ CHR ''/'' # n @ ''}}'' @ r" using drop by simp
  then obtain st1 where st1: "at_node env T st1 (pos + 3) F ls w out" "render_template env st = turn env (render_stache_end env st1)"
    using kind_turn [OF env at, of "CHR ''/''"] by auto
  have "drop (pos + 3) T = n @ ''}}'' @ r" using drop_append_length [of pos T "''{{/''"] drop by (simp add: numeral_3_eq_3)
  then obtain st2 where st2: "parse_name env NULL st1 = Some (Some n, st2)" "at_node env T st2 (pos + 3 + length n + 2) F ls w out"
    using name_at [OF env st1(1) _ r n] by blast
  then show ?thesis using st1(2) n' by (intro exI [of _ st2]) (simp add: render_stache_end_def eval_nat_numeral)
qed

lemma close_node:
  assumes "se_input env = ops" "at_node env T st pos F (ls @ [l]) w out"
    and "drop pos T = ''{{/'' @ n @ ''}}'' @ r" "r \<noteq> []" "wf_name n" and l: "sl_name l = Some n"
  shows "\<exists>st1. at_node env T st1 (pos + length n + 5) F (ls @ [l]) w out \<and> render_template env st = turn env
    (case sl_lookup l of
       Cad_stache_list \<Rightarrow> list_turn env l st1
     | Other_type \<Rightarrow> Some (True, st1)
     | _ \<Rightarrow> Some (True, st1\<lparr>b_loops := ls\<rparr>))"
proof -
  obtain st1 where st1: "at_node env T st1 (pos + length n + 5) F (ls @ [l]) w out"
      "render_template env st = turn env (close_loop env n st1)"
    using end_node [OF assms(1-5)] by blast
  then have "b_loops st1 = ls @ [l]" by (simp add: ready_def)
  then show ?thesis
    using st1 l by (intro exI [of _ st1]) (simp add: close_loop_def split: cad_stache_lookup_type.split)
qed

end

text \<open>The loop that a section over a list opens, with its body at \<open>pos\<close>.\<close>

definition list_loop :: "loop_type \<Rightarrow> cstring \<Rightarrow> 'h \<Rightarrow> nat \<Rightarrow> bool \<Rightarrow> nat \<Rightarrow> 'h stache_loop" where
  "list_loop lt n h pos e i =
     \<lparr>sl_type = lt, sl_name = Some n, sl_lookup = Cad_stache_list, sl_resolved = Some h,
      sl_buffer_index = int pos, sl_loop_index = i, sl_empty = e\<rparr>"

context input_stream
begin

text \<open>A section that is not over a list.\<close>

lemma open_truth:
  assumes at: "at_node env T st pos F ls w out" and resolved: "sc_resolve (se_client env) n w = ((type, h), w1)"
    and truth: "truth (se_client env) type h w1 = Some (b, w2)"
  shows "\<exists>l st'. open_loop env lt n st = Some (True, st') \<and> at_node env T st' pos F (ls @ [l]) w2 out \<and>
    sl_name l = Some n \<and> sl_lookup l \<in> {Cad_stache_not_found, Cad_stache_string} \<and>
    loop_skips l = (if lt = Loop_while then \<not> b else b)"
proof (cases type)
  case Cad_stache_not_found
  then show ?thesis
    using at truth by (auto simp: open_loop_def resolve_def resolved truth_def loop_empty_def ready_def loop_skips_def)
next
  case Cad_stache_string
  obtain v w' where v: "(case sc_string_get (se_client env) h of None \<Rightarrow> (NULL, w1) | Some get \<Rightarrow> get w1) = (v, w')"
    by fastforce
  then obtain free where free: "sc_string_free (se_client env) h = Some free" "free w' = (True, w2)" "b = (v \<noteq> NULL \<and> v \<noteq> Some [])"
    using truth Cad_stache_string by (auto simp: truth_def split: bind_splits prod.splits if_splits)
  have "string_empty env h (st\<lparr>b_world := w1\<rparr>) = Some (\<not> b, True, st\<lparr>b_world := w2\<rparr>)"
    using v free at
    by (cases "sc_string_get (se_client env) h") (auto simp: string_empty_def release_def call_def ready_def)
  then show ?thesis
    using at Cad_stache_string by (auto simp: open_loop_def resolve_def resolved loop_empty_def ready_def loop_skips_def)
qed (use truth in \<open>simp_all add: truth_def\<close>)

lemma close_truth:
  assumes "se_input env = ops" "at_node env T st pos F (ls @ [l]) w out" "drop pos T = ''{{/'' @ n @ ''}}'' @ r" "r \<noteq> []"
    and "wf_name n" "sl_name l = Some n" and type: "sl_lookup l \<in> {Cad_stache_not_found, Cad_stache_string}"
  shows "\<exists>st'. render_template env st = render_template env st' \<and> at_node env T st' (pos + length n + 5) F ls w out"
proof -
  obtain st1 where "at_node env T st1 (pos + length n + 5) F (ls @ [l]) w out" "render_template env st = turn env
    (case sl_lookup l of Cad_stache_list \<Rightarrow> list_turn env l st1 | Other_type \<Rightarrow> Some (True, st1)
     | _ \<Rightarrow> Some (True, st1\<lparr>b_loops := ls\<rparr>))"
    using close_node [OF assms(1-6)] by blast
  then show ?thesis using type by (intro exI [of _ "st1\<lparr>b_loops := ls\<rparr>"]) (auto simp: ready_def)
qed

text \<open>A section over a list: the loop that is opened, and the end of a turn.\<close>

lemma open_list:
  assumes at: "at_node env T st pos F ls w out" and resolved: "sc_resolve (se_client env) n w = ((Cad_stache_list, h), w1)"
    and get: "sc_list_get (se_client env) h = Some get" "get 0 w1 = (b, w2)"
  shows "\<exists>st'. open_loop env lt n st = Some (True, st') \<and> at_node env T st' pos F (ls @ [list_loop lt n h pos (\<not> b) 0]) w2 out"
proof -
  have "b_index st = int pos" using at by (simp add: ready_def at_pos_def)
  then show ?thesis
    using at get by (auto simp: open_loop_def resolve_def resolved loop_empty_def list_empty_def call_def list_loop_def ready_def)
qed

lemma close_list:
  assumes "se_input env = ops" "at_node env T st pos F (ls @ [list_loop lt n h bpos e i]) w out"
    and "drop pos T = ''{{/'' @ n @ ''}}'' @ r" "r \<noteq> []" "wf_name n"
    and get: "lt = Loop_else \<and> w1 = w \<or> lt = Loop_while \<and> sc_list_get (se_client env) h = Some get \<and> get (Suc i) w = (False, w1)"
    and close: "sc_list_close (se_client env) h = Some close" "close w1 = (True, w2)"
  shows "\<exists>st'. render_template env st = render_template env st' \<and> at_node env T st' (pos + length n + 5) F ls w2 out"
proof -
  let ?l = "list_loop lt n h bpos e i"
  obtain st1 where st1: "at_node env T st1 (pos + length n + 5) F (ls @ [?l]) w out"
      "render_template env st = turn env (list_turn env ?l st1)"
    using close_node [OF assms(1-5)] by (auto simp: list_loop_def)
  then have "b_loops st1 = ls @ [?l]" "b_world st1 = w" by (simp_all add: ready_def)
  then have "list_turn env ?l st1 = Some (True, st1\<lparr>b_world := w2, b_loops := ls\<rparr>)"
    using get close by (auto simp: list_turn_def list_loop_def call_def Let_def)
  then show ?thesis using st1 by (intro exI [of _ "st1\<lparr>b_world := w2, b_loops := ls\<rparr>"]) (auto simp: ready_def)
qed

lemma repeat_list:
  assumes "se_input env = ops" "at_node env T st pos F (ls @ [list_loop Loop_while n h bpos e i]) w out"
    and "drop pos T = ''{{/'' @ n @ ''}}'' @ r" "r \<noteq> []" "wf_name n"
    and get: "sc_list_get (se_client env) h = Some get" "get (Suc i) w = (True, w1)" and bpos: "bpos \<le> pos"
  shows "\<exists>st'. render_template env st = render_template env st' \<and>
    at_node env T st' bpos (max F (pos + length n + 6)) (ls @ [list_loop Loop_while n h bpos e (Suc i)]) w1 out"
proof -
  let ?l = "list_loop Loop_while n h bpos e i" and ?l' = "list_loop Loop_while n h bpos e (Suc i)"
  obtain st1 where st1: "at_node env T st1 (pos + length n + 5) F (ls @ [?l]) w out"
      "render_template env st = turn env (list_turn env ?l st1)"
    using close_node [OF assms(1-5)] by (auto simp: list_loop_def)
  let ?st = "st1\<lparr>b_world := w1, b_loops := ls @ [?l'], b_index := int bpos\<rparr>"
  have "b_loops st1 = ls @ [?l]" "b_world st1 = w" using st1 by (simp_all add: ready_def)
  then have "list_turn env ?l st1 = Some (True, ?st)"
    using get by (simp add: list_turn_def list_loop_def call_def Let_def)
  moreover have "at_pos rest inv (se_client env) T ?st bpos"
    by (rule at_pos_back [of _ _ _ _ _ "pos + length n + 5"]) (use st1(1) bpos in \<open>simp_all add: ready_def\<close>)
  then have "at_node env T ?st bpos (max F (pos + length n + 6)) (ls @ [?l']) w1 out"
    using st1(1) bpos by (simp add: ready_def max_def)
  ultimately show ?thesis using st1(2) by (intro exI [of _ ?st]) simp
qed

end

section \<open>Partials\<close>

context input_stream
begin

text \<open>The tag of a partial, up to its end: what has been read ends with the byte after it.\<close>

lemma partial_turn:
  assumes env: "se_input env = ops" and at: "at_node env T st pos F ls w out" and F: "F \<le> Suc pos"
    and drop: "drop pos T = ''{{>'' @ n @ ''}}'' @ c # u" and n: "wf_name n"
  shows "\<exists>st2 st3. render_template env st = turn env (render_stache_partial env (int pos) st2) \<and>
    parse_name env NULL st2 = Some (Some n, st3) \<and> at_node env T st3 (pos + length n + 5) F ls w out \<and>
    b_fill st3 = Suc (pos + length n + 5) \<and> drop (pos + length n + 5) T = c # u"
proof -
  have "drop pos T = ''{{'' @ CHR ''>'' # n @ ''}}'' @ c # u" using drop by simp
  then obtain st1 st2 where st2: "render_template env st = turn env (render_stache env (int pos) st1)"
      "buffer_next env st1 = Some (True, st2)" "buffer_item st1 = Some CHR ''>''" "\<not> buffer_eof st1"
      "at_node env T st2 (pos + 3) F ls w out"
    using tag_turn [OF env at] by blast
  have "drop (pos + 3) T = n @ ''}}'' @ c # u" using drop_append_length [of pos T "''{{>''"] drop by (simp add: eval_nat_numeral)
  then obtain st3 where "parse_name env NULL st2 = Some (Some n, st3)" "at_node env T st3 (pos + 3 + length n + 2) F ls w out"
    using name_at [OF env st2(5) _ _ n] by blast
  moreover have "pos + 3 + length n + 2 = pos + length n + 5" by simp
  ultimately have st3: "parse_name env NULL st2 = Some (Some n, st3)" "at_node env T st3 (pos + length n + 5) F ls w out"
    by metis+
  have "drop (pos + length n + 5) T = c # u"
    using drop_append_length [of pos T "''{{>'' @ n @ ''}}''"] drop by (simp add: eval_nat_numeral)
  moreover have "b_fill st3 = Suc (pos + length n + 5)" using st3(2) F by (simp add: ready_def)
  moreover have "render_template env st = turn env (render_stache_partial env (int pos) st2)"
    using st2(1-4) by (simp add: render_stache_def)
  ultimately show ?thesis using st3 by blast
qed

text \<open>The tag is taken out of the buffer, and what comes in its place is read on.\<close>

lemma splice:
  assumes env: "se_input env = ops" and at: "at_pos rest inv (se_client env) T st p" and fill: "b_fill st = Suc p"
    and pos: "pos \<le> p" and drop: "drop p T = c # u"
    and st': "st' = st\<lparr>b_world := w, b_partials := ps, b_index := int pos - 1, b_fill := pos\<rparr>"
    and ps: "list_all (string_partial (se_client env)) ps" "to_come ps @ rest (b_input st) = drop pos V"
    and V: "take pos V = take pos T" "CHR 0xFF \<notin> set V" "length V \<le> 2 ^ 29" "pos < length V"
  shows "\<exists>st''. buffer_next env st' = Some (True, st'') \<and> same_run st' st'' \<and> at_pos rest inv (se_client env) V st'' pos"
proof -
  have "take pos (b_data st) = take pos T"
    using at fill pos by (auto simp: at_pos_def reading_def min_def dest: arg_cong [of _ _ "take pos"])
  then have "reading rest inv (se_client env) V st'"
    using at fill pos ps V by (auto simp: st' at_pos_def reading_def)
  then show ?thesis
    using buffer_next_frontier [OF env, of V st'] V(4) by (auto simp: st')
qed

end

context input_stream
begin

text \<open>The text of a partial comes in the place of its tag. The byte after the tag has been read already;
  it is saved with the partial.\<close>

lemma partial_opens:
  assumes env: "se_input env = ops" and at: "at_node env (a @ ''{{>'' @ n @ ''}}'' @ c # u) st (length a) F ls w out"
    and F: "F \<le> Suc (length a)" and n: "wf_name n" and resolved: "sc_resolve (se_client env) n w = ((Cad_stache_string, h), w1)"
    and get: "sc_string_get (se_client env) h = Some get" "get w1 = (Some p, w2)" "quiet_free (se_client env) h"
    and p: "valid_cstring p" "CHR 0xFF \<notin> set p" "length (a @ p @ c # u) \<le> 2 ^ 29"
  shows "\<exists>st'. render_template env st = render_template env st' \<and> at_node env (a @ p @ c # u) st' (length a) F ls w2 out"
proof -
  let ?T = "a @ ''{{>'' @ n @ ''}}'' @ c # u" and ?V = "a @ p @ c # u"
  let ?p = "length a + length n + 5"
  have n': "c_name n = n" using n by (auto simp: wf_name_def intro: c_name_no_nul)
  obtain st2 st3 where st3: "render_template env st = turn env (render_stache_partial env (int (length a)) st2)"
      "parse_name env NULL st2 = Some (Some n, st3)" "at_node env ?T st3 ?p F ls w out" "b_fill st3 = Suc ?p" "drop ?p ?T = c # u"
    using partial_turn [OF env at F _ n] by auto
  have at3: "at_pos rest inv (se_client env) ?T st3 ?p" "b_loops st3 = ls" "b_world st3 = w" "b_output st3 = out"
    using st3(3) by (simp_all add: ready_def)
  have tl: "to_come (b_partials st3) @ rest (b_input st3) = u"
    using at3(1) st3(4) drop_Cons_nth [OF st3(5)] by (simp add: at_pos_def reading_def)
  define t where "t = \<lparr>iss_string = p, iss_index = 0\<rparr>"
  have t: "new_cad_input_stream_from_string True p = Some t" "string_inv t" "string_rest t = p"
    using p(1) by (simp_all add: t_def new_cad_input_stream_from_string_def string_inv_def string_rest_def)
  let ?ps = "b_partials st3 @ [\<lparr>sp_lookup = Cad_stache_string, sp_resolved = h, sp_stream = String_stream t, sp_save = c\<rparr>]"
  let ?st4 = "st3\<lparr>b_world := w2, b_partials := ?ps, b_index := int (length a) - 1, b_fill := length a\<rparr>"
  have bytes: "CHR 0xFF \<notin> set ?T" "list_all (string_partial (se_client env)) (b_partials st3)"
    using at3(1) by (auto simp: at_pos_def reading_def)
  obtain st5 where st5: "buffer_next env ?st4 = Some (True, st5)" "same_run ?st4 st5" "at_pos rest inv (se_client env) ?V st5 (length a)"
    using splice [OF env at3(1) st3(4) _ st3(5) refl, of "length a" ?ps ?V w2] bytes t(2,3) get(3) p(2,3) tl
    by (auto simp: string_partial_def partial_text_def)
  have item: "buffer_item (st3\<lparr>b_world := w2\<rparr>) = Some c"
    using at_pos_item [of rest inv "se_client env" ?T "st3\<lparr>b_world := w2\<rparr>" ?p] at3(1) drop_Cons_nth [OF st3(5)] by simp
  have "render_stache_partial env (int (length a)) st2 = Some (True, st5)"
    using st3(2) n' resolved get t(1) item at3(3) st5(1)
    by (simp add: render_stache_partial_def resolve_def partial_source_def call_def)
  then have "render_template env st = render_template env st5" using st3(1) by simp
  moreover have "b_fill st5 = Suc (length a)" using same_run_fill [OF st5(2,3)] by simp
  then have "at_node env ?V st5 (length a) F ls w2 out"
    using st5(2,3) at3(2,4) F by (simp add: ready_def same_run_def max_def)
  ultimately show ?thesis by blast
qed

text \<open>A partial that is not found: the byte after its tag goes with it.\<close>

lemma partial_missing:
  assumes env: "se_input env = ops" and at: "at_node env (a @ ''{{>'' @ n @ ''}}'' @ c # u) st (length a) F ls w out"
    and F: "F \<le> Suc (length a)" and n: "wf_name n" and u: "u \<noteq> []"
    and resolved: "sc_resolve (se_client env) n w = ((Cad_stache_not_found, h), w1)"
  shows "\<exists>st'. render_template env st = render_template env st' \<and> at_node env (a @ u) st' (length a) F ls w1 out"
proof -
  let ?T = "a @ ''{{>'' @ n @ ''}}'' @ c # u" and ?V = "a @ u"
  let ?p = "length a + length n + 5"
  have n': "c_name n = n" using n by (auto simp: wf_name_def intro: c_name_no_nul)
  obtain st2 st3 where st3: "render_template env st = turn env (render_stache_partial env (int (length a)) st2)"
      "parse_name env NULL st2 = Some (Some n, st3)" "at_node env ?T st3 ?p F ls w out" "b_fill st3 = Suc ?p" "drop ?p ?T = c # u"
    using partial_turn [OF env at F _ n] by auto
  have at3: "at_pos rest inv (se_client env) ?T st3 ?p" "b_loops st3 = ls" "b_world st3 = w" "b_output st3 = out"
    using st3(3) by (simp_all add: ready_def)
  have tl: "to_come (b_partials st3) @ rest (b_input st3) = u"
    using at3(1) st3(4) drop_Cons_nth [OF st3(5)] by (simp add: at_pos_def reading_def)
  let ?st4 = "st3\<lparr>b_world := w1, b_partials := b_partials st3, b_index := int (length a) - 1, b_fill := length a\<rparr>"
  have bytes: "CHR 0xFF \<notin> set ?T" "length ?T \<le> 2 ^ 29" "list_all (string_partial (se_client env)) (b_partials st3)"
    using at3(1) by (auto simp: at_pos_def reading_def)
  obtain st5 where st5: "buffer_next env ?st4 = Some (True, st5)" "same_run ?st4 st5" "at_pos rest inv (se_client env) ?V st5 (length a)"
    using splice [OF env at3(1) st3(4) _ st3(5) refl, of "length a" "b_partials st3" ?V w1] bytes u tl by auto
  have "render_stache_partial env (int (length a)) st2 = Some (True, st5)"
    using st3(2) n' resolved at3(3) st5(1) by (simp add: render_stache_partial_def resolve_def partial_source_def)
  then have "render_template env st = render_template env st5" using st3(1) by simp
  moreover have "b_fill st5 = Suc (length a)" using same_run_fill [OF st5(2,3)] by simp
  then have "at_node env ?V st5 (length a) F ls w1 out"
    using st5(2,3) at3(2,4) F by (simp add: ready_def same_run_def max_def)
  ultimately show ?thesis by blast
qed

end

section \<open>Texts, comments and variables\<close>

context input_stream
begin

text \<open>The nodes that are not sections.\<close>

lemma text_node:
  assumes env: "se_input env = ops" and at: "at_node env T st pos F ls w out"
    and drop: "drop pos T = print_node (Text t) @ r" and r: "r \<noteq> []" and wf: "wf_node (Text t)"
    and skip: "skips ls = skip" and out: "put_all (se_output env) out (shown skip (map (\<lambda>c. [c]) t)) = Some out1"
  shows "\<exists>st'. render_template env st = render_template env st' \<and> at_node env T st' (pos + length (print_node (Text t))) F ls w out1"
  using text_turns [OF env at _ r, of t out1] drop wf out unfolding skip [symmetric] by auto

lemma comment_node:
  assumes env: "se_input env = ops" and at: "at_node env T st pos F ls w out"
    and drop: "drop pos T = print_node (Comment c) @ r" and r: "r \<noteq> []" and wf: "wf_node (Comment c)"
  shows "\<exists>st'. render_template env st = render_template env st' \<and> at_node env T st' (pos + length (print_node (Comment c))) F ls w out"
proof -
  have "drop pos T = ''{{'' @ CHR ''!'' # c @ ''}}'' @ r" using drop by simp
  then obtain st1 where st1: "at_node env T st1 (pos + 3) F ls w out" "render_template env st = turn env (render_stache_comment env st1)"
    using kind_turn [OF env at, of "CHR ''!''"] by auto
  have "drop (pos + 3) T = c @ ''}}'' @ r" using drop_append_length [of pos T "''{{!''"] drop by (simp add: eval_nat_numeral)
  then obtain st2 where "render_stache_comment env st1 = Some (True, st2)" "at_node env T st2 (pos + 3 + length c + 2) F ls w out"
    using comment_at [OF env st1(1) _ r] wf by auto
  then show ?thesis using st1(2) by (intro exI [of _ st2]) (simp add: eval_nat_numeral)
qed

lemma missing_node:
  assumes env: "se_input env = ops" and at: "at_node env T st pos F ls w out"
    and v: "v = Variable n \<or> v = Unescaped n" and drop: "drop pos T = print_node v @ r" and r: "r \<noteq> []" and wf: "wf_node v"
    and resolved: "sc_resolve (se_client env) n w = ((Cad_stache_not_found, h), w1)"
  shows "\<exists>st'. render_template env st = render_template env st' \<and> at_node env T st' (pos + length (print_node v)) F ls w1 out"
proof -
  obtain print st1 where st1: "render_template env st = turn env (render_value env print n st1)"
      "at_node env T st1 (pos + length (print_node v)) F ls w out"
    using v variable_node [OF env at _ r, of n] unescaped_node [OF env at _ r, of n] drop wf by blast
  then show ?thesis using value_missing [OF st1(2) resolved, of print] by auto
qed

lemma variable_value_node:
  assumes env: "se_input env = ops" and at: "at_node env T st pos F ls w out"
    and drop: "drop pos T = print_node (Variable n) @ r" and r: "r \<noteq> []" and wf: "wf_node (Variable n)"
    and resolved: "sc_resolve (se_client env) n w = ((Cad_stache_string, h), w1)"
    and str: "string_value (se_client env) h w1 = Some (s, w2)"
    and out: "put_all (se_output env) out (shown (skips ls) (map escape_char s)) = Some out1"
  shows "\<exists>st'. render_template env st = render_template env st' \<and> at_node env T st' (pos + length (print_node (Variable n))) F ls w2 out1"
proof -
  obtain st1 where st1: "render_template env st = turn env (render_value env (print_escaped env) n st1)"
      "at_node env T st1 (pos + length (print_node (Variable n))) F ls w out"
    using variable_node [OF env at drop r wf] by blast
  have "put_all (se_output env) (b_output st1) (shown (buffer_skip_output st1) (map escape_char s)) = Some out1"
    using out st1(2) ready_skips [OF st1(2)] by (simp add: ready_def)
  then show ?thesis
    using value_string [OF st1(2) resolved str, of "print_escaped env", OF print_escaped_shown] st1(1) by auto
qed

lemma unescaped_value_node:
  assumes env: "se_input env = ops" and at: "at_node env T st pos F ls w out"
    and drop: "drop pos T = print_node (Unescaped n) @ r" and r: "r \<noteq> []" and wf: "wf_node (Unescaped n)"
    and resolved: "sc_resolve (se_client env) n w = ((Cad_stache_string, h), w1)"
    and str: "string_value (se_client env) h w1 = Some (s, w2)"
    and out: "put_all (se_output env) out (shown (skips ls) [s]) = Some out1"
  shows "\<exists>st'. render_template env st = render_template env st' \<and> at_node env T st' (pos + length (print_node (Unescaped n))) F ls w2 out1"
proof -
  obtain st1 where st1: "render_template env st = turn env (render_value env (print_raw env) n st1)"
      "at_node env T st1 (pos + length (print_node (Unescaped n))) F ls w out"
    using unescaped_node [OF env at drop r wf] by blast
  have "put_all (se_output env) (b_output st1) (shown (buffer_skip_output st1) [s]) = Some out1"
    using out st1(2) ready_skips [OF st1(2)] by (simp add: ready_def)
  then show ?thesis
    using value_string [OF st1(2) resolved str, of "print_raw env", OF print_raw_shown] st1(1) by auto
qed

end

end
