(* ===== verification/Cad_Stache_Sim.thy ===== *)
theory Cad_Stache_Sim
  imports Cad_Stache_Tags
begin

text \<open>
  The engine follows the meaning of the template, and comes to the output and the world of the
  big-step relation. The nodes are composed by rule induction on the relation, as the simulation of
  a compiler is.
\<close>

section \<open>The simulation\<close>

context input_stream
begin

text \<open>From the beginning of the text of the nodes to its end: in the template, they are replaced by the
  nodes that are left. What has been read before ends where the nodes begin, unless they hold no
  partial.\<close>

abbreviation follows where
  "follows env skip ns w ts w' us g \<equiv> \<forall>a st F ls out out' r.
     at_node env (a @ print_nodes ns @ r) st (length a) F ls w out \<longrightarrow> r \<noteq> [] \<longrightarrow> list_all wf_node ns \<longrightarrow>
     skips ls = skip \<longrightarrow> F \<le> Suc (length a) \<or> list_all expanded ns \<longrightarrow> length (a @ print_nodes ns @ r) + g \<le> 2 ^ 29 \<longrightarrow>
     put_all (se_output env) out ts = Some out' \<longrightarrow>
     (\<exists>st'. render_template env st = render_template env st' \<and>
        at_node env (a @ print_nodes us @ r) st' (length (a @ print_nodes us)) F ls w' out')"

text \<open>From the beginning of the body of a list section, with the loop open, to the end of its end tag.\<close>

abbreviation follows_list where
  "follows_list env skip h body i w ts w' us g \<equiv> \<forall>a st F ls out out' r n e.
     at_node env (a @ print_nodes body @ ''{{/'' @ n @ ''}}'' @ r) st (length a) F
       (ls @ [list_loop Loop_while n h (length a) e i]) w out \<longrightarrow>
     r \<noteq> [] \<longrightarrow> list_all wf_node body \<longrightarrow> wf_name n \<longrightarrow>
     skip = (skips ls \<or> e) \<longrightarrow> F \<le> Suc (length a) \<or> list_all expanded body \<longrightarrow>
     length (a @ print_nodes body @ ''{{/'' @ n @ ''}}'' @ r) + g \<le> 2 ^ 29 \<longrightarrow>
     put_all (se_output env) out ts = Some out' \<longrightarrow>
     (\<exists>st'. render_template env st = render_template env st' \<and>
        at_node env (a @ print_nodes us @ ''{{/'' @ n @ ''}}'' @ r) st' (length (a @ print_nodes us) + length n + 5) F ls w' out')"

lemma node_follows:
  fixes env :: "('s, 'o, 'w, 'h, 'i) stache_env"
  assumes first: "\<And>a st F ls out out1 r. at_node env (a @ print_node v @ r) st (length a) F ls w out \<Longrightarrow> r \<noteq> [] \<Longrightarrow>
      wf_node v \<Longrightarrow> skips ls = skip \<Longrightarrow> F \<le> Suc (length a) \<or> expanded v \<Longrightarrow> length (a @ print_node v @ r) + g \<le> 2 ^ 29 \<Longrightarrow>
      put_all (se_output env) out ts1 = Some out1 \<Longrightarrow>
      \<exists>st1. render_template env st = render_template env st1 \<and> at_node env (a @ print_node u @ r) st1 (length (a @ print_node u)) F ls w1 out1"
    and left: "follows env skip ns w1 ts w' us g'" and len: "length (print_node u) \<le> length (print_node v) + g"
  shows "follows env skip (v # ns) w (ts1 @ ts) w' (u # us) (g + g')"
proof (intro allI impI)
  fix a F ls out out' r and st :: "('s, 'o, 'w, 'h, 'i) stache_state"
  assume at: "at_node env (a @ print_nodes (v # ns) @ r) st (length a) F ls w out" and r: "r \<noteq> []"
    and wf: "list_all wf_node (v # ns)" and skip: "skips ls = skip" and F: "F \<le> Suc (length a) \<or> list_all expanded (v # ns)"
    and g: "length (a @ print_nodes (v # ns) @ r) + (g + g') \<le> 2 ^ 29" and out: "put_all (se_output env) out (ts1 @ ts) = Some out'"
  obtain out1 where out1: "put_all (se_output env) out ts1 = Some out1" "put_all (se_output env) out1 ts = Some out'"
    using out by (auto simp: put_all_append split: bind_splits)
  let ?a = "a @ print_node u"
  obtain st1 where st1: "render_template env st = render_template env st1"
      "at_node env (?a @ print_nodes ns @ r) st1 (length ?a) F ls w1 out1"
    using first [of a "print_nodes ns @ r" st F ls out out1] at r wf skip F g out1(1) by auto
  obtain st' where "render_template env st1 = render_template env st'"
      "at_node env (?a @ print_nodes us @ r) st' (length (?a @ print_nodes us)) F ls w' out'"
    using left [rule_format, OF st1(2) r _ skip _ _ out1(2)] wf F g len by auto
  then show "\<exists>st'. render_template env st = render_template env st' \<and>
      at_node env (a @ print_nodes (u # us) @ r) st' (length (a @ print_nodes (u # us))) F ls w' out'"
    using st1(1) by auto
qed

text \<open>A node that leaves the template as it is.\<close>

lemma plain_node_follows:
  fixes env :: "('s, 'o, 'w, 'h, 'i) stache_env"
  assumes first: "\<And>T st pos F ls out out1 r. at_node env T st pos F ls w out \<Longrightarrow> drop pos T = print_node v @ r \<Longrightarrow> r \<noteq> [] \<Longrightarrow>
      wf_node v \<Longrightarrow> skips ls = skip \<Longrightarrow> put_all (se_output env) out ts1 = Some out1 \<Longrightarrow>
      \<exists>st1. render_template env st = render_template env st1 \<and> at_node env T st1 (pos + length (print_node v)) F ls w1 out1"
    and "follows env skip ns w1 ts w' us g"
  shows "follows env skip (v # ns) w (ts1 @ ts) w' (v # us) g"
  by (rule node_follows [where g = 0 and g' = g, unfolded add_0, OF _ assms(2)]) (use first in auto)

lemma silent_node_follows:
  fixes env :: "('s, 'o, 'w, 'h, 'i) stache_env"
  assumes "\<And>T st pos F ls out r. at_node env T st pos F ls w out \<Longrightarrow> drop pos T = print_node v @ r \<Longrightarrow> r \<noteq> [] \<Longrightarrow>
      wf_node v \<Longrightarrow> \<exists>st1. render_template env st = render_template env st1 \<and> at_node env T st1 (pos + length (print_node v)) F ls w1 out"
    and "follows env skip ns w1 ts w' us g"
  shows "follows env skip (v # ns) w ts w' (v # us) g"
  using plain_node_follows [of env w v skip "[]" w1, OF _ assms(2)] assms(1) by (simp only: put_all.simps option.inject append_Nil) blast

end

context input_stream
begin

lemma drop_here: "drop (length (a @ x)) (a @ x @ y) = y"
  by simp

text \<open>The body of a section, between its opening and its end.\<close>

lemma section_body:
  assumes env: "se_input env = ops" and at: "at_node env (a @ print_nodes body @ ''{{/'' @ n @ ''}}'' @ r) st (length a) F (ls @ [l]) w out"
    and wf: "list_all wf_node body" and F: "F \<le> Suc (length a) \<or> list_all expanded body"
    and g: "length (a @ print_nodes body @ ''{{/'' @ n @ ''}}'' @ r) + g \<le> 2 ^ 29"
    and l: "loop_skips l = b" and body: "follows env (skips ls \<or> b) body w ts w' us g"
    and out: "put_all (se_output env) out ts = Some out'"
  shows "\<exists>st'. render_template env st = render_template env st' \<and>
    at_node env (a @ print_nodes us @ ''{{/'' @ n @ ''}}'' @ r) st' (length (a @ print_nodes us)) F (ls @ [l]) w' out'"
proof -
  have "skips (ls @ [l]) = (skips ls \<or> b)" using l by auto
  then show ?thesis using body [rule_format, OF at _ wf _ F g out] by auto
qed

lemma section_node:
  assumes env: "se_input env = ops" and truth: "truth (se_client env) type h w1 = Some (b, w2)"
    and resolved: "sc_resolve (se_client env) n w = ((type, h), w1)" and body: "follows env (k \<or> skip) body w2 ts w3 body' g"
    and c: "c = CHR ''#'' \<and> lt = Loop_while \<and> skip = (\<not> b) \<and> v = Section n body \<and> u = Section n body' \<or>
      c = CHR ''^'' \<and> lt = Loop_else \<and> skip = b \<and> v = Inverted n body \<and> u = Inverted n body'"
    and at: "at_node env (a @ print_node v @ r) st (length a) F ls w out" and r: "r \<noteq> []" and wf: "wf_node v"
    and k: "skips ls = k" and F: "F \<le> Suc (length a) \<or> expanded v" and g: "length (a @ print_node v @ r) + g \<le> 2 ^ 29"
    and out: "put_all (se_output env) out ts = Some out'"
  shows "\<exists>st'. render_template env st = render_template env st' \<and>
    at_node env (a @ print_node u @ r) st' (length (a @ print_node u)) F ls w3 out'"
proof -
  have n: "wf_name n" and wf: "list_all wf_node body" using wf c by auto
  let ?b = "a @ ''{{'' @ c # n @ ''}}''"
  have v: "a @ print_node v @ r = ?b @ print_nodes body @ ''{{/'' @ n @ ''}}'' @ r" using c by auto
  obtain st1 where st1: "render_template env st = turn env (open_loop env lt n st1)"
      "at_node env (a @ print_node v @ r) st1 (length a + length n + 5) F ls w out"
    using open_node [OF env at _ _ n, of c "print_nodes body @ ''{{/'' @ n @ ''}}'' @ r" lt] c unfolding v by auto
  obtain l st2 where st2: "open_loop env lt n st1 = Some (True, st2)"
      "at_node env (a @ print_node v @ r) st2 (length a + length n + 5) F (ls @ [l]) w2 out"
      "sl_name l = Some n" "sl_lookup l \<in> {Cad_stache_not_found, Cad_stache_string}" "loop_skips l = skip"
    using open_truth [OF st1(2) resolved truth, of lt] c by auto
  have at2: "at_node env (?b @ print_nodes body @ ''{{/'' @ n @ ''}}'' @ r) st2 (length ?b) F (ls @ [l]) w2 out"
    using st2(2) unfolding v by (simp add: eval_nat_numeral)
  have F2: "F \<le> Suc (length ?b) \<or> list_all expanded body" using F c by auto
  obtain st3 where st3: "render_template env st2 = render_template env st3"
      "at_node env (?b @ print_nodes body' @ ''{{/'' @ n @ ''}}'' @ r) st3 (length (?b @ print_nodes body')) F (ls @ [l]) w3 out'"
    using section_body [OF env at2 wf F2 g [unfolded v] st2(5) body [folded k] out] by blast
  obtain st4 where "render_template env st3 = render_template env st4"
      "at_node env (?b @ print_nodes body' @ ''{{/'' @ n @ ''}}'' @ r) st4 (length (?b @ print_nodes body') + length n + 5) F ls w3 out'"
    using close_truth [OF env st3(2) drop_here r n st2(3,4)] by blast
  moreover have "?b @ print_nodes body' @ ''{{/'' @ n @ ''}}'' @ r = a @ print_node u @ r"
      "length (?b @ print_nodes body') + length n + 5 = length (a @ print_node u)"
    using c by auto
  moreover have "render_template env st = render_template env st2" using st1(1) st2(1) by simp
  ultimately show ?thesis using st3(1) by metis
qed

end

context input_stream
begin

lemma open_list_node:
  assumes env: "se_input env = ops" and at: "at_node env T st pos F ls w out" and r: "r \<noteq> []" and n: "wf_name n"
    and c: "c = CHR ''#'' \<and> lt = Loop_while \<or> c = CHR ''^'' \<and> lt = Loop_else"
    and drop: "drop pos T = ''{{'' @ c # n @ ''}}'' @ r" and resolved: "sc_resolve (se_client env) n w = ((Cad_stache_list, h), w1)"
    and get: "sc_list_get (se_client env) h = Some get" "get 0 w1 = (b, w2)"
  shows "\<exists>st'. render_template env st = render_template env st' \<and>
    at_node env T st' (pos + length n + 5) F (ls @ [list_loop lt n h (pos + length n + 5) (\<not> b) 0]) w2 out \<and>
    drop (pos + length n + 5) T = r"
proof -
  obtain st1 where st1: "render_template env st = turn env (open_loop env lt n st1)" "at_node env T st1 (pos + length n + 5) F ls w out"
    using open_node [OF env at drop r n c] by blast
  obtain st2 where "open_loop env lt n st1 = Some (True, st2)"
      "at_node env T st2 (pos + length n + 5) F (ls @ [list_loop lt n h (pos + length n + 5) (\<not> b) 0]) w2 out"
    using open_list [OF st1(2) resolved get] by blast
  then show ?thesis
    using st1(1) drop_append_length [of pos T "''{{'' @ c # n @ ''}}''"] drop
    by (intro exI [of _ st2]) (simp add: eval_nat_numeral)
qed

lemma inverted_list_node:
  assumes env: "se_input env = ops" and resolved: "sc_resolve (se_client env) n w = ((Cad_stache_list, h), w1)"
    and get: "sc_list_get (se_client env) h = Some get" "get 0 w1 = (b, w2)"
    and body: "follows env (k \<or> b) body w2 ts w3 body' g"
    and close: "sc_list_close (se_client env) h = Some close" "close w3 = (True, w4)"
    and at: "at_node env (a @ print_node (Inverted n body) @ r) st (length a) F ls w out" and r: "r \<noteq> []"
    and wf: "wf_node (Inverted n body)" and k: "skips ls = k" and F: "F \<le> Suc (length a) \<or> expanded (Inverted n body)"
    and g: "length (a @ print_node (Inverted n body) @ r) + g \<le> 2 ^ 29" and out: "put_all (se_output env) out ts = Some out'"
  shows "\<exists>st'. render_template env st = render_template env st' \<and>
    at_node env (a @ print_node (Inverted n body') @ r) st' (length (a @ print_node (Inverted n body'))) F ls w4 out'"
proof -
  have n: "wf_name n" and wf: "list_all wf_node body" using wf by auto
  let ?b = "a @ ''{{^'' @ n @ ''}}''"
  let ?l = "list_loop Loop_else n h (length ?b) (\<not> b) 0"
  have v: "a @ print_node (Inverted n body) @ r = ?b @ print_nodes body @ ''{{/'' @ n @ ''}}'' @ r" by simp
  have p: "length ?b = length a + length n + 5" by simp
  obtain st2 where st2: "render_template env st = render_template env st2"
      "at_node env (?b @ print_nodes body @ ''{{/'' @ n @ ''}}'' @ r) st2 (length ?b) F (ls @ [?l]) w2 out"
    using open_list_node [OF env at _ n _ _ resolved get, of "print_nodes body @ ''{{/'' @ n @ ''}}'' @ r" "CHR ''^''" Loop_else]
    unfolding v p by auto
  have F2: "F \<le> Suc (length ?b) \<or> list_all expanded body" using F by auto
  obtain st3 where st3: "render_template env st2 = render_template env st3"
      "at_node env (?b @ print_nodes body' @ ''{{/'' @ n @ ''}}'' @ r) st3 (length (?b @ print_nodes body')) F (ls @ [?l]) w3 out'"
    using section_body [OF env st2(2) wf F2 g [unfolded v] _ body [folded k] out] by (auto simp: loop_skips_def list_loop_def)
  obtain st4 where "render_template env st3 = render_template env st4"
      "at_node env (?b @ print_nodes body' @ ''{{/'' @ n @ ''}}'' @ r) st4 (length (?b @ print_nodes body') + length n + 5) F ls w4 out'"
    using close_list [OF env st3(2) drop_here r n _ close] by blast
  moreover have "?b @ print_nodes body' @ ''{{/'' @ n @ ''}}'' @ r = a @ print_node (Inverted n body') @ r"
      "length (?b @ print_nodes body') + length n + 5 = length (a @ print_node (Inverted n body'))" by auto
  ultimately show ?thesis using st2(1) st3(1) by metis
qed

lemma list_node:
  assumes env: "se_input env = ops" and resolved: "sc_resolve (se_client env) n w = ((Cad_stache_list, h), w1)"
    and get: "sc_list_get (se_client env) h = Some get" "get 0 w1 = (b, w2)"
    and body: "follows_list env (k \<or> \<not> b) h body 0 w2 ts w3 body' g"
    and at: "at_node env (a @ print_node (Section n body) @ r) st (length a) F ls w out" and r: "r \<noteq> []"
    and wf: "wf_node (Section n body)" and k: "skips ls = k" and F: "F \<le> Suc (length a) \<or> expanded (Section n body)"
    and g: "length (a @ print_node (Section n body) @ r) + g \<le> 2 ^ 29" and out: "put_all (se_output env) out ts = Some out'"
  shows "\<exists>st'. render_template env st = render_template env st' \<and>
    at_node env (a @ print_node (Section n body') @ r) st' (length (a @ print_node (Section n body'))) F ls w3 out'"
proof -
  have n: "wf_name n" and wf: "list_all wf_node body" using wf by auto
  let ?b = "a @ ''{{#'' @ n @ ''}}''"
  let ?l = "list_loop Loop_while n h (length ?b) (\<not> b) 0"
  have v: "a @ print_node (Section n body) @ r = ?b @ print_nodes body @ ''{{/'' @ n @ ''}}'' @ r" by simp
  have p: "length ?b = length a + length n + 5" by simp
  obtain st2 where st2: "render_template env st = render_template env st2"
      "at_node env (?b @ print_nodes body @ ''{{/'' @ n @ ''}}'' @ r) st2 (length ?b) F (ls @ [?l]) w2 out"
    using open_list_node [OF env at _ n _ _ resolved get, of "print_nodes body @ ''{{/'' @ n @ ''}}'' @ r" "CHR ''#''" Loop_while]
    unfolding v p by auto
  have F2: "F \<le> Suc (length ?b) \<or> list_all expanded body" using F by auto
  obtain st3 where "render_template env st2 = render_template env st3"
      "at_node env (?b @ print_nodes body' @ ''{{/'' @ n @ ''}}'' @ r) st3 (length (?b @ print_nodes body') + length n + 5) F ls w3 out'"
    using body [folded k, rule_format, OF st2(2) r wf n _ F2 g [unfolded v] out] by blast
  moreover have "?b @ print_nodes body' @ ''{{/'' @ n @ ''}}'' @ r = a @ print_node (Section n body') @ r"
      "length (?b @ print_nodes body') + length n + 5 = length (a @ print_node (Section n body'))" by auto
  ultimately show ?thesis using st2(1) by metis
qed

end

context input_stream
begin

text \<open>One turn of a list, to its end tag.\<close>

lemma list_body:
  assumes "se_input env = ops"
    and "at_node env (a @ print_nodes body @ ''{{/'' @ n @ ''}}'' @ r) st (length a) F (ls @ [list_loop Loop_while n h (length a) e i]) w out"
    and "list_all wf_node body" "F \<le> Suc (length a) \<or> list_all expanded body"
    and "length (a @ print_nodes body @ ''{{/'' @ n @ ''}}'' @ r) + g \<le> 2 ^ 29"
    and "follows env (skips ls \<or> e) body w ts w' us g" "put_all (se_output env) out ts = Some out'"
  shows "\<exists>st'. render_template env st = render_template env st' \<and>
    at_node env (a @ print_nodes us @ ''{{/'' @ n @ ''}}'' @ r) st' (length (a @ print_nodes us)) F
      (ls @ [list_loop Loop_while n h (length a) e i]) w' out'"
  using section_body [OF assms(1-5) _ assms(6,7)] by (simp add: loop_skips_def list_loop_def)

lemma list_ends:
  fixes env :: "('s, 'o, 'w, 'h, 'i) stache_env"
  assumes "se_input env = ops" "follows env skip body w ts w1 us g" "sc_list_get (se_client env) h = Some get"
    and "get (Suc i) w1 = (False, w2)" "sc_list_close (se_client env) h = Some close" "close w2 = (True, w3)"
  shows "follows_list env skip h body i w ts w3 us g"
proof (intro allI impI)
  fix a F ls out out' r n e and st :: "('s, 'o, 'w, 'h, 'i) stache_state"
  assume at: "at_node env (a @ print_nodes body @ ''{{/'' @ n @ ''}}'' @ r) st (length a) F (ls @ [list_loop Loop_while n h (length a) e i]) w out"
    and r: "r \<noteq> []" and wf: "list_all wf_node body" "wf_name n"
    and skip: "skip = (skips ls \<or> e)" and F: "F \<le> Suc (length a) \<or> list_all expanded body"
    and g: "length (a @ print_nodes body @ ''{{/'' @ n @ ''}}'' @ r) + g \<le> 2 ^ 29" and out: "put_all (se_output env) out ts = Some out'"
  obtain st1 where st1: "render_template env st = render_template env st1"
      "at_node env (a @ print_nodes us @ ''{{/'' @ n @ ''}}'' @ r) st1 (length (a @ print_nodes us)) F
        (ls @ [list_loop Loop_while n h (length a) e i]) w1 out'"
    using list_body [OF assms(1) at wf(1) F g assms(2) [unfolded skip] out] by blast
  then show "\<exists>st'. render_template env st = render_template env st' \<and>
      at_node env (a @ print_nodes us @ ''{{/'' @ n @ ''}}'' @ r) st' (length (a @ print_nodes us) + length n + 5) F ls w3 out'"
    using close_list [OF assms(1) st1(2) drop_here r wf(2) _ assms(5,6)] assms(3,4) by metis
qed

text \<open>The partials of the body are taken in by its first turn.\<close>

lemma list_goes_on:
  fixes env :: "('s, 'o, 'w, 'h, 'i) stache_env"
  assumes "se_input env = ops" "follows env skip body w ts w1 us g" "sc_list_get (se_client env) h = Some get"
    and "get (Suc i) w1 = (True, w2)" and again: "follows_list env skip h us (Suc i) w2 ts' w3 us g'"
    and us: "list_all expanded us" "list_all wf_node body \<Longrightarrow> list_all wf_node us"
      "length (print_nodes us) \<le> length (print_nodes body) + g"
  shows "follows_list env skip h body i w (ts @ ts') w3 us (g + g')"
proof (intro allI impI)
  fix a F ls out out' r n e and st :: "('s, 'o, 'w, 'h, 'i) stache_state"
  assume at: "at_node env (a @ print_nodes body @ ''{{/'' @ n @ ''}}'' @ r) st (length a) F (ls @ [list_loop Loop_while n h (length a) e i]) w out"
    and r: "r \<noteq> []" and wf: "list_all wf_node body" "wf_name n"
    and skip: "skip = (skips ls \<or> e)" and F: "F \<le> Suc (length a) \<or> list_all expanded body"
    and g: "length (a @ print_nodes body @ ''{{/'' @ n @ ''}}'' @ r) + (g + g') \<le> 2 ^ 29"
    and out: "put_all (se_output env) out (ts @ ts') = Some out'"
  let ?T = "a @ print_nodes us @ ''{{/'' @ n @ ''}}'' @ r" and ?p = "length (a @ print_nodes us)"
  obtain out1 where out1: "put_all (se_output env) out ts = Some out1" "put_all (se_output env) out1 ts' = Some out'"
    using out by (auto simp: put_all_append split: bind_splits)
  obtain st1 where st1: "render_template env st = render_template env st1"
      "at_node env ?T st1 ?p F (ls @ [list_loop Loop_while n h (length a) e i]) w1 out1"
    using list_body [OF assms(1) at wf(1) F _ assms(2) [unfolded skip] out1(1)] g by auto
  obtain st2 where st2: "render_template env st1 = render_template env st2"
      "at_node env ?T st2 (length a) (max F (?p + length n + 6)) (ls @ [list_loop Loop_while n h (length a) e (Suc i)]) w2 out1"
    using repeat_list [OF assms(1) st1(2) drop_here r wf(2) assms(3,4)] by auto
  have g2: "length ?T + g' \<le> 2 ^ 29" using g us(3) by simp
  obtain st3 where st3: "render_template env st2 = render_template env st3"
      "at_node env ?T st3 (?p + length n + 5) (max F (?p + length n + 6)) ls w3 out'"
    using again [rule_format, OF st2(2) r us(2) [OF wf(1)] wf(2) skip _ g2 out1(2)] us(1) by blast
  have "at_node env ?T st3 (?p + length n + 5) F ls w3 out'" using ready_forget [OF st3(2)] by simp
  then show "\<exists>st'. render_template env st = render_template env st' \<and> at_node env ?T st' (?p + length n + 5) F ls w3 out'"
    using st1(1) st2(1) st3(1) by metis
qed

text \<open>A partial goes on as its tree, with the nodes after it.\<close>

lemma partial_follows:
  fixes env :: "('s, 'o, 'w, 'h, 'i) stache_env"
  assumes env: "se_input env = ops" and resolved: "sc_resolve (se_client env) n w = ((Cad_stache_string, h), w1)"
    and get: "sc_string_get (se_client env) h = Some get" "get w1 = (Some p, w2)" "quiet_free (se_client env) h"
    and p: "parsed tree p" and left: "follows env skip (tree p @ ns) w2 ts w' us g"
  shows "follows env skip (Partial n # ns) w ts w' us (length p + g)"
proof (intro allI impI)
  fix a F ls out out' r and st :: "('s, 'o, 'w, 'h, 'i) stache_state"
  assume at: "at_node env (a @ print_nodes (Partial n # ns) @ r) st (length a) F ls w out" and r: "r \<noteq> []"
    and wf: "list_all wf_node (Partial n # ns)" and skip: "skips ls = skip" and F: "F \<le> Suc (length a) \<or> list_all expanded (Partial n # ns)"
    and g: "length (a @ print_nodes (Partial n # ns) @ r) + (length p + g) \<le> 2 ^ 29"
    and out: "put_all (se_output env) out ts = Some out'"
  obtain c u where u: "print_nodes ns @ r = c # u" using r by (cases "print_nodes ns @ r") auto
  have p': "print_nodes (tree p) = p" "list_all wf_node (tree p)" "valid_cstring p" "CHR 0xFF \<notin> set p"
    using p by (simp_all add: parsed_def)
  have F': "F \<le> Suc (length a)" using F by simp
  obtain st1 where st1: "render_template env st = render_template env st1"
      "at_node env (a @ p @ c # u) st1 (length a) F ls w2 out"
    using partial_opens [OF env _ F' _ resolved get p'(3,4), of c u st ls out] at wf g u [symmetric] by auto
  have V: "a @ p @ c # u = a @ print_nodes (tree p @ ns) @ r" using u p'(1) by simp
  show "\<exists>st'. render_template env st = render_template env st' \<and>
      at_node env (a @ print_nodes us @ r) st' (length (a @ print_nodes us)) F ls w' out'"
    using left [rule_format, OF st1(2) [unfolded V] r _ skip _ _ out] F' wf p'(1,2) g st1(1) by auto
qed

lemma missing_partial_follows:
  fixes env :: "('s, 'o, 'w, 'h, 'i) stache_env"
  assumes env: "se_input env = ops" and resolved: "sc_resolve (se_client env) n w = ((Cad_stache_not_found, h), w1)"
    and left: "follows env skip (Text t # ns) w1 ts w' us g"
  shows "follows env skip (Partial n # Text (c # t) # ns) w ts w' us g"
proof (intro allI impI)
  fix a F ls out out' r and st :: "('s, 'o, 'w, 'h, 'i) stache_state"
  let ?ns = "Partial n # Text (c # t) # ns"
  assume at: "at_node env (a @ print_nodes ?ns @ r) st (length a) F ls w out" and r: "r \<noteq> []"
    and wf: "list_all wf_node ?ns" and skip: "skips ls = skip" and F: "F \<le> Suc (length a) \<or> list_all expanded ?ns"
    and g: "length (a @ print_nodes ?ns @ r) + g \<le> 2 ^ 29" and out: "put_all (se_output env) out ts = Some out'"
  have F': "F \<le> Suc (length a)" using F by simp
  obtain st1 where st1: "render_template env st = render_template env st1"
      "at_node env (a @ print_nodes (Text t # ns) @ r) st1 (length a) F ls w1 out"
    using partial_missing [OF env _ F' _ _ resolved, of c "t @ print_nodes ns @ r" st ls out] at wf r by auto
  show "\<exists>st'. render_template env st = render_template env st' \<and>
      at_node env (a @ print_nodes us @ r) st' (length (a @ print_nodes us)) F ls w' out'"
    using left [rule_format, OF st1(2) r _ skip _ _ out] F' wf g st1(1) by auto
qed

end

context input_stream
begin

text \<open>The engine follows the meaning of every template.\<close>

lemma simulation:
  fixes env :: "('s, 'o, 'w, 'h, 'i) stache_env"
  assumes env: "se_input env = ops"
  shows "renders (se_client env) tree skip ns w ts w' us g \<Longrightarrow> follows env skip ns w ts w' us g"
    and "iterates (se_client env) tree skip h body i w ts w' us g \<Longrightarrow> follows_list env skip h body i w ts w' us g"
proof (induction rule: renders_iterates.inducts)
  case (r_nil skip w)
  then show ?case by auto
next
  case (r_text skip ns w ts w' us g t)
  show ?case by (rule plain_node_follows [OF text_node [OF env] r_text.IH(2)])
next
  case (r_comment skip ns w ts w' us g c)
  show ?case by (rule silent_node_follows [OF comment_node [OF env] r_comment.IH(2)])
next
  case (r_missing v n w h w1 skip ns ts w' us g)
  show ?case
    by (rule silent_node_follows [OF missing_node [OF env _ r_missing(1) _ _ _ r_missing(2)] r_missing(4)])
next
  case (r_variable n w h w1 s w2 skip ns ts w' us g)
  show ?case
    by (rule plain_node_follows [OF _ r_variable(4)])
      (use variable_value_node [OF env _ _ _ _ r_variable(1,2)] in simp)
next
  case (r_unescaped n w h w1 s w2 skip ns ts w' us g)
  show ?case
    by (rule plain_node_follows [OF _ r_unescaped(4)])
      (use unescaped_value_node [OF env _ _ _ _ r_unescaped(1,2)] in simp)
next
  case (r_partial n w h w1 get p w2 skip ns ts w' us g)
  show ?case by (rule partial_follows [OF env r_partial(1,2,7,3,4,6)])
next
  case (r_missing_partial n w h w1 skip t ns ts w' us g c)
  show ?case by (rule missing_partial_follows [OF env r_missing_partial(1,3)])
next
  case (r_section n w type h w1 b w2 skip body ts w3 body' g ns ts' w' us g')
  have len: "length (print_node (Section n body')) \<le> length (print_node (Section n body)) + g"
    using print_expanded(1) [OF r_section(3)] by simp
  show ?case
    by (rule node_follows [OF section_node [OF env r_section(2,1,4), of "CHR ''#''" Loop_while] r_section(6) len]) simp
next
  case (r_inverted n w type h w1 b w2 skip body ts w3 body' g ns ts' w' us g')
  have len: "length (print_node (Inverted n body')) \<le> length (print_node (Inverted n body)) + g"
    using print_expanded(1) [OF r_inverted(3)] by simp
  show ?case
    by (rule node_follows [OF section_node [OF env r_inverted(2,1,4), of "CHR ''^''" Loop_else] r_inverted(6) len]) simp
next
  case (r_section_list n w h w1 get b w2 skip body ts w3 body' g ns ts' w' us g')
  have len: "length (print_node (Section n body')) \<le> length (print_node (Section n body)) + g"
    using print_expanded(2) [OF r_section_list(3)] by simp
  show ?case by (rule node_follows [OF list_node [OF env r_section_list(1,2,7,4)] r_section_list(6) len])
next
  case (r_inverted_list n w h w1 get b w2 skip body ts w3 body' g close w4 ns ts' w' us g')
  have len: "length (print_node (Inverted n body')) \<le> length (print_node (Inverted n body)) + g"
    using print_expanded(1) [OF r_inverted_list(3)] by simp
  show ?case by (rule node_follows [OF inverted_list_node [OF env r_inverted_list(1,2,8,4,5,9)] r_inverted_list(7) len])
next
  case (i_last skip body w ts w1 us g h get i w2 close w3)
  show ?case by (rule list_ends [OF env i_last(2,3,5,4,6)])
next
  case (i_more skip body w ts w1 body' g h get i w2 ts' w3 body'' g')
  have same: "body'' = body'" using expanded_same(2) [OF i_more(4)] print_expanded(1) [OF i_more(1)] by simp
  show ?case
    unfolding same
    by (rule list_goes_on [OF env i_more(2,3,6) i_more(5) [unfolded same]]) (use print_expanded(1) [OF i_more(1)] in auto)
qed

end

section \<open>A rendering\<close>

definition start_state ::
  "('s, 'o, 'w, 'h, 'i) stache_env \<Rightarrow> 's \<Rightarrow> 'o \<Rightarrow> 'w \<Rightarrow> ('s, 'o, 'w, 'h, 'i) stache_state" where
  "start_state env input output world =
     \<lparr>b_input = input, b_data = map (se_junk env) [0..<4096], b_index = -1, b_fill = 0,
      b_capacity = 4096, b_eof = False, b_partials = [], b_loops = [], b_error = '''',
      b_open = ''{{'', b_close = ''}}'', b_output = output, b_world = world\<rparr>"

lemma render_eof:
  assumes "buffer_next env (start_state env input output world) = Some (True, st1)"
    and "render_template env st1 = render_template env st2" "buffer_eof st2" "b_loops st2 = []"
  shows "render env input output world = Some (0, NULL, st2)"
proof -
  have "st2\<lparr>b_loops := []\<rparr> = st2" using assms(4) by simp
  moreover have "render_template env st1 = Some (True, st2)"
    unfolding assms(2) by (subst render_template.simps) (simp add: assms(3))
  ultimately show ?thesis
    using assms(1,4) by (simp add: render_def start_state_def buffer_unwind_loops_def)
qed

lemma render_undefined:
  assumes "buffer_next env (start_state env input output world) = Some (True, st1)" "render_template env st1 = None"
  shows "render env input output world = None"
  using assms by (simp add: render_def start_state_def)

context input_stream
begin

lemma start_at:
  assumes "se_input env = ops" "inv input" "rest input = T" "T \<noteq> []" "CHR 0xFF \<notin> set T" "length T \<le> 2 ^ 29"
  shows "\<exists>st. buffer_next env (start_state env input output world) = Some (True, st) \<and> at_node env T st 0 0 [] world output"
proof -
  have "reading rest inv (se_client env) T (start_state env input output world)"
    using assms(2-6) by (simp add: start_state_def reading_def)
  then obtain st where st: "buffer_next env (start_state env input output world) = Some (True, st)"
      "same_run (start_state env input output world) st" "at_pos rest inv (se_client env) T st 0"
    using buffer_next_frontier [OF assms(1), of T "start_state env input output world"] assms(4) by (auto simp: start_state_def)
  then have "at_node env T st 0 0 [] world output"
    using same_run_fill [OF st(2,3)] by (simp add: ready_def same_run_def start_state_def)
  then show ?thesis using st(1) by blast
qed

text \<open>The last character of the template.\<close>

lemma last_turn:
  assumes env: "se_input env = ops" and at: "at_node env T st pos F ls w out" and drop: "drop pos T = [c]" and c: "c \<noteq> CHR ''{''"
    and out: "put_all (se_output env) out (shown (skips ls) [[c]]) = Some out'"
  shows "\<exists>st'. render_template env st = render_template env st' \<and> at_end T st' \<and> b_loops st' = ls \<and> b_world st' = w \<and> b_output st' = out'"
proof -
  have st: "at_pos rest inv (se_client env) T st pos" "b_output st = out" using at by (auto simp: ready_def)
  have c': "T ! pos = c" "length T = Suc pos"
    using drop_Cons_nth [OF drop] by (auto intro: le_antisym)
  have look: "buffer_look_at env st (b_open st) = Some (False, st)"
    using look_at_differs [OF st(1), of "CHR ''{''"] c c'(1) at_pos_delimiters [OF st(1)] by simp
  have put: "buffer_output env st [c] = Some (st\<lparr>b_output := out'\<rparr>)"
    using buffer_output_shown [of env st "[c]" out'] out st(2) ready_skips [OF at] by simp
  obtain st' where st': "buffer_next env (st\<lparr>b_output := out'\<rparr>) = Some (True, st')"
      "same_run (st\<lparr>b_output := out'\<rparr>) st'" "at_end T st'"
    using buffer_next_at [OF env, of T "st\<lparr>b_output := out'\<rparr>" pos] st(1) c'(2) by auto
  have "render_template env st = render_template env st'"
    by (subst render_template.simps) (simp add: at_pos_not_eof [OF st(1)] look at_pos_item [OF st(1)] c'(1) put st'(1))
  then show ?thesis using at st' by (intro exI [of _ st']) (simp add: ready_def same_run_def)
qed

text \<open>A text that ends the template.\<close>

lemma text_ends:
  assumes env: "se_input env = ops" and at: "at_node env T st pos F ls w out" and drop: "drop pos T = t"
    and t: "t \<noteq> []" "CHR ''{'' \<notin> set t" and out: "put_all (se_output env) out (shown (skips ls) (map (\<lambda>c. [c]) t)) = Some out'"
  shows "\<exists>st'. render_template env st = render_template env st' \<and> at_end T st' \<and> b_loops st' = ls \<and> b_world st' = w \<and> b_output st' = out'"
proof -
  have t': "t = butlast t @ [last t]" using t(1) by simp
  obtain out1 where outs: "put_all (se_output env) out (shown (skips ls) (map (\<lambda>c. [c]) (butlast t))) = Some out1"
      "put_all (se_output env) out1 (shown (skips ls) [[last t]]) = Some out'"
    using out by (subst (asm) t') (auto simp: shown_def put_all_append simp del: put_all.simps(2) split: bind_splits if_splits)
  have ne: "CHR ''{'' \<notin> set (butlast t)" "last t \<noteq> CHR ''{''"
    using t last_in_set [OF t(1)] by (metis in_set_butlastD, metis)
  have drop1: "drop pos T = butlast t @ [last t]" using drop t' by simp
  obtain st1 where st1: "render_template env st = render_template env st1" "at_node env T st1 (pos + length (butlast t)) F ls w out1"
    using text_turns [OF env at drop1 _ ne(1) outs(1)] by auto
  have "drop (pos + length (butlast t)) T = [last t]" using drop_append_length [OF drop1] .
  then show ?thesis using last_turn [OF env st1(2) _ ne(2) outs(2)] st1(1) by auto
qed

text \<open>From the beginning of a template to the end of its nodes.\<close>

lemma nodes_follow:
  assumes env: "se_input env = ops" and input: "inv input" "rest input = print_nodes ns @ r" and r: "r \<noteq> []"
    and len: "length (rest input) + g \<le> 2 ^ 29" and bytes: "CHR 0xFF \<notin> set (rest input)" and wf: "list_all wf_node ns"
    and meaning: "renders (se_client env) tree False ns w ts w' us g" and out: "put_all (se_output env) out ts = Some out'"
  shows "\<exists>st0 st. buffer_next env (start_state env input out w) = Some (True, st0) \<and>
    render_template env st0 = render_template env st \<and>
    at_node env (print_nodes us @ r) st (length (print_nodes us)) 0 [] w' out'"
proof -
  obtain st0 where st0: "buffer_next env (start_state env input out w) = Some (True, st0)"
      "at_node env ([] @ print_nodes ns @ r) st0 (length ([] :: char list)) 0 [] w out"
    using start_at [OF env input(1,2) _ bytes [unfolded input(2)], of out w] len input(2) r by auto
  obtain st where "render_template env st0 = render_template env st"
      "at_node env ([] @ print_nodes us @ r) st (length ([] @ print_nodes us)) 0 [] w' out'"
    using simulation(1) [OF env meaning, rule_format, OF st0(2) r wf _ _ _ out] len input(2) by auto
  then show ?thesis using st0(1) by auto
qed

text \<open>A whole template: nodes and a text that ends them.\<close>

lemma render_follows:
  assumes env: "se_input env = ops" and input: "inv input" "rest input = print_nodes ns @ t"
    and len: "length (rest input) + g \<le> 2 ^ 29" and bytes: "CHR 0xFF \<notin> set (rest input)"
    and wf: "list_all wf_node ns" and t: "t \<noteq> []" "CHR ''{'' \<notin> set t"
    and meaning: "renders (se_client env) tree False ns w ts w' us g"
    and out: "put_all (se_output env) out (ts @ map (\<lambda>c. [c]) t) = Some out'"
  shows "\<exists>st. render env input out w = Some (0, NULL, st) \<and> b_world st = w' \<and> b_output st = out'"
proof -
  obtain out1 where outs: "put_all (se_output env) out ts = Some out1" "put_all (se_output env) out1 (map (\<lambda>c. [c]) t) = Some out'"
    using out by (auto simp: put_all_append split: bind_splits)
  obtain st0 st1 where st: "buffer_next env (start_state env input out w) = Some (True, st0)"
      "render_template env st0 = render_template env st1"
      "at_node env (print_nodes us @ t) st1 (length (print_nodes us)) 0 [] w' out1"
    using nodes_follow [OF env input t(1) len bytes wf meaning outs(1)] by blast
  obtain st2 where "render_template env st1 = render_template env st2" "buffer_eof st2" "b_loops st2 = []"
      "b_world st2 = w'" "b_output st2 = out'"
    using text_ends [OF env st(3) _ t, of out'] outs(2) at_end_eof by (auto simp: shown_def)
  then show ?thesis using render_eof [OF st(1), of st2] st(2) by auto
qed

text \<open>A variable whose name has a length where its terminating NUL falls outside its block.\<close>

lemma render_name_overflows:
  assumes env: "se_input env = ops" and input: "inv input" "rest input = print_nodes ns @ ''{{'' @ n @ ''}}'' @ t" "t \<noteq> []"
    and len: "length (rest input) + g \<le> 2 ^ 29" and bytes: "CHR 0xFF \<notin> set (rest input)" and wf: "list_all wf_node ns"
    and n: "CHR ''}'' \<notin> set n" "\<not> blank (hd n)" "hd n \<notin> set ''{#/^=!>''" "length n = 16 * 2 ^ j"
    and meaning: "renders (se_client env) tree False ns w ts w' us g" and out: "put_all (se_output env) out ts = Some out'"
  shows "render env input out w = None"
proof -
  let ?T = "print_nodes us @ ''{{'' @ n @ ''}}'' @ t"
  let ?pos = "length (print_nodes us)"
  have "n \<noteq> []" using n(4) by auto
  then have n': "n = hd n # tl n" by simp
  obtain st0 st1 where st: "buffer_next env (start_state env input out w) = Some (True, st0)"
      "render_template env st0 = render_template env st1" "at_node env ?T st1 ?pos 0 [] w' out'"
    using nodes_follow [OF env input(1,2) _ len bytes wf meaning out] by auto
  have drop: "drop ?pos ?T = ''{{'' @ hd n # tl n @ ''}}'' @ t" using n' by (cases n) auto
  then obtain st2 where st2: "at_node env ?T st2 (?pos + 2) (max 0 (?pos + 4)) [] w' out'"
      "render_template env st1 = turn env (render_stache_escape env st2)"
    using variable_turn [OF env st(3) drop _ n(3)] by auto
  have "drop (?pos + 2) ?T = n @ [] @ ''}}'' @ t" using drop_append_length [of ?pos ?T "''{{''"] by simp
  then have "parse_name env NULL st2 = None"
    using parse_name_at [OF env _ _ input(3) n(1), of ?T st2 "?pos + 2" "[]" NULL] st2(1) n(2,4) by (auto simp: ready_def)
  then show ?thesis
    using st(2) st2(2) by (intro render_undefined [OF st(1)]) (simp add: render_stache_escape_def)
qed

end

end
