(* ===== verification/Cad_Stache_Safe.thy ===== *)
theory Cad_Stache_Safe
  imports Cad_Stache_Sim
begin

text \<open>
  The buffer of the engine stays well formed, for every template, input stream and client: the index
  is inside the block, what has been read fits into it, and the open loops begin one after the other
  before the index. An error may leave the index before the beginning, but not the buffer.
\<close>

section \<open>Well-formed buffers\<close>

definition stache_shape :: "('s, 'o, 'w, 'h, 'i) stache_state \<Rightarrow> bool" where
  "stache_shape st \<longleftrightarrow> length (b_data st) = b_capacity st \<and> 0 < b_capacity st \<and> b_fill st \<le> b_capacity st \<and>
     b_index st < int (b_capacity st) \<and> b_index st \<le> int (b_fill st) \<and> (b_index st < int (b_fill st) \<or> b_eof st)"

definition loops_before :: "'h stache_loop list \<Rightarrow> int \<Rightarrow> bool" where
  "loops_before ls i \<longleftrightarrow> sorted (0 # map sl_buffer_index ls @ [i])"

definition stache_ok :: "('s, 'o, 'w, 'h, 'i) stache_state \<Rightarrow> bool" where
  "stache_ok st \<longleftrightarrow> stache_shape st \<and> loops_before (b_loops st) (b_index st)"

text \<open>What a move of the buffer does, backwards moves to where it began included; and what a call of
  the client or a piece of output leaves alone.\<close>

definition moves :: "('s, 'o, 'w, 'h, 'i) stache_state \<Rightarrow> ('s, 'o, 'w, 'h, 'i) stache_state \<Rightarrow> bool" where
  "moves st st' \<longleftrightarrow> stache_ok st' \<and> b_loops st' = b_loops st \<and> b_index st \<le> b_index st'"

definition same_buffer :: "('s, 'o, 'w, 'h, 'i) stache_state \<Rightarrow> ('s, 'o, 'w, 'h, 'i) stache_state \<Rightarrow> bool" where
  "same_buffer st st' \<longleftrightarrow> b_index st' = b_index st \<and> b_fill st' = b_fill st \<and> b_capacity st' = b_capacity st \<and>
     b_data st' = b_data st \<and> b_eof st' = b_eof st \<and> b_loops st' = b_loops st"

lemma loops_before_mono: "loops_before ls i \<Longrightarrow> i \<le> j \<Longrightarrow> loops_before ls j"
  by (auto simp: loops_before_def sorted_append)

lemma loops_before_nonneg: "loops_before ls i \<Longrightarrow> 0 \<le> i"
  by (auto simp: loops_before_def sorted_append)

lemma loops_before_open: "loops_before ls i \<Longrightarrow> sl_buffer_index l = i \<Longrightarrow> loops_before (ls @ [l]) i"
  by (auto simp: loops_before_def sorted_append)

lemma loops_before_close: "loops_before (ls @ [l]) i \<Longrightarrow> loops_before ls (sl_buffer_index l) \<and> sl_buffer_index l \<le> i"
  by (auto simp: loops_before_def sorted_append)

lemma same_buffer_refl [simp]: "same_buffer st st"
  by (simp add: same_buffer_def)

lemma same_buffer_trans: "same_buffer st st' \<Longrightarrow> same_buffer st' st'' \<Longrightarrow> same_buffer st st''"
  by (simp add: same_buffer_def)

lemma same_buffer_update [simp]:
  "same_buffer st (st'\<lparr>b_world := w\<rparr>) = same_buffer st st'"
  "same_buffer st (st'\<lparr>b_error := e\<rparr>) = same_buffer st st'"
  "same_buffer st (st'\<lparr>b_output := out\<rparr>) = same_buffer st st'"
  "same_buffer st (st'\<lparr>b_partials := ps\<rparr>) = same_buffer st st'"
  "same_buffer st (st'\<lparr>b_input := s\<rparr>) = same_buffer st st'"
  "same_buffer st (st'\<lparr>b_open := d\<rparr>) = same_buffer st st'"
  "same_buffer st (st'\<lparr>b_close := d\<rparr>) = same_buffer st st'"
  by (simp_all add: same_buffer_def)

lemma same_buffer_shape: "same_buffer st st' \<Longrightarrow> stache_shape st' = stache_shape st"
  by (simp add: same_buffer_def stache_shape_def)

lemma same_buffer_ok: "same_buffer st st' \<Longrightarrow> stache_ok st' = stache_ok st"
  by (simp add: same_buffer_shape stache_ok_def) (simp add: same_buffer_def)

lemma same_buffer_moves: "same_buffer st st' \<Longrightarrow> stache_ok st \<Longrightarrow> moves st st'"
  by (simp add: moves_def same_buffer_ok) (simp add: same_buffer_def)

lemma moves_trans: "moves st st' \<Longrightarrow> moves st' st'' \<Longrightarrow> moves st st''"
  by (simp add: moves_def)

lemma moves_refl: "stache_ok st \<Longrightarrow> moves st st"
  by (simp add: moves_def)

lemma moves_ok: "moves st st' \<Longrightarrow> stache_ok st'"
  by (simp add: moves_def)

text \<open>The index goes back to where a move began.\<close>

lemma moves_back: "moves st st' \<Longrightarrow> stache_ok st \<Longrightarrow> moves st (st'\<lparr>b_index := b_index st\<rparr>)"
  by (auto simp: moves_def stache_ok_def stache_shape_def)

lemma stache_ok_item: "stache_ok st \<Longrightarrow> \<exists>c. buffer_item st = Some c"
  using loops_before_nonneg by (fastforce simp: stache_ok_def stache_shape_def buffer_item_def c_access)

section \<open>Moves\<close>

lemma call_same: "call fn st = Some (r, st') \<Longrightarrow> same_buffer st st'"
  by (auto simp: call_def split: bind_splits prod.splits)

lemma source_same:
  "source_item env st = Some (c, st') \<Longrightarrow> same_buffer st st'"
  "source_next env st = Some (c, st') \<Longrightarrow> same_buffer st st'"
  by (auto simp: source_item_def source_next_def Let_def split: if_splits bind_splits partial_stream.splits dest: call_same)

lemma buffer_put_index: "buffer_put c st = Some st' \<Longrightarrow> b_fill st < length (b_data st) \<and>
    st' = st\<lparr>b_data := (b_data st)[b_fill st := int_char c], b_fill := b_fill st + 1\<rparr>"
  by (auto simp: buffer_put_def upd_opt_def split: bind_splits if_splits)

lemma buffer_room_shape:
  "buffer_room env st = Some st' \<Longrightarrow> length (b_data st) = b_capacity st \<Longrightarrow> 0 < b_capacity st \<Longrightarrow> b_fill st \<le> b_capacity st \<Longrightarrow>
    length (b_data st') = b_capacity st' \<and> b_fill st < b_capacity st' \<and> b_fill st' = b_fill st \<and> b_index st' = b_index st \<and>
    b_loops st' = b_loops st \<and> b_eof st' = b_eof st"
  by (auto simp: buffer_room_def split: if_splits bind_splits)

lemma end_partial_puts:
  assumes "end_partial env st = Some st'"
  shows "\<exists>c st1. buffer_put c st1 = Some st' \<and> same_buffer st st1"
proof -
  have put: ?thesis if "buffer_put c (st1\<lparr>b_partials := ps\<rparr>) = Some st'" "same_buffer st st1" for c st1 ps
    using that by (intro exI [of _ c] exI [of _ "st1\<lparr>b_partials := ps\<rparr>"]) simp
  show ?thesis
    using assms
    by (cases "sp_lookup (last (b_partials st))")
      (auto simp: end_partial_def Let_def split: bind_splits dest: call_same intro: put)
qed

lemma buffer_next_shape:
  assumes run: "buffer_next env st = Some (r, st')" and shape: "stache_shape st" "-1 \<le> b_index st"
  shows "stache_shape st' \<and> b_loops st' = b_loops st \<and> b_index st' = (if r then b_index st + 1 else b_index st)"
proof -
  let ?st1 = "st\<lparr>b_index := b_index st + 1\<rparr>"
  consider (eof) "b_eof st" | (inside) "\<not> b_eof st" "b_index st + 1 \<noteq> int (b_fill st)"
    | (fetch) "\<not> b_eof st" "b_index st + 1 = int (b_fill st)" by blast
  then show ?thesis
  proof cases
    case eof
    then show ?thesis using run shape by (auto simp: buffer_next_def fail_def stache_shape_def)
  next
    case inside
    then show ?thesis using run shape by (auto simp: buffer_next_def stache_shape_def)
  next
    case fetch
    obtain st2 c st3 where st3: "buffer_room env ?st1 = Some st2" "source_item env st2 = Some (c, st3)"
      using run fetch by (auto simp: buffer_next_def Let_def split: bind_splits)
    have st2: "length (b_data st2) = b_capacity st2" "b_fill st2 < b_capacity st2" "b_fill st2 = b_fill st"
        "b_index st2 = b_index st + 1" "b_loops st2 = b_loops st"
      using buffer_room_shape [OF st3(1)] shape by (auto simp: stache_shape_def)
    have same3: "same_buffer st2 st3" using source_same(1) [OF st3(2)] .
    have put: "stache_shape st5 \<and> b_loops st5 = b_loops st \<and> b_index st5 = b_index st + 1"
      if "same_buffer st2 st'" "buffer_put x st' = Some st4" "same_buffer st4 st5" for st' x st4 st5
      using that st2 fetch buffer_put_index [OF that(2)] by (auto simp: same_buffer_def stache_shape_def)
    show ?thesis
    proof (cases "c = EOF")
      case True
      show ?thesis
      proof (cases "b_partials st3 = []")
        case no_partial: True
        then have "r" "st' = st3\<lparr>b_eof := True\<rparr>" using run fetch st3 True by (auto simp: buffer_next_def Let_def)
        then show ?thesis using same3 st2 fetch by (auto simp: same_buffer_def stache_shape_def)
      next
        case False
        then obtain st4 where "end_partial env st3 = Some st4" "r" "st' = st4"
          using run fetch st3 True by (auto simp: buffer_next_def Let_def split: bind_splits)
        then show ?thesis using end_partial_puts put same_buffer_trans [OF same3] same_buffer_refl by metis
      qed
    next
      case False
      then obtain st4 q st5 where st5: "buffer_put c st3 = Some st4" "source_next env st4 = Some (q, st5)" "r"
          "st' = (if q \<noteq> 0 then st5\<lparr>b_eof := True\<rparr> else st5)"
        using run fetch st3 by (auto simp: buffer_next_def Let_def split: bind_splits)
      then show ?thesis using put [OF same3 st5(1) source_same(2) [OF st5(2)]] by (auto simp: stache_shape_def)
    qed
  qed
qed

lemma buffer_next_moves: "stache_ok st \<Longrightarrow> buffer_next env st = Some (r, st') \<Longrightarrow> moves st st'"
  using buffer_next_shape [of env st r st'] loops_before_nonneg [of "b_loops st" "b_index st"]
    loops_before_mono [of "b_loops st" "b_index st" "b_index st + 1"]
  by (auto simp: stache_ok_def moves_def split: if_splits)

lemma look_at_loop_moves: "stache_ok st \<Longrightarrow> look_at_loop env st e = Some (r, st') \<Longrightarrow> moves st st'"
proof (induction e arbitrary: st)
  case (Cons c e)
  show ?case
  proof (cases "buffer_item st = Some c")
    case True
    obtain ok st1 where st1: "buffer_next env st = Some (ok, st1)" using Cons.prems(2) True by (auto split: bind_splits)
    then have "moves st st1" using Cons.prems(1) buffer_next_moves by blast
    then show ?thesis using Cons.IH [of st1] Cons.prems(2) True st1 by (auto split: if_splits dest: moves_ok moves_trans)
  qed (use Cons.prems in \<open>auto simp: moves_refl split: bind_splits\<close>)
qed (simp add: moves_refl)

lemma buffer_look_at_moves: "stache_ok st \<Longrightarrow> buffer_look_at env st e = Some (r, st') \<Longrightarrow> moves st st'"
  using look_at_loop_moves [of st env e] moves_back [of st] by (auto simp: buffer_look_at_def split: bind_splits if_splits)

lemma buffer_skip_blanks_moves:
  assumes "buffer_skip_blanks env st = Some st'"
  shows "stache_ok st \<longrightarrow> moves st st'"
proof (rule buffer_skip_blanks.raw_induct [where P = "\<lambda>env st st'. stache_ok st \<longrightarrow> moves st st'", OF _ assms], goal_cases)
  case (1 rec env st st')
  then show ?case
    by (auto simp: moves_refl split: if_splits bind_splits dest: buffer_next_moves) (meson buffer_next_moves moves_ok moves_trans)+
qed

lemma parse_name_loop_moves:
  assumes "parse_name_loop env suffix st name cap = Some (found, d, cap', st')"
  shows "stache_ok st \<longrightarrow> moves st st'"
proof -
  let ?P = "\<lambda>env suffix st name cap y. stache_ok st \<longrightarrow> moves st (snd (snd (snd y)))"
  have "?P env suffix st name cap (found, d, cap', st')"
  proof (rule parse_name_loop.raw_induct [where P = ?P, OF _ assms], intro impI, goal_cases)
    case (1 loop env suffix st name cap y)
    show ?case
    proof (cases "buffer_eof st")
      case True
      then show ?thesis using 1(2,3) by (auto simp: moves_refl)
    next
      case False
      then obtain suffixed st1 closed st2 where
          look: "(case suffix of None \<Rightarrow> Some (False, st) | Some s \<Rightarrow> buffer_look_at env st s) = Some (suffixed, st1)"
            "buffer_look_at env st1 (b_close st1) = Some (closed, st2)"
        using 1(2) by (auto split: bind_splits)
      have "moves st st1" using look(1) 1(3) by (auto simp: moves_refl buffer_look_at_moves split: option.splits)
      then have st2: "moves st st2" using buffer_look_at_moves [OF _ look(2)] moves_ok moves_trans by blast
      show ?thesis
      proof (cases "suffixed \<or> closed")
        case True
        then show ?thesis using 1(2) False look st2 by (auto split: if_splits)
      next
        case left: False
        then obtain c again st3 cap' where step: "buffer_next env st2 = Some (again, st3)"
            "if again then loop env suffix st3 (name @ [c]) cap' = Some y else y = (False, name @ [c], cap', st3)"
          using 1(2) False look by (auto split: bind_splits if_splits)
        have st3: "moves st2 st3" using buffer_next_moves [OF moves_ok [OF st2] step(1)] .
        then have "moves st3 (snd (snd (snd y)))"
          using step(2) 1(1) by (auto simp: moves_refl moves_ok split: if_splits)
        then show ?thesis using st2 st3 moves_trans by blast
      qed
    qed
  qed
  then show ?thesis by simp
qed

lemma parse_name_moves: "stache_ok st \<Longrightarrow> parse_name env suffix st = Some (name, st') \<Longrightarrow> moves st st'"
proof -
  assume ok: "stache_ok st" and run: "parse_name env suffix st = Some (name, st')"
  obtain st1 found d cap st2 where st2: "buffer_skip_blanks env st = Some st1"
      "parse_name_loop env suffix st1 [] 16 = Some (found, d, cap, st2)"
      "if found then st' = st2 else st' = st2\<lparr>b_error := ''Unclosed or invalid 'stache'', b_index := b_index st\<rparr>"
    using run by (auto simp: parse_name_def split: bind_splits if_splits)
  have "moves st st2"
    using buffer_skip_blanks_moves [OF st2(1)] parse_name_loop_moves [OF st2(2)] ok moves_ok moves_trans by blast
  moreover have "moves st2 (st2\<lparr>b_error := ''Unclosed or invalid 'stache''\<rparr>)"
    using same_buffer_moves [of st2 "st2\<lparr>b_error := ''Unclosed or invalid 'stache''\<rparr>"] moves_ok [OF \<open>moves st st2\<close>] by simp
  ultimately show ?thesis
    using st2(3) moves_back [of st "st2\<lparr>b_error := ''Unclosed or invalid 'stache''\<rparr>"] ok moves_trans
    by (auto split: if_splits)
qed

lemma comment_moves:
  assumes "render_stache_comment env st = Some (r, st')"
  shows "stache_ok st \<longrightarrow> moves st st'"
proof -
  let ?P = "\<lambda>env st y. stache_ok st \<longrightarrow> moves st (snd y)"
  have "?P env st (r, st')"
  proof (rule render_stache_comment.raw_induct [where P = ?P, OF _ assms], intro impI, goal_cases)
    case (1 loop env st y)
    obtain found st1 where st1: "buffer_look_at env st (b_close st) = Some (found, st1)"
      using 1(2) by (auto split: bind_splits)
    have m1: "moves st st1" using buffer_look_at_moves [OF 1(3) st1] .
    show ?case
    proof (cases found)
      case False
      then obtain ok st2 where st2: "buffer_next env st1 = Some (ok, st2)" "if ok then loop env st2 = Some y else y = (False, st2)"
        using 1(2) st1 by (auto split: bind_splits if_splits)
      have m2: "moves st1 st2" using buffer_next_moves [OF moves_ok [OF m1] st2(1)] .
      then have "moves st2 (snd y)" using st2(2) 1(1) by (auto simp: moves_refl moves_ok split: if_splits)
      then show ?thesis using m1 m2 moves_trans by blast
    qed (use 1(2) st1 m1 in auto)
  qed
  then show ?thesis by simp
qed

section \<open>Tags\<close>

text \<open>The outcome of a step: the buffer is well formed, up to its index when there is an error.\<close>

definition outcome_ok :: "bool \<times> ('s, 'o, 'w, 'h, 'i) stache_state \<Rightarrow> bool" where
  "outcome_ok y \<longleftrightarrow> stache_shape (snd y) \<and> (fst y \<longrightarrow> stache_ok (snd y))"

lemma stache_ok_outcome: "stache_ok st \<Longrightarrow> outcome_ok (r, st)"
  by (simp add: outcome_ok_def stache_ok_def)

lemma same_buffer_outcome: "stache_ok st \<Longrightarrow> same_buffer st st' \<Longrightarrow> outcome_ok (r, st')"
  by (simp add: stache_ok_outcome same_buffer_ok)

lemma fail_same: "fail msg st = Some (r, st') \<Longrightarrow> same_buffer st st'"
  by (auto simp: fail_def)

lemma resolve_same: "resolve env name st = (r, st') \<Longrightarrow> same_buffer st st'"
  by (auto simp: resolve_def split: prod.splits)

lemma buffer_output_same: "buffer_output env st t = Some st' \<Longrightarrow> same_buffer st st'"
  by (auto simp: buffer_output_def split: if_splits bind_splits)

lemma escape_output_same: "escape_output env s st = Some st' \<Longrightarrow> same_buffer st st'"
  by (induction s arbitrary: st) (auto split: bind_splits dest!: buffer_output_same intro: same_buffer_trans)

lemma print_same:
  "print_raw env c st = Some st' \<Longrightarrow> same_buffer st st'"
  "print_escaped env c st = Some st' \<Longrightarrow> same_buffer st st'"
  by (auto simp: print_raw_def print_escaped_def split: if_splits bind_splits dest: buffer_output_same escape_output_same)

lemma with_string_same:
  assumes print: "\<And>c st st'. print c st = Some st' \<Longrightarrow> same_buffer st st'" and run: "with_string env h print st = Some (r, st')"
  shows "same_buffer st st'"
  using run
  by (auto simp: with_string_def split: bind_splits if_splits dest!: call_same print fail_same) (meson same_buffer_trans)+

lemma render_value_same:
  assumes print: "\<And>c st st'. print c st = Some st' \<Longrightarrow> same_buffer st st'" and run: "render_value env print n st = Some (r, st')"
  shows "same_buffer st st'"
proof -
  obtain type h st1 where st1: "resolve env n st = ((type, h), st1)" by (metis surj_pair)
  have "same_buffer st1 st'"
    using run st1 with_string_same [OF print] by (cases type) (auto simp: render_value_def dest: fail_same)
  then show ?thesis using resolve_same [OF st1] same_buffer_trans by blast
qed

text \<open>A tag that is a name and what is done with it.\<close>

lemma named_tag:
  assumes ok: "stache_ok st" and run: "do { (name, st1) \<leftarrow> parse_name env suffix st;
      (case name of None \<Rightarrow> Some (r0, st1) | Some n \<Rightarrow> step n st1) } = Some y"
    and step: "\<And>n st1. step n st1 = Some y \<Longrightarrow> stache_ok st1 \<Longrightarrow> outcome_ok y"
  shows "outcome_ok y"
proof -
  obtain name st1 where st1: "parse_name env suffix st = Some (name, st1)" using run by (auto split: bind_splits)
  have ok1: "stache_ok st1" using moves_ok [OF parse_name_moves [OF ok st1]] .
  show ?thesis using run st1 step [OF _ ok1] ok1 by (cases name) (auto intro: stache_ok_outcome)
qed

lemma variable_ok:
  assumes "stache_ok st"
  shows "render_stache_raw env st = Some y \<Longrightarrow> outcome_ok y" "render_stache_escape env st = Some y \<Longrightarrow> outcome_ok y"
proof -
  have print_value: "outcome_ok y" if "(if c_name n = [] then fail m st1 else render_value env print (c_name n) st1) = Some y" "stache_ok st1"
      "\<And>c st st'. print c st = Some st' \<Longrightarrow> same_buffer st st'" for n m st1 print
    using that render_value_same [of print env "c_name n" st1 "fst y" "snd y"] fail_same [of m st1 "fst y" "snd y"]
    by (cases y) (auto intro: same_buffer_outcome split: if_splits)
  show "render_stache_raw env st = Some y \<Longrightarrow> outcome_ok y"
    unfolding render_stache_raw_def by (rule named_tag [OF assms], assumption) (rule print_value, assumption+, rule print_same(1))
  show "render_stache_escape env st = Some y \<Longrightarrow> outcome_ok y"
    unfolding render_stache_escape_def by (rule named_tag [OF assms], assumption) (rule print_value, assumption+, rule print_same(2))
qed

lemma release_same: "release free msg st = Some (r, st') \<Longrightarrow> same_buffer st st'"
  by (auto simp: release_def split: option.splits bind_splits if_splits dest!: call_same fail_same) (meson same_buffer_trans)

lemma empty_same:
  "string_empty env h st = Some (e, r, st') \<Longrightarrow> same_buffer st st'"
  "list_empty env h st = Some (e, r, st') \<Longrightarrow> same_buffer st st'"
  by (auto simp: string_empty_def list_empty_def split: option.splits bind_splits dest!: call_same release_same intro: same_buffer_trans)

lemma partial_empty_same: "partial_empty env h st = Some (e, r, st') \<Longrightarrow> same_buffer st st'"
  by (auto simp: partial_empty_def same_buffer_def split: option.splits bind_splits if_splits dest!: call_same release_same)

lemma loop_empty_same: "loop_empty env type h st = Some (e, r, st') \<Longrightarrow> same_buffer st st'"
  by (cases type) (auto simp: loop_empty_def dest: empty_same partial_empty_same)

section \<open>Loops and partials\<close>

lemma open_loop_ok: "stache_ok st \<Longrightarrow> open_loop env lt n st = Some y \<Longrightarrow> outcome_ok y"
proof -
  assume ok: "stache_ok st" and run: "open_loop env lt n st = Some y"
  obtain type h st1 where st1: "resolve env n st = ((type, h), st1)" by (metis surj_pair)
  obtain e r st2 where st2: "loop_empty env type h st1 = Some (e, r, st2)"
    using run st1 by (auto simp: open_loop_def split: bind_splits)
  let ?l = "\<lparr>sl_type = lt, sl_name = Some n, sl_lookup = type, sl_resolved = (if type = Cad_stache_list then Some h else NULL),
    sl_buffer_index = b_index st, sl_loop_index = 0, sl_empty = e\<rparr>"
  have y: "y = (r, st2\<lparr>b_loops := b_loops st2 @ [?l]\<rparr>)" using run by (simp add: open_loop_def st1 st2)
  have same: "same_buffer st st2" using resolve_same [OF st1] loop_empty_same [OF st2] same_buffer_trans by blast
  have "stache_ok st2" "b_index st2 = b_index st"
    using same ok same_buffer_ok by (auto simp: same_buffer_def)
  then show ?thesis
    using loops_before_open [of "b_loops st2" "b_index st" ?l] by (simp add: y outcome_ok_def stache_ok_def stache_shape_def)
qed

text \<open>The end of a turn: the index goes back to the beginning of the loop, or the loop is closed.\<close>

lemma list_turn_ok:
  assumes ok: "stache_ok st" and loops: "b_loops st = ls @ [l]" and run: "list_turn env l st = Some y"
  shows "outcome_ok y"
proof -
  let ?l = "l\<lparr>sl_loop_index := sl_loop_index l + 1\<rparr>"
  have before: "loops_before ls (sl_buffer_index l)" "sl_buffer_index l \<le> b_index st"
    using ok loops loops_before_close [of ls l] by (auto simp: stache_ok_def)
  have shut: "outcome_ok (r, st'\<lparr>b_loops := ls\<rparr>)" if "same_buffer st st'" for r st'
    using that ok before loops_before_mono [OF before]
    by (auto simp: outcome_ok_def same_buffer_def stache_ok_def stache_shape_def)
  have again: "outcome_ok (True, st'\<lparr>b_loops := ls @ [?l], b_index := sl_buffer_index l\<rparr>)" if "same_buffer st st'" for st'
    using that ok before loops_before_open [OF before(1)]
    by (auto simp: outcome_ok_def same_buffer_def stache_ok_def stache_shape_def)
  have broken: "outcome_ok (False, st'\<lparr>b_loops := ls', b_error := m\<rparr>)" if "same_buffer st st'" for st' ls' m
    using that ok by (auto simp: outcome_ok_def same_buffer_def stache_ok_def stache_shape_def)
  show ?thesis
    using run loops again shut broken
    by (auto simp: list_turn_def Let_def fail_def split: bind_splits if_splits option.splits dest!: call_same)
      (meson same_buffer_refl same_buffer_trans)+
qed

lemma close_loop_ok:
  assumes ok: "stache_ok st" and run: "close_loop env n st = Some y"
  shows "outcome_ok y"
proof (cases "b_loops st" rule: rev_cases)
  case Nil
  then show ?thesis using run ok by (auto simp: close_loop_def fail_def intro: same_buffer_outcome)
next
  case (snoc ls l)
  have before: "loops_before ls (b_index st)"
    using ok snoc loops_before_close [of ls l] loops_before_mono by (auto simp: stache_ok_def)
  have shut: "outcome_ok (True, st\<lparr>b_loops := ls\<rparr>)"
    using ok before by (auto simp: outcome_ok_def stache_ok_def stache_shape_def)
  have fails: "outcome_ok (False, st\<lparr>b_error := m\<rparr>)" for m
    using ok by (auto intro: same_buffer_outcome)
  show ?thesis
    using run snoc shut fails list_turn_ok [OF ok snoc] stache_ok_outcome [OF ok]
    by (auto simp: close_loop_def Let_def fail_def split: if_splits cad_stache_lookup_type.splits)
qed

lemma loop_tags_ok:
  assumes "stache_ok st"
  shows "render_stache_loop env lt st = Some y \<Longrightarrow> outcome_ok y" "render_stache_end env st = Some y \<Longrightarrow> outcome_ok y"
  unfolding render_stache_loop_def render_stache_end_def
  by (rule named_tag [OF assms], assumption, rule open_loop_ok, assumption+)
    (rule named_tag [OF assms], assumption, rule close_loop_ok, assumption+)

lemma delimiters_ok: "stache_ok st \<Longrightarrow> render_stache_delimiters env st = Some y \<Longrightarrow> outcome_ok y"
proof -
  assume ok: "stache_ok st" and run: "render_stache_delimiters env st = Some y"
  obtain d st1 where st1: "parse_name env (Some ''='') st = Some (d, st1)"
    using run by (auto simp: render_stache_delimiters_def split: bind_splits)
  have "stache_ok st1" using moves_ok [OF parse_name_moves [OF ok st1]] .
  then show ?thesis
    using run st1
    by (auto simp: render_stache_delimiters_def Let_def fail_def intro: same_buffer_outcome split: option.splits list.splits if_splits)
qed

lemma partial_source_same: "partial_source env type h st = Some (s, r, st') \<Longrightarrow> same_buffer st st'"
  by (cases type) (auto simp: partial_source_def same_buffer_def split: option.splits bind_splits dest!: call_same)

lemma partial_ok:
  assumes ok: "stache_ok st" and start: "loops_before (b_loops st) start" "start \<le> b_index st"
    and run: "render_stache_partial env start st = Some y"
  shows "outcome_ok y"
proof -
  obtain name st1 where st1: "parse_name env NULL st = Some (name, st1)"
    using run by (auto simp: render_stache_partial_def split: bind_splits)
  have m1: "moves st st1" using parse_name_moves [OF ok st1] .
  show ?thesis
  proof (cases name)
    case None
    then show ?thesis using run st1 moves_ok [OF m1] by (auto simp: render_stache_partial_def intro: stache_ok_outcome)
  next
    case (Some n)
    obtain type h st2 where st2: "resolve env (c_name n) st1 = ((type, h), st2)" by (metis surj_pair)
    obtain stream result st3 where st3: "partial_source env type h st2 = Some (stream, result, st3)"
      using run st1 st2 Some by (auto simp: render_stache_partial_def split: bind_splits)
    have same: "same_buffer st1 st3" using resolve_same [OF st2] partial_source_same [OF st3] same_buffer_trans by blast
    obtain ps where "(do { (ok, st5) \<leftarrow> buffer_next env (st3\<lparr>b_partials := ps, b_index := start - 1, b_fill := nat start\<rparr>);
        if ok then Some (result, st5) else fail ''BUG: no next at partial start'' st5 }) = Some y"
    proof (cases stream)
      case None
      show ?thesis
        using that [of "b_partials st3"] run by (simp add: render_stache_partial_def st1 st2 st3 \<open>name = Some n\<close> None)
    next
      case (Some s)
      obtain c where c: "buffer_item st3 = Some c"
        using run by (auto simp: render_stache_partial_def st1 st2 st3 \<open>name = Some n\<close> Some split: bind_splits)
      show ?thesis
        using that run by (simp add: render_stache_partial_def st1 st2 st3 \<open>name = Some n\<close> Some c)
    qed
    then obtain ok5 st5 where st5: "buffer_next env (st3\<lparr>b_partials := ps, b_index := start - 1, b_fill := nat start\<rparr>) = Some (ok5, st5)"
        "y = (if ok5 then (result, st5) else (False, st5\<lparr>b_error := ''BUG: no next at partial start''\<rparr>))"
      by (auto simp: fail_def split: bind_splits if_splits)
    have shape: "stache_shape (st3\<lparr>b_partials := ps, b_index := start - 1, b_fill := nat start\<rparr>)" "b_loops st3 = b_loops st"
      using m1 same start loops_before_nonneg [OF start(1)]
      by (auto simp: moves_def same_buffer_def stache_ok_def stache_shape_def)
    then show ?thesis
      using buffer_next_shape [OF st5(1) shape(1)] loops_before_nonneg [OF start(1)] start(1) st5(2)
      by (auto simp: outcome_ok_def stache_ok_def stache_shape_def split: if_splits)
  qed
qed

section \<open>Rendering\<close>

lemma render_stache_ok:
  assumes ok: "stache_ok st" and start: "loops_before (b_loops st) start" "start \<le> b_index st"
    and run: "render_stache env start st = Some y"
  shows "outcome_ok y"
proof (cases "buffer_eof st")
  case True
  then show ?thesis using run ok by (auto simp: render_stache_def fail_def intro: same_buffer_outcome)
next
  case False
  obtain c again st1 where st1: "buffer_item st = Some c" "buffer_next env st = Some (again, st1)"
    using run False by (auto simp: render_stache_def split: bind_splits)
  have m1: "moves st st1" using buffer_next_moves [OF ok st1(2)] .
  then have ok1: "stache_ok st1" "loops_before (b_loops st1) start" "start \<le> b_index st1"
    using start by (auto simp: moves_def)
  show ?thesis
  proof (cases again)
    case no: False
    then show ?thesis
      using run False st1 ok1(1) by (auto simp: render_stache_def fail_def intro: same_buffer_outcome)
  next
    case True
    have "b_index st1 = b_index st + 1"
      using buffer_next_shape [OF st1(2)] ok loops_before_nonneg [of "b_loops st" "b_index st"] True by (auto simp: stache_ok_def)
    then have "stache_ok (st1\<lparr>b_index := b_index st1 - 1\<rparr>)"
      using moves_ok [OF moves_back [OF m1 ok]] by simp
    then show ?thesis
      using run False st1 True variable_ok(1) [OF ok1(1)] variable_ok(2) loop_tags_ok [OF ok1(1)] delimiters_ok [OF ok1(1)]
        comment_moves [of env st1] partial_ok [OF ok1]
      by (cases y) (auto simp: render_stache_def render_stache_while_def render_stache_else_def ok1(1) stache_ok_outcome dest: moves_ok
        split: if_splits)
  qed
qed

lemma render_template_ok:
  assumes "render_template env st = Some y"
  shows "stache_ok st \<longrightarrow> outcome_ok y"
proof (rule render_template.raw_induct [where P = "\<lambda>env st y. stache_ok st \<longrightarrow> outcome_ok y", OF _ assms], intro impI, goal_cases)
  case (1 loop env st y)
  show ?case
  proof (cases "buffer_eof st")
    case True
    then show ?thesis using 1(2,3) by (auto intro: stache_ok_outcome)
  next
    case False
    then obtain opened st1 where st1: "buffer_look_at env st (b_open st) = Some (opened, st1)"
      using 1(2) by (auto split: bind_splits)
    have m1: "moves st st1" using buffer_look_at_moves [OF 1(3) st1] .
    have at1: "stache_ok st1" "loops_before (b_loops st1) (b_index st)" "b_index st \<le> b_index st1"
      using m1 1(3) by (auto simp: moves_def stache_ok_def)
    obtain result st2 where z: "(if opened then render_stache env (b_index st) st1
        else do { c \<leftarrow> buffer_item st1; st1' \<leftarrow> buffer_output env st1 [c]; buffer_next env st1' }) = Some (result, st2)"
        "if result then loop env st2 = Some y else y = (False, st2)"
      using 1(2) False st1 by (cases opened) (auto split: bind_splits if_splits)
    have "outcome_ok (result, st2)"
    proof (cases opened)
      case True
      then show ?thesis using z(1) render_stache_ok [OF at1] by simp
    next
      case closed: False
      obtain c st1' where st2: "buffer_output env st1 [c] = Some st1'" "buffer_next env st1' = Some (result, st2)"
        using z(1) closed by (auto split: bind_splits)
      have "stache_ok st1'" using same_buffer_ok [OF buffer_output_same [OF st2(1)]] at1(1) by simp
      then show ?thesis using buffer_next_moves [OF _ st2(2)] moves_ok stache_ok_outcome by blast
    qed
    then show ?thesis using z(2) 1(1) by (auto simp: outcome_ok_def split: if_splits)
  qed
qed

text \<open>The state in which \<open>render\<close> enters the template.\<close>

lemma start_state_ok: "buffer_next env (start_state env input output world) = Some (True, st) \<Longrightarrow> stache_ok st"
  using buffer_next_shape [of env "start_state env input output world" True st]
  by (auto simp: start_state_def stache_ok_def stache_shape_def loops_before_def)

end
