(* ===== verification/Cad_Stache_Errors.thy ===== *)
theory Cad_Stache_Errors
  imports Cad_Stache_Safe
begin

text \<open>
  The errors of a template as part of its meaning: what has been put out and which calls have been made
  before the first error, its message, and the text before the place where it is reported. The
  engine stops there with this message; the lemmas follow those of valid templates.
\<close>

section \<open>Errors\<close>

definition type_error :: "cad_stache_lookup_type \<Rightarrow> cstring option" where
  "type_error type =
     (case type of
        Cad_stache_list \<Rightarrow> Some ''unexpected list''
      | Cad_stache_partial \<Rightarrow> Some ''unexpected partial''
      | Other_type \<Rightarrow> Some ''invalid type''
      | _ \<Rightarrow> None)"

text \<open>A string that cannot be released after use.\<close>

definition stuck_string ::
  "('w, 'h, 'i) stache_client \<Rightarrow> 'h \<Rightarrow> 'w \<Rightarrow> (cstring \<times> 'w) option" where
  "stuck_string cl h w = do {
     get \<leftarrow> sc_string_get cl h;
     let (v, w1) = get w;
     s \<leftarrow> v;
     free \<leftarrow> sc_string_free cl h;
     let (ok, w2) = free w1;
     if ok then None else Some (s, w2)
   }"

text \<open>A section on something whose value cannot be known.\<close>

definition section_error ::
  "('w, 'h, 'i) stache_client \<Rightarrow> cad_stache_lookup_type \<Rightarrow> 'h \<Rightarrow> 'w \<Rightarrow> (cstring \<times> 'w) option" where
  "section_error cl type h w =
     (case type of
        Other_type \<Rightarrow> Some (''invalid type'', w)
      | Cad_stache_string \<Rightarrow>
          let (v, w1) = (case sc_string_get cl h of None \<Rightarrow> (NULL, w) | Some get \<Rightarrow> get w) in
          (case sc_string_free cl h of
             None \<Rightarrow> Some (''could not free string'', w1)
           | Some free \<Rightarrow> let (ok, w2) = free w1 in if ok then None else Some (''could not free string'', w2))
      | _ \<Rightarrow> None)"

text \<open>A list that cannot be closed.\<close>

definition stuck_list :: "('w, 'h, 'i) stache_client \<Rightarrow> 'h \<Rightarrow> 'w \<Rightarrow> 'w \<Rightarrow> bool" where
  "stuck_list cl h w w' \<longleftrightarrow>
     (case sc_list_close cl h of None \<Rightarrow> w' = w | Some close \<Rightarrow> close w = (False, w'))"

abbreviation list_error :: cstring where
  "list_error \<equiv> ''could not close loop list''"

text \<open>
  \<open>breaks cl tree inner skip ns w ts w' before msg g\<close>: in the innermost section \<open>inner\<close>, the nodes put out
  \<open>ts\<close> and then stop with \<open>msg\<close>, after the text \<open>before\<close>. The other arguments are those of \<open>renders\<close>.
\<close>

inductive breaks ::
    "('w, 'h, 'i) stache_client \<Rightarrow> (cstring \<Rightarrow> node list) \<Rightarrow> cstring option \<Rightarrow> bool \<Rightarrow> node list \<Rightarrow> 'w \<Rightarrow> cstring list \<Rightarrow> 'w
      \<Rightarrow> cstring \<Rightarrow> cstring \<Rightarrow> nat \<Rightarrow> bool"
  and list_breaks ::
    "('w, 'h, 'i) stache_client \<Rightarrow> (cstring \<Rightarrow> node list) \<Rightarrow> cstring \<Rightarrow> bool \<Rightarrow> 'h \<Rightarrow> node list \<Rightarrow> nat \<Rightarrow> 'w \<Rightarrow> cstring list \<Rightarrow> 'w
      \<Rightarrow> cstring \<Rightarrow> cstring \<Rightarrow> nat \<Rightarrow> bool"
  for cl tree where
  b_then: "renders cl tree skip ms w ts w1 us g \<Longrightarrow> breaks cl tree inner skip ns w1 ts' w' before msg g' \<Longrightarrow>
    breaks cl tree inner skip (ms @ ns) w (ts @ ts') w' (print_nodes us @ before) msg (g + g')"
| b_type: "v = Variable n \<or> v = Unescaped n \<Longrightarrow> sc_resolve cl n w = ((type, h), w1) \<Longrightarrow> type_error type = Some msg \<Longrightarrow>
    breaks cl tree inner skip (v # ns) w [] w1 (print_node v) msg 0"
| b_variable: "sc_resolve cl n w = ((Cad_stache_string, h), w1) \<Longrightarrow> stuck_string cl h w1 = Some (s, w2) \<Longrightarrow>
    breaks cl tree inner skip (Variable n # ns) w (shown skip (map escape_char s)) w2 (print_node (Variable n))
      ''could not free string'' 0"
| b_unescaped: "sc_resolve cl n w = ((Cad_stache_string, h), w1) \<Longrightarrow> stuck_string cl h w1 = Some (s, w2) \<Longrightarrow>
    breaks cl tree inner skip (Unescaped n # ns) w (shown skip [s]) w2 (print_node (Unescaped n)) ''could not free string'' 0"
| b_end: "inner \<noteq> Some n \<Longrightarrow>
    breaks cl tree inner skip (End n # ns) w [] w (print_node (End n))
      (if inner = None then ''closing non-open loop'' else ''closing loop name different from opening loop name'') 0"
| b_partial: "sc_resolve cl n w = ((Cad_stache_string, h), w1) \<Longrightarrow> sc_string_get cl h = Some get \<Longrightarrow>
    get w1 = (Some p, w2) \<Longrightarrow> quiet_free cl h \<Longrightarrow> parsed tree p \<Longrightarrow> breaks cl tree inner skip (tree p @ ns) w2 ts w' before msg g \<Longrightarrow>
    breaks cl tree inner skip (Partial n # ns) w ts w' before msg (length p + g)"
| b_partial_list: "sc_resolve cl n w = ((Cad_stache_list, h), w1) \<Longrightarrow> sc_list_close cl h = Some close \<Longrightarrow>
    close w1 = (ok, w2) \<Longrightarrow> breaks cl tree inner skip (Partial n # ns) w [] w2 [] ''unexpected list for partial'' 0"
| b_section_type: "v = Section n body \<and> c = CHR ''#'' \<or> v = Inverted n body \<and> c = CHR ''^'' \<Longrightarrow>
    sc_resolve cl n w = ((type, h), w1) \<Longrightarrow> section_error cl type h w1 = Some (msg, w2) \<Longrightarrow>
    breaks cl tree inner skip (v # ns) w [] w2 (''{{'' @ c # n @ ''}}'') msg 0"
| b_section: "sc_resolve cl n w = ((type, h), w1) \<Longrightarrow> truth cl type h w1 = Some (b, w2) \<Longrightarrow>
    breaks cl tree (Some n) (skip \<or> \<not> b) body w2 ts w' before msg g \<Longrightarrow>
    breaks cl tree inner skip (Section n body # ns) w ts w' (''{{#'' @ n @ ''}}'' @ before) msg g"
| b_inverted: "sc_resolve cl n w = ((type, h), w1) \<Longrightarrow> truth cl type h w1 = Some (b, w2) \<Longrightarrow>
    breaks cl tree (Some n) (skip \<or> b) body w2 ts w' before msg g \<Longrightarrow>
    breaks cl tree inner skip (Inverted n body # ns) w ts w' (''{{^'' @ n @ ''}}'' @ before) msg g"
| b_section_list: "sc_resolve cl n w = ((Cad_stache_list, h), w1) \<Longrightarrow> sc_list_get cl h = Some get \<Longrightarrow>
    get 0 w1 = (b, w2) \<Longrightarrow> list_breaks cl tree n (skip \<or> \<not> b) h body 0 w2 ts w' before msg g \<Longrightarrow>
    breaks cl tree inner skip (Section n body # ns) w ts w' (''{{#'' @ n @ ''}}'' @ before) msg g"
| b_inverted_list: "sc_resolve cl n w = ((Cad_stache_list, h), w1) \<Longrightarrow> sc_list_get cl h = Some get \<Longrightarrow>
    get 0 w1 = (b, w2) \<Longrightarrow> breaks cl tree (Some n) (skip \<or> b) body w2 ts w' before msg g \<Longrightarrow>
    breaks cl tree inner skip (Inverted n body # ns) w ts w' (''{{^'' @ n @ ''}}'' @ before) msg g"
| b_inverted_close: "sc_resolve cl n w = ((Cad_stache_list, h), w1) \<Longrightarrow> sc_list_get cl h = Some get \<Longrightarrow>
    get 0 w1 = (b, w2) \<Longrightarrow> renders cl tree (skip \<or> b) body w2 ts w3 us g \<Longrightarrow> stuck_list cl h w3 w' \<Longrightarrow>
    breaks cl tree inner skip (Inverted n body # ns) w ts w' (print_node (Inverted n us)) list_error g"
| l_body: "breaks cl tree (Some n) skip body w ts w' before msg g \<Longrightarrow> list_breaks cl tree n skip h body i w ts w' before msg g"
| l_more: "renders cl tree skip body w ts w1 us g \<Longrightarrow> sc_list_get cl h = Some get \<Longrightarrow> get (Suc i) w1 = (True, w2) \<Longrightarrow>
    list_breaks cl tree n skip h us (Suc i) w2 ts' w' before msg g' \<Longrightarrow>
    list_breaks cl tree n skip h body i w (ts @ ts') w' before msg (g + g')"
| l_close: "renders cl tree skip body w ts w1 us g \<Longrightarrow> sc_list_get cl h = Some get \<Longrightarrow> get (Suc i) w1 = (False, w2) \<Longrightarrow>
    stuck_list cl h w2 w' \<Longrightarrow>
    list_breaks cl tree n skip h body i w ts w' (print_nodes us @ ''{{/'' @ n @ ''}}'') list_error g"

section \<open>Where the engine stops\<close>

abbreviation named_loops :: "'h stache_loop list \<Rightarrow> bool" where
  "named_loops ls \<equiv> list_all (\<lambda>l. sl_name l \<noteq> NULL) ls"

abbreviation inner_loop :: "'h stache_loop list \<Rightarrow> cstring option" where
  "inner_loop ls \<equiv> (if ls = [] then None else sl_name (last ls))"

definition stopped where
  "stopped st pos w out msg \<longleftrightarrow> b_index st = int pos \<and> b_world st = w \<and> b_output st = out \<and> b_error st = msg \<and>
     named_loops (b_loops st) = (msg \<noteq> list_error)"

lemma type_error_message: "type_error type = Some msg \<Longrightarrow> msg \<noteq> list_error"
  by (cases type) (auto simp: type_error_def)

lemma section_error_message: "section_error cl type h w = Some (msg, w') \<Longrightarrow> msg \<noteq> list_error"
  by (cases type) (auto simp: section_error_def Let_def split: option.splits prod.splits if_splits)

context input_stream
begin

lemma type_stops:
  assumes env: "se_input env = ops" and at: "at_node env T st pos F ls w out" and ls: "named_loops ls"
    and v: "v = Variable n \<or> v = Unescaped n" and drop: "drop pos T = print_node v @ r" and r: "r \<noteq> []" and wf: "wf_node v"
    and resolved: "sc_resolve (se_client env) n w = ((type, h), w1)" and msg: "type_error type = Some msg"
  shows "\<exists>st'. render_template env st = Some (False, st') \<and> stopped st' (pos + length (print_node v)) w1 out msg"
proof -
  obtain print st1 where st1: "render_template env st = turn env (render_value env print n st1)"
      "at_node env T st1 (pos + length (print_node v)) F ls w out"
    using v variable_node [OF env at _ r, of n] unescaped_node [OF env at _ r, of n] drop wf by blast
  have "render_value env print n st1 = Some (False, st1\<lparr>b_world := w1, b_error := msg\<rparr>)"
    using st1(2) resolved msg by (cases type) (auto simp: render_value_def resolve_def ready_def fail_def type_error_def)
  then show ?thesis
    using st1 ls type_error_message [OF msg] by (auto simp: stopped_def ready_def at_pos_def)
qed

lemma with_string_stuck:
  assumes "stuck_string (se_client env) h w = Some (s, w2)" "b_world st = w"
    and print: "\<And>w1. print (Some s) (st\<lparr>b_world := w1\<rparr>) = Some (st\<lparr>b_world := w1, b_output := out\<rparr>)"
  shows "with_string env h print st = Some (False, st\<lparr>b_world := w2, b_output := out, b_error := ''could not free string''\<rparr>)"
  using assms(1,2) by (auto simp: stuck_string_def with_string_def call_def fail_def print split: bind_splits prod.splits if_splits)

text \<open>A string that cannot be released after it has been put out.\<close>

lemma string_stops:
  assumes env: "se_input env = ops" and at: "at_node env T st pos F ls w out" and ls: "named_loops ls"
    and v: "v = Variable n \<and> ts = map escape_char s \<or> v = Unescaped n \<and> ts = [s]"
    and drop: "drop pos T = print_node v @ r" and r: "r \<noteq> []" and wf: "wf_node v"
    and resolved: "sc_resolve (se_client env) n w = ((Cad_stache_string, h), w1)" and str: "stuck_string (se_client env) h w1 = Some (s, w2)"
    and out: "put_all (se_output env) out (shown (skips ls) ts) = Some out1"
  shows "\<exists>st'. render_template env st = Some (False, st') \<and> stopped st' (pos + length (print_node v)) w2 out1 ''could not free string''"
proof -
  obtain print st1 where st1: "render_template env st = turn env (render_value env print n st1)"
      "at_node env T st1 (pos + length (print_node v)) F ls w out"
      "v = Variable n \<and> print = print_escaped env \<or> v = Unescaped n \<and> print = print_raw env"
    using v variable_node [OF env at _ r, of n] unescaped_node [OF env at _ r, of n] drop wf by blast
  have put: "put_all (se_output env) (b_output st1) (shown (buffer_skip_output st1) ts) = Some out1"
    using out st1(2) ready_skips [OF st1(2)] by (simp add: ready_def)
  have "print (Some s) (st1\<lparr>b_world := w'\<rparr>) = Some (st1\<lparr>b_world := w', b_output := out1\<rparr>)" for w'
    using v st1(3) put print_escaped_shown [of env st1 s out1 w'] print_raw_shown [of env st1 s out1 w'] by auto
  then have "with_string env h print (st1\<lparr>b_world := w1\<rparr>) =
      Some (False, st1\<lparr>b_world := w2, b_output := out1, b_error := ''could not free string''\<rparr>)"
    using with_string_stuck [OF str, of "st1\<lparr>b_world := w1\<rparr>" print out1] by simp
  then have "render_value env print n st1 = Some (False, st1\<lparr>b_world := w2, b_output := out1, b_error := ''could not free string''\<rparr>)"
    using st1(2) resolved by (simp add: render_value_def resolve_def ready_def)
  then show ?thesis using st1(1,2) ls by (auto simp: stopped_def ready_def at_pos_def)
qed

text \<open>An end tag that is not that of the innermost section.\<close>

lemma end_stops:
  assumes env: "se_input env = ops" and at: "at_node env T st pos F ls w out" and ls: "named_loops ls" "inner_loop ls = inner" "inner \<noteq> Some n"
    and drop: "drop pos T = print_node (End n) @ r" and r: "r \<noteq> []" and wf: "wf_name n"
  shows "\<exists>st'. render_template env st = Some (False, st') \<and> stopped st' (pos + length (print_node (End n))) w out
    (if inner = None then ''closing non-open loop'' else ''closing loop name different from opening loop name'')"
proof -
  obtain st1 where st1: "at_node env T st1 (pos + length n + 5) F ls w out" "render_template env st = turn env (close_loop env n st1)"
    using end_node [OF env at _ r wf] drop by auto
  have none: "inner = None \<longleftrightarrow> ls = []" using ls(1,2) by (cases ls rule: rev_cases) auto
  show ?thesis
    using st1 ls none by (auto simp: close_loop_def Let_def fail_def stopped_def ready_def at_pos_def split: if_splits)
qed

text \<open>A section that cannot be decided.\<close>

lemma section_stops:
  assumes env: "se_input env = ops" and at: "at_node env T st pos F ls w out" and ls: "named_loops ls"
    and v: "v = Section n body \<and> c = CHR ''#'' \<or> v = Inverted n body \<and> c = CHR ''^''"
    and "drop pos T = print_node v @ r" "r \<noteq> []" and wf: "wf_node v"
    and resolved: "sc_resolve (se_client env) n w = ((type, h), w1)" and err: "section_error (se_client env) type h w1 = Some (msg, w2)"
  shows "\<exists>st'. render_template env st = Some (False, st') \<and> stopped st' (pos + length (''{{'' @ c # n @ ''}}'')) w2 out msg"
proof -
  have drop: "drop pos T = ''{{'' @ c # n @ ''}}'' @ print_nodes body @ ''{{/'' @ n @ ''}}'' @ r" and n: "wf_name n"
    using assms(5) v wf by auto
  obtain lt where "c = CHR ''#'' \<and> lt = Loop_while \<or> c = CHR ''^'' \<and> lt = Loop_else" using v by blast
  then obtain st1 where st1: "render_template env st = turn env (open_loop env lt n st1)" "at_node env T st1 (pos + length n + 5) F ls w out"
    using open_node [OF env at drop _ n] by auto
  have "\<exists>e. loop_empty env type h (st1\<lparr>b_world := w1\<rparr>) = Some (e, False, st1\<lparr>b_world := w2, b_error := msg\<rparr>)"
  proof (cases type)
    case Cad_stache_string
    obtain v w' where v: "(case sc_string_get (se_client env) h of None \<Rightarrow> (NULL, w1) | Some get \<Rightarrow> get w1) = (v, w')"
      by fastforce
    then have "release (sc_string_free (se_client env) h) ''could not free string'' (st1\<lparr>b_world := w'\<rparr>) =
        Some (False, st1\<lparr>b_world := w2, b_error := msg\<rparr>)"
      using err Cad_stache_string
      by (auto simp: section_error_def release_def call_def fail_def split: option.splits prod.splits if_splits)
    then show ?thesis
      using v Cad_stache_string st1(2)
      by (cases "sc_string_get (se_client env) h") (auto simp: loop_empty_def string_empty_def call_def ready_def)
  qed (use err in \<open>auto simp: section_error_def loop_empty_def\<close>)
  then obtain l where "open_loop env lt n st1 = Some (False, st1\<lparr>b_world := w2, b_error := msg, b_loops := ls @ [l]\<rparr>)" "sl_name l = Some n"
    using st1(2) resolved by (auto simp: open_loop_def resolve_def ready_def)
  then show ?thesis
    using st1 ls section_error_message [OF err] by (auto simp: stopped_def ready_def at_pos_def)
qed

end

context input_stream
begin

text \<open>The end of a list that cannot be closed: its name is released, and the loop stays.\<close>

lemma list_stops:
  assumes env: "se_input env = ops" and at: "at_node env T st pos F (ls @ [list_loop lt n h bpos e i]) w out"
    and "drop pos T = ''{{/'' @ n @ ''}}'' @ r" "r \<noteq> []" "wf_name n"
    and get: "lt = Loop_else \<and> w1 = w \<or> lt = Loop_while \<and> sc_list_get (se_client env) h = Some get \<and> get (Suc i) w = (False, w1)"
    and close: "stuck_list (se_client env) h w1 w2"
  shows "\<exists>st'. render_template env st = Some (False, st') \<and> stopped st' (pos + length n + 5) w2 out list_error"
proof -
  let ?l = "list_loop lt n h bpos e i"
  obtain st1 where st1: "at_node env T st1 (pos + length n + 5) F (ls @ [?l]) w out"
      "render_template env st = turn env (list_turn env ?l st1)"
    using close_node [OF env at assms(3-5)] by (auto simp: list_loop_def)
  then have "b_loops st1 = ls @ [?l]" "b_world st1 = w" by (simp_all add: ready_def)
  then have "\<exists>l. list_turn env ?l st1 = Some (False, st1\<lparr>b_world := w2, b_loops := ls @ [l], b_error := list_error\<rparr>) \<and> sl_name l = NULL"
    using get close by (auto simp: list_turn_def list_loop_def call_def fail_def stuck_list_def Let_def split: option.splits)
  then obtain l where "list_turn env ?l st1 = Some (False, st1\<lparr>b_world := w2, b_loops := ls @ [l], b_error := list_error\<rparr>)"
      "sl_name l = NULL" by blast
  then show ?thesis using st1 by (simp add: stopped_def ready_def at_pos_def)
qed

text \<open>A partial that is a list: its tag is taken out of the buffer before the error is reported.\<close>

lemma partial_list_stops:
  assumes env: "se_input env = ops" and at: "at_node env (a @ ''{{>'' @ n @ ''}}'' @ c # u) st (length a) F ls w out" and ls: "named_loops ls"
    and F: "F \<le> Suc (length a)" and n: "wf_name n" and resolved: "sc_resolve (se_client env) n w = ((Cad_stache_list, h), w1)"
    and close: "sc_list_close (se_client env) h = Some close" "close w1 = (ok, w2)"
  shows "\<exists>st'. render_template env st = Some (False, st') \<and> stopped st' (length a) w2 out ''unexpected list for partial''"
proof -
  let ?T = "a @ ''{{>'' @ n @ ''}}'' @ c # u" and ?V = "a @ u" and ?m = "''unexpected list for partial''"
  let ?p = "length a + length n + 5"
  have n': "c_name n = n" using n by (auto simp: wf_name_def intro: c_name_no_nul)
  obtain st2 st3 where st3: "render_template env st = turn env (render_stache_partial env (int (length a)) st2)"
      "parse_name env NULL st2 = Some (Some n, st3)" "at_node env ?T st3 ?p F ls w out" "b_fill st3 = Suc ?p" "drop ?p ?T = c # u"
    using partial_turn [OF env at F _ n] by auto
  have at3: "at_pos rest inv (se_client env) ?T st3 ?p" "b_loops st3 = ls" "b_world st3 = w" "b_output st3 = out"
    using st3(3) by (simp_all add: ready_def)
  let ?st4 = "st3\<lparr>b_error := ?m, b_world := w2, b_index := int (length a) - 1, b_fill := length a\<rparr>"
  have "to_come (b_partials st3) @ rest (b_input st3) = u" "take (length a) (b_data st3) = a"
    using at3(1) st3(4) drop_Cons_nth [OF st3(5)]
    by (auto simp: at_pos_def reading_def min_def dest: arg_cong [of _ _ "take (length a)"])
  then have reading: "reading rest inv (se_client env) ?V ?st4" using at3(1) st3(4) by (auto simp: at_pos_def reading_def)
  then obtain st5 where st5: "buffer_next env ?st4 = Some (True, st5)" "same_run ?st4 st5"
    using buffer_next_frontier [OF env, of ?V ?st4] by auto
  have index: "b_index st5 = int (length a)"
    using buffer_next_shape [OF st5(1)] reading by (auto simp: reading_def stache_shape_def)
  have "render_stache_partial env (int (length a)) st2 = Some (False, st5)"
    using st3(2) n' resolved close at3(3) st5(1) by (simp add: render_stache_partial_def resolve_def partial_source_def call_def)
  then have "render_template env st = Some (False, st5)" using st3(1) by simp
  then show ?thesis using st5(2) at3(2,4) index ls by (auto simp: stopped_def same_run_def)
qed

end

section \<open>The simulation\<close>

context input_stream
begin

text \<open>From the beginning of the text of the nodes, or of the body of a list, to the error.\<close>

abbreviation stops where
  "stops env inner skip ns w ts w' before msg g \<equiv> \<forall>a st F ls out out' r.
     at_node env (a @ print_nodes ns @ r) st (length a) F ls w out \<longrightarrow> r \<noteq> [] \<longrightarrow> list_all wf_node ns \<longrightarrow>
     named_loops ls \<longrightarrow> inner_loop ls = inner \<longrightarrow>
     skips ls = skip \<longrightarrow> F \<le> Suc (length a) \<or> list_all expanded ns \<longrightarrow> length (a @ print_nodes ns @ r) + g \<le> 2 ^ 29 \<longrightarrow>
     put_all (se_output env) out ts = Some out' \<longrightarrow>
     (\<exists>st'. render_template env st = Some (False, st') \<and> stopped st' (length (a @ before)) w' out' msg)"

abbreviation list_stops_in where
  "list_stops_in env n skip h body i w ts w' before msg g \<equiv> \<forall>a st F ls out out' r e.
     at_node env (a @ print_nodes body @ ''{{/'' @ n @ ''}}'' @ r) st (length a) F
       (ls @ [list_loop Loop_while n h (length a) e i]) w out \<longrightarrow>
     r \<noteq> [] \<longrightarrow> list_all wf_node body \<longrightarrow> wf_name n \<longrightarrow> named_loops ls \<longrightarrow>
     skip = (skips ls \<or> e) \<longrightarrow> F \<le> Suc (length a) \<or> list_all expanded body \<longrightarrow>
     length (a @ print_nodes body @ ''{{/'' @ n @ ''}}'' @ r) + g \<le> 2 ^ 29 \<longrightarrow>
     put_all (se_output env) out ts = Some out' \<longrightarrow>
     (\<exists>st'. render_template env st = Some (False, st') \<and> stopped st' (length (a @ before)) w' out' msg)"

text \<open>A node that breaks at once.\<close>

lemma node_stops:
  fixes env :: "('s, 'o, 'w, 'h, 'i) stache_env"
  assumes "\<And>T st pos F ls out out1 r. at_node env T st pos F ls w out \<Longrightarrow> named_loops ls \<Longrightarrow> inner_loop ls = inner \<Longrightarrow>
      drop pos T = print_node v @ r \<Longrightarrow> r \<noteq> [] \<Longrightarrow> wf_node v \<Longrightarrow> skips ls = skip \<Longrightarrow>
      put_all (se_output env) out ts = Some out1 \<Longrightarrow>
      \<exists>st'. render_template env st = Some (False, st') \<and> stopped st' (pos + length before) w1 out1 msg"
  shows "stops env inner skip (v # ns) w ts w1 before msg g"
proof (intro allI impI)
  fix a F ls out out' r and st :: "('s, 'o, 'w, 'h, 'i) stache_state"
  assume "at_node env (a @ print_nodes (v # ns) @ r) st (length a) F ls w out" "r \<noteq> []" "list_all wf_node (v # ns)"
    "named_loops ls" "inner_loop ls = inner" "skips ls = skip" "put_all (se_output env) out ts = Some out'"
  then show "\<exists>st'. render_template env st = Some (False, st') \<and> stopped st' (length (a @ before)) w1 out' msg"
    using assms [of "a @ print_nodes (v # ns) @ r" st "length a" F ls out "print_nodes ns @ r" out'] by auto
qed

text \<open>Nodes that are valid, and then those that break.\<close>

lemma then_stops:
  fixes env :: "('s, 'o, 'w, 'h, 'i) stache_env"
  assumes env: "se_input env = ops" and first: "renders (se_client env) tree skip ms w ts w1 us g"
    and left: "stops env inner skip ns w1 ts' w' before msg g'"
  shows "stops env inner skip (ms @ ns) w (ts @ ts') w' (print_nodes us @ before) msg (g + g')"
proof (intro allI impI)
  fix a F ls out out' r and st :: "('s, 'o, 'w, 'h, 'i) stache_state"
  assume at: "at_node env (a @ print_nodes (ms @ ns) @ r) st (length a) F ls w out" and r: "r \<noteq> []"
    and wf: "list_all wf_node (ms @ ns)" and ls: "named_loops ls" "inner_loop ls = inner" "skips ls = skip"
    and F: "F \<le> Suc (length a) \<or> list_all expanded (ms @ ns)" and g: "length (a @ print_nodes (ms @ ns) @ r) + (g + g') \<le> 2 ^ 29"
    and out: "put_all (se_output env) out (ts @ ts') = Some out'"
  obtain out1 where out1: "put_all (se_output env) out ts = Some out1" "put_all (se_output env) out1 ts' = Some out'"
    using out by (auto simp: put_all_append split: bind_splits)
  let ?a = "a @ print_nodes us"
  have len: "length (print_nodes us) \<le> length (print_nodes ms) + g" using print_expanded(1) [OF first] by simp
  have at': "at_node env (a @ print_nodes ms @ print_nodes ns @ r) st (length a) F ls w out" using at by simp
  obtain st1 where st1: "render_template env st = render_template env st1"
      "at_node env (a @ print_nodes us @ print_nodes ns @ r) st1 (length ?a) F ls w1 out1"
    using simulation(1) [OF env first, rule_format, OF at' _ _ ls(3) _ _ out1(1)] r wf F g by auto
  have at1: "at_node env (?a @ print_nodes ns @ r) st1 (length ?a) F ls w1 out1" using st1(2) by simp
  show "\<exists>st'. render_template env st = Some (False, st') \<and> stopped st' (length (a @ print_nodes us @ before)) w' out' msg"
    using left [rule_format, OF at1 r _ ls _ _ out1(2)] wf F g len st1(1) by auto
qed

end

context input_stream
begin

text \<open>The body of a section breaks, in its first turn where it is over a list.\<close>

lemma section_body_stops:
  fixes env :: "('s, 'o, 'w, 'h, 'i) stache_env"
  assumes env: "se_input env = ops" and resolved: "sc_resolve (se_client env) n w = ((type, h), w1)"
    and truth: "truth (se_client env) type h w1 = Some (b, w2)"
    and c: "c = CHR ''#'' \<and> lt = Loop_while \<and> k = (\<not> b) \<and> v = Section n body \<or> c = CHR ''^'' \<and> lt = Loop_else \<and> k = b \<and> v = Inverted n body"
    and body: "stops env (Some n) (skip \<or> k) body w2 ts w' before msg g"
  shows "stops env inner skip (v # ns) w ts w' (''{{'' @ c # n @ ''}}'' @ before) msg g"
proof (intro allI impI)
  fix a F ls out out' r and st :: "('s, 'o, 'w, 'h, 'i) stache_state"
  assume at: "at_node env (a @ print_nodes (v # ns) @ r) st (length a) F ls w out" and r: "r \<noteq> []"
    and wf: "list_all wf_node (v # ns)" and ls: "named_loops ls" "inner_loop ls = inner" "skips ls = skip"
    and F: "F \<le> Suc (length a) \<or> list_all expanded (v # ns)" and g: "length (a @ print_nodes (v # ns) @ r) + g \<le> 2 ^ 29"
    and out: "put_all (se_output env) out ts = Some out'"
  have n: "wf_name n" "list_all wf_node body" using wf c by auto
  let ?b = "a @ ''{{'' @ c # n @ ''}}''" and ?r = "''{{/'' @ n @ ''}}'' @ print_nodes ns @ r"
  have v: "a @ print_nodes (v # ns) @ r = ?b @ print_nodes body @ ?r" using c by auto
  obtain st1 where st1: "render_template env st = turn env (open_loop env lt n st1)"
      "at_node env (?b @ print_nodes body @ ?r) st1 (length a + length n + 5) F ls w out"
    using open_node [OF env at _ _ n(1), of c "print_nodes body @ ?r" lt] c unfolding v by auto
  obtain l st2 where st2: "open_loop env lt n st1 = Some (True, st2)"
      "at_node env (?b @ print_nodes body @ ?r) st2 (length a + length n + 5) F (ls @ [l]) w2 out"
      "sl_name l = Some n" "loop_skips l = k"
    using open_truth [OF st1(2) resolved truth, of lt] c by auto
  have at2: "at_node env (?b @ print_nodes body @ ?r) st2 (length ?b) F (ls @ [l]) w2 out"
    using st2(2) by (simp add: eval_nat_numeral)
  obtain st3 where "render_template env st2 = Some (False, st3)" "stopped st3 (length (?b @ before)) w' out' msg"
    using body [rule_format, OF at2 _ n(2) _ _ _ _ g [unfolded v] out] st2(3,4) ls(1,3) F c by auto
  then show "\<exists>st'. render_template env st = Some (False, st') \<and> stopped st' (length (a @ ''{{'' @ c # n @ ''}}'' @ before)) w' out' msg"
    using st1(1) st2(1) by auto
qed

lemma list_section_stops:
  fixes env :: "('s, 'o, 'w, 'h, 'i) stache_env"
  assumes env: "se_input env = ops" and resolved: "sc_resolve (se_client env) n w = ((Cad_stache_list, h), w1)"
    and get: "sc_list_get (se_client env) h = Some get" "get 0 w1 = (b, w2)"
    and c: "c = CHR ''#'' \<and> lt = Loop_while \<and> v = Section n body \<or> c = CHR ''^'' \<and> lt = Loop_else \<and> v = Inverted n body"
    and body: "\<And>a st F ls out out' r.
      at_node env (a @ print_nodes body @ ''{{/'' @ n @ ''}}'' @ r) st (length a) F (ls @ [list_loop lt n h (length a) (\<not> b) 0]) w2 out \<Longrightarrow>
      r \<noteq> [] \<Longrightarrow> list_all wf_node body \<Longrightarrow> wf_name n \<Longrightarrow> named_loops ls \<Longrightarrow> skips ls = skip \<Longrightarrow>
      F \<le> Suc (length a) \<or> list_all expanded body \<Longrightarrow> length (a @ print_nodes body @ ''{{/'' @ n @ ''}}'' @ r) + g \<le> 2 ^ 29 \<Longrightarrow>
      put_all (se_output env) out ts = Some out' \<Longrightarrow>
      \<exists>st'. render_template env st = Some (False, st') \<and> stopped st' (length (a @ before)) w' out' msg"
  shows "stops env inner skip (v # ns) w ts w' (''{{'' @ c # n @ ''}}'' @ before) msg g"
proof (intro allI impI)
  fix a F ls out out' r and st :: "('s, 'o, 'w, 'h, 'i) stache_state"
  assume at: "at_node env (a @ print_nodes (v # ns) @ r) st (length a) F ls w out" and r: "r \<noteq> []"
    and wf: "list_all wf_node (v # ns)" and ls: "named_loops ls" "inner_loop ls = inner" "skips ls = skip"
    and F: "F \<le> Suc (length a) \<or> list_all expanded (v # ns)" and g: "length (a @ print_nodes (v # ns) @ r) + g \<le> 2 ^ 29"
    and out: "put_all (se_output env) out ts = Some out'"
  have n: "wf_name n" "list_all wf_node body" using wf c by auto
  let ?b = "a @ ''{{'' @ c # n @ ''}}''" and ?r = "print_nodes ns @ r"
  have v: "a @ print_nodes (v # ns) @ r = ?b @ print_nodes body @ ''{{/'' @ n @ ''}}'' @ ?r" using c by auto
  have p: "length ?b = length a + length n + 5" by simp
  obtain st2 where st2: "render_template env st = render_template env st2"
      "at_node env (?b @ print_nodes body @ ''{{/'' @ n @ ''}}'' @ ?r) st2 (length ?b) F (ls @ [list_loop lt n h (length ?b) (\<not> b) 0]) w2 out"
    using open_list_node [OF env at _ n(1) _ _ resolved get, of "print_nodes body @ ''{{/'' @ n @ ''}}'' @ ?r" c lt] c
    unfolding v p by auto
  have "F \<le> Suc (length ?b) \<or> list_all expanded body" "?r \<noteq> []" using F c r by auto
  then show "\<exists>st'. render_template env st = Some (False, st') \<and> stopped st' (length (a @ ''{{'' @ c # n @ ''}}'' @ before)) w' out' msg"
    using body [OF st2(2) _ n(2,1) ls(1,3) _ g [unfolded v] out] st2(1) by auto
qed

end

context input_stream
begin

text \<open>The turns of a list.\<close>

lemma list_body_stops:
  fixes env :: "('s, 'o, 'w, 'h, 'i) stache_env"
  assumes body: "stops env (Some n) skip body w ts w' before msg g"
  shows "list_stops_in env n skip h body i w ts w' before msg g"
proof (intro allI impI)
  fix a F ls out out' r e and st :: "('s, 'o, 'w, 'h, 'i) stache_state"
  assume at: "at_node env (a @ print_nodes body @ ''{{/'' @ n @ ''}}'' @ r) st (length a) F (ls @ [list_loop Loop_while n h (length a) e i]) w out"
    and "r \<noteq> []" and wf: "list_all wf_node body" and "wf_name n" "named_loops ls" "skip = (skips ls \<or> e)"
    and F: "F \<le> Suc (length a) \<or> list_all expanded body"
    and g: "length (a @ print_nodes body @ ''{{/'' @ n @ ''}}'' @ r) + g \<le> 2 ^ 29" and out: "put_all (se_output env) out ts = Some out'"
  then show "\<exists>st'. render_template env st = Some (False, st') \<and> stopped st' (length (a @ before)) w' out' msg"
    using body [rule_format, OF at _ wf _ _ _ F g out] by (auto simp: list_loop_def loop_skips_def)
qed

lemma list_close_stops:
  fixes env :: "('s, 'o, 'w, 'h, 'i) stache_env"
  assumes env: "se_input env = ops" and body: "follows env skip body w ts w1 us g"
    and get: "sc_list_get (se_client env) h = Some get" "get (Suc i) w1 = (False, w2)" and close: "stuck_list (se_client env) h w2 w'"
  shows "list_stops_in env n skip h body i w ts w' (print_nodes us @ ''{{/'' @ n @ ''}}'') list_error g"
proof (intro allI impI)
  fix a F ls out out' r e and st :: "('s, 'o, 'w, 'h, 'i) stache_state"
  assume at: "at_node env (a @ print_nodes body @ ''{{/'' @ n @ ''}}'' @ r) st (length a) F (ls @ [list_loop Loop_while n h (length a) e i]) w out"
    and r: "r \<noteq> []" and wf: "list_all wf_node body" "wf_name n" and "named_loops ls" and skip: "skip = (skips ls \<or> e)"
    and F: "F \<le> Suc (length a) \<or> list_all expanded body"
    and g: "length (a @ print_nodes body @ ''{{/'' @ n @ ''}}'' @ r) + g \<le> 2 ^ 29" and out: "put_all (se_output env) out ts = Some out'"
  obtain st1 where st1: "render_template env st = render_template env st1"
      "at_node env (a @ print_nodes us @ ''{{/'' @ n @ ''}}'' @ r) st1 (length (a @ print_nodes us)) F
        (ls @ [list_loop Loop_while n h (length a) e i]) w1 out'"
    using list_body [OF env at wf(1) F g body [unfolded skip] out] by blast
  obtain st2 where "render_template env st1 = Some (False, st2)" "stopped st2 (length (a @ print_nodes us) + length n + 5) w' out' list_error"
    using list_stops [OF env st1(2) drop_here r wf(2) _ close] get by blast
  moreover have "length (a @ print_nodes us) + length n + 5 = length (a @ print_nodes us @ ''{{/'' @ n @ ''}}'')" by simp
  ultimately show "\<exists>st'. render_template env st = Some (False, st') \<and>
      stopped st' (length (a @ print_nodes us @ ''{{/'' @ n @ ''}}'')) w' out' list_error"
    using st1(1) by metis
qed

lemma list_more_stops:
  fixes env :: "('s, 'o, 'w, 'h, 'i) stache_env"
  assumes env: "se_input env = ops" and body: "renders (se_client env) tree skip body w ts w1 us g"
    and get: "sc_list_get (se_client env) h = Some get" "get (Suc i) w1 = (True, w2)"
    and again: "list_stops_in env n skip h us (Suc i) w2 ts' w' before msg g'"
  shows "list_stops_in env n skip h body i w (ts @ ts') w' before msg (g + g')"
proof (intro allI impI)
  fix a F ls out out' r e and st :: "('s, 'o, 'w, 'h, 'i) stache_state"
  assume at: "at_node env (a @ print_nodes body @ ''{{/'' @ n @ ''}}'' @ r) st (length a) F (ls @ [list_loop Loop_while n h (length a) e i]) w out"
    and r: "r \<noteq> []" and wf: "list_all wf_node body" "wf_name n" and ls: "named_loops ls" and skip: "skip = (skips ls \<or> e)"
    and F: "F \<le> Suc (length a) \<or> list_all expanded body"
    and g: "length (a @ print_nodes body @ ''{{/'' @ n @ ''}}'' @ r) + (g + g') \<le> 2 ^ 29"
    and out: "put_all (se_output env) out (ts @ ts') = Some out'"
  let ?T = "a @ print_nodes us @ ''{{/'' @ n @ ''}}'' @ r" and ?p = "length (a @ print_nodes us)"
  note us = print_expanded(1) [OF body]
  obtain out1 where out1: "put_all (se_output env) out ts = Some out1" "put_all (se_output env) out1 ts' = Some out'"
    using out by (auto simp: put_all_append split: bind_splits)
  obtain st1 where st1: "render_template env st = render_template env st1"
      "at_node env ?T st1 ?p F (ls @ [list_loop Loop_while n h (length a) e i]) w1 out1"
    using list_body [OF env at wf(1) F _ simulation(1) [OF env body, unfolded skip] out1(1)] g by auto
  obtain st2 where st2: "render_template env st1 = render_template env st2"
      "at_node env ?T st2 (length a) (max F (?p + length n + 6)) (ls @ [list_loop Loop_while n h (length a) e (Suc i)]) w2 out1"
    using repeat_list [OF env st1(2) drop_here r wf(2) get] by auto
  have g2: "length ?T + g' \<le> 2 ^ 29" using g us by simp
  show "\<exists>st'. render_template env st = Some (False, st') \<and> stopped st' (length (a @ before)) w' out' msg"
    using again [rule_format, OF st2(2) r _ wf(2) ls skip _ g2 out1(2)] us wf(1) st1(1) st2(1) by auto
qed

end

context input_stream
begin

lemma partial_breaks:
  fixes env :: "('s, 'o, 'w, 'h, 'i) stache_env"
  assumes env: "se_input env = ops" and resolved: "sc_resolve (se_client env) n w = ((Cad_stache_string, h), w1)"
    and get: "sc_string_get (se_client env) h = Some get" "get w1 = (Some p, w2)" "quiet_free (se_client env) h"
    and p: "parsed tree p" and left: "stops env inner skip (tree p @ ns) w2 ts w' before msg g"
  shows "stops env inner skip (Partial n # ns) w ts w' before msg (length p + g)"
proof (intro allI impI)
  fix a F ls out out' r and st :: "('s, 'o, 'w, 'h, 'i) stache_state"
  assume at: "at_node env (a @ print_nodes (Partial n # ns) @ r) st (length a) F ls w out" and r: "r \<noteq> []"
    and wf: "list_all wf_node (Partial n # ns)" and ls: "named_loops ls" "inner_loop ls = inner" "skips ls = skip"
    and F: "F \<le> Suc (length a) \<or> list_all expanded (Partial n # ns)"
    and g: "length (a @ print_nodes (Partial n # ns) @ r) + (length p + g) \<le> 2 ^ 29"
    and out: "put_all (se_output env) out ts = Some out'"
  obtain c u where u: "print_nodes ns @ r = c # u" using r by (cases "print_nodes ns @ r") auto
  have p': "print_nodes (tree p) = p" "list_all wf_node (tree p)" "valid_cstring p" "CHR 0xFF \<notin> set p"
    using p by (simp_all add: parsed_def)
  have F': "F \<le> Suc (length a)" using F by simp
  obtain st1 where st1: "render_template env st = render_template env st1"
      "at_node env (a @ p @ c # u) st1 (length a) F ls w2 out"
    using partial_opens [OF env _ F' _ resolved get p'(3,4), of c u st ls out] at wf g u [symmetric] by auto
  have V: "a @ p @ c # u = a @ print_nodes (tree p @ ns) @ r" using u p'(1) by simp
  show "\<exists>st'. render_template env st = Some (False, st') \<and> stopped st' (length (a @ before)) w' out' msg"
    using left [rule_format, OF st1(2) [unfolded V] r _ ls _ _ out] F' wf p'(1,2) g st1(1) by auto
qed

lemma partial_list_breaks:
  fixes env :: "('s, 'o, 'w, 'h, 'i) stache_env"
  assumes env: "se_input env = ops" and resolved: "sc_resolve (se_client env) n w = ((Cad_stache_list, h), w1)"
    and close: "sc_list_close (se_client env) h = Some close" "close w1 = (ok, w2)"
  shows "stops env inner skip (Partial n # ns) w [] w2 [] ''unexpected list for partial'' 0"
proof (intro allI impI)
  fix a F ls out out' r and st :: "('s, 'o, 'w, 'h, 'i) stache_state"
  assume at: "at_node env (a @ print_nodes (Partial n # ns) @ r) st (length a) F ls w out" and r: "r \<noteq> []"
    and wf: "list_all wf_node (Partial n # ns)" and ls: "named_loops ls"
    and F: "F \<le> Suc (length a) \<or> list_all expanded (Partial n # ns)" and out: "put_all (se_output env) out [] = Some out'"
  obtain c u where u: "print_nodes ns @ r = c # u" using r by (cases "print_nodes ns @ r") auto
  show "\<exists>st'. render_template env st = Some (False, st') \<and> stopped st' (length (a @ [])) w2 out' ''unexpected list for partial''"
    using partial_list_stops [OF env _ ls _ _ resolved close, of a c u st F out] at wf F u out by auto
qed

lemma inverted_close_stops:
  fixes env :: "('s, 'o, 'w, 'h, 'i) stache_env"
  assumes env: "se_input env = ops" and resolved: "sc_resolve (se_client env) n w = ((Cad_stache_list, h), w1)"
    and get: "sc_list_get (se_client env) h = Some get" "get 0 w1 = (b, w2)"
    and body: "follows env (skip \<or> b) body w2 ts w3 us g" and close: "stuck_list (se_client env) h w3 w'"
  shows "stops env inner skip (Inverted n body # ns) w ts w' (print_node (Inverted n us)) list_error g"
proof -
  have "stops env inner skip (Inverted n body # ns) w ts w'
      (''{{'' @ CHR ''^'' # n @ ''}}'' @ print_nodes us @ ''{{/'' @ n @ ''}}'') list_error g"
  proof (rule list_section_stops [OF env resolved get, of _ Loop_else])
    fix a :: cstring and F ls out out' r and st :: "('s, 'o, 'w, 'h, 'i) stache_state"
    let ?l = "list_loop Loop_else n h (length a) (\<not> b) 0"
    assume at: "at_node env (a @ print_nodes body @ ''{{/'' @ n @ ''}}'' @ r) st (length a) F (ls @ [?l]) w2 out"
      and r: "r \<noteq> []" and wf: "list_all wf_node body" "wf_name n" and skip: "skips ls = skip"
      and F: "F \<le> Suc (length a) \<or> list_all expanded body"
      and g: "length (a @ print_nodes body @ ''{{/'' @ n @ ''}}'' @ r) + g \<le> 2 ^ 29" and out: "put_all (se_output env) out ts = Some out'"
    have skips: "loop_skips ?l = b" by (simp add: list_loop_def loop_skips_def)
    obtain st1 where st1: "render_template env st = render_template env st1"
        "at_node env (a @ print_nodes us @ ''{{/'' @ n @ ''}}'' @ r) st1 (length (a @ print_nodes us)) F (ls @ [?l]) w3 out'"
      using section_body [OF env at wf(1) F g skips body [folded skip] out] by blast
    obtain st2 where "render_template env st1 = Some (False, st2)" "stopped st2 (length (a @ print_nodes us) + length n + 5) w' out' list_error"
      using list_stops [OF env st1(2) drop_here r wf(2) _ close] by blast
    moreover have "length (a @ print_nodes us) + length n + 5 = length (a @ print_nodes us @ ''{{/'' @ n @ ''}}'')" by simp
    ultimately show "\<exists>st'. render_template env st = Some (False, st') \<and>
        stopped st' (length (a @ print_nodes us @ ''{{/'' @ n @ ''}}'')) w' out' list_error"
      using st1(1) by metis
  qed simp
  then show ?thesis by simp
qed

text \<open>The engine stops at the error that the meaning gives.\<close>

lemma break_simulation:
  fixes env :: "('s, 'o, 'w, 'h, 'i) stache_env"
  assumes env: "se_input env = ops"
  shows "breaks (se_client env) tree inner skip ns w ts w' before msg g \<Longrightarrow> stops env inner skip ns w ts w' before msg g"
    and "list_breaks (se_client env) tree n skip h body i w ts w' before msg g \<Longrightarrow> list_stops_in env n skip h body i w ts w' before msg g"
proof (induction rule: breaks_list_breaks.inducts)
  case (b_then skip ms w ts w1 us g inner ns ts' w' before msg g')
  show ?case by (rule then_stops [OF env b_then(1,3)])
next
  case (b_type v n w type h w1 msg inner skip ns)
  show ?case by (rule node_stops) (use type_stops [OF env _ _ b_type(1) _ _ _ b_type(3,2)] in auto)
next
  case (b_variable n w h w1 s w2 inner skip ns)
  show ?case
    by (rule node_stops) (use string_stops [OF env, where v = "Variable n" and ts = "map escape_char s", OF _ _ _ _ _ _ b_variable(1,2)] in auto)
next
  case (b_unescaped n w h w1 s w2 inner skip ns)
  show ?case
    by (rule node_stops) (use string_stops [OF env, where v = "Unescaped n" and ts = "[s]", OF _ _ _ _ _ _ b_unescaped(1,2)] in auto)
next
  case (b_end inner n skip ns w)
  show ?case by (rule node_stops) (use end_stops [OF env] b_end in auto)
next
  case (b_partial n w h w1 get p w2 inner skip ns ts w' before msg g)
  show ?case by (rule partial_breaks [OF env b_partial(1,2,7,3,4,6)])
next
  case (b_partial_list n w h w1 close ok w2 inner skip ns)
  show ?case by (rule partial_list_breaks [OF env b_partial_list])
next
  case (b_section_type v n body c w type h w1 msg w2 inner skip ns)
  show ?case
    by (rule node_stops) (use section_stops [OF env] b_section_type in auto)
next
  case (b_section n w type h w1 b w2 skip body ts w' before msg g inner ns)
  have "stops env inner skip (Section n body # ns) w ts w' (''{{'' @ CHR ''#'' # n @ ''}}'' @ before) msg g"
    by (rule section_body_stops [OF env b_section(1,2) _ b_section(4), of _ Loop_while]) simp
  then show ?case by simp
next
  case (b_inverted n w type h w1 b w2 skip body ts w' before msg g inner ns)
  have "stops env inner skip (Inverted n body # ns) w ts w' (''{{'' @ CHR ''^'' # n @ ''}}'' @ before) msg g"
    by (rule section_body_stops [OF env b_inverted(1,2) _ b_inverted(4), of _ Loop_else]) simp
  then show ?case by simp
next
  case (b_section_list n w h w1 get b w2 skip body ts w' before msg g inner ns)
  have "stops env inner skip (Section n body # ns) w ts w' (''{{'' @ CHR ''#'' # n @ ''}}'' @ before) msg g"
    by (rule list_section_stops [OF env b_section_list(1,2,5), of _ Loop_while]) (use b_section_list(4) in auto)
  then show ?case by simp
next
  case (b_inverted_list n w h w1 get b w2 skip body ts w' before msg g inner ns)
  have "stops env inner skip (Inverted n body # ns) w ts w' (''{{'' @ CHR ''^'' # n @ ''}}'' @ before) msg g"
  proof (rule list_section_stops [OF env b_inverted_list(1,2,5), of _ Loop_else])
    fix a :: cstring and F ls out out' r and st :: "('s, 'o, 'w, 'h, 'i) stache_state"
    let ?l = "list_loop Loop_else n h (length a) (\<not> b) 0"
    assume "at_node env (a @ print_nodes body @ ''{{/'' @ n @ ''}}'' @ r) st (length a) F (ls @ [?l]) w2 out"
      and wf: "list_all wf_node body" and ls: "named_loops ls" "skips ls = skip" and F: "F \<le> Suc (length a) \<or> list_all expanded body"
      and "length (a @ print_nodes body @ ''{{/'' @ n @ ''}}'' @ r) + g \<le> 2 ^ 29" and out: "put_all (se_output env) out ts = Some out'"
    moreover have "loop_skips ?l = b" "sl_name ?l = Some n" by (simp_all add: list_loop_def loop_skips_def)
    ultimately show "\<exists>st'. render_template env st = Some (False, st') \<and> stopped st' (length (a @ before)) w' out' msg"
      using b_inverted_list(4) [rule_format, OF _ _ wf _ _ _ F _ out] by simp
  qed simp
  then show ?case by simp
next
  case (b_inverted_close n w h w1 get b w2 skip body ts w3 us g w' inner ns)
  show ?case
    by (rule inverted_close_stops [OF env b_inverted_close(1,2,5) simulation(1) [OF env b_inverted_close(3)] b_inverted_close(4)])
next
  case (l_body n skip body w ts w' before msg g h i)
  show ?case by (rule list_body_stops [OF l_body(2)])
next
  case (l_more skip body w ts w1 us g h get i w2 n ts' w' before msg g')
  show ?case by (rule list_more_stops [OF env l_more(1,2,5,4)])
next
  case (l_close skip body w ts w1 us g h get i w2 w' n)
  show ?case by (rule list_close_stops [OF env simulation(1) [OF env l_close(1)] l_close(2,4,3)])
qed

end

section \<open>A rendering\<close>

context input_stream
begin

text \<open>A rendering that breaks reports the message and the position of the error. Where a list cannot be
  closed, its name is released a second time when the loops are unwound.\<close>

lemma render_breaks:
  assumes env: "se_input env = ops" and input: "inv input" "rest input = print_nodes ns @ r" and r: "r \<noteq> []"
    and len: "length (rest input) + g \<le> 2 ^ 29" and bytes: "CHR 0xFF \<notin> set (rest input)" and wf: "list_all wf_node ns"
    and meaning: "breaks (se_client env) tree None False ns w ts w' before msg g" and out: "put_all (se_output env) out ts = Some out'"
  shows "if msg = list_error then render env input out w = None
    else \<exists>st. render env input out w = Some (-1, Some (msg, int (length before)), st) \<and> b_world st = w' \<and> b_output st = out'"
proof -
  obtain st0 where st0: "buffer_next env (start_state env input out w) = Some (True, st0)"
      "at_node env ([] @ print_nodes ns @ r) st0 (length ([] :: char list)) 0 [] w out"
    using start_at [OF env input(1,2) _ bytes [unfolded input(2)], of out w] len input(2) r by auto
  obtain st where st: "render_template env st0 = Some (False, st)" "stopped st (length before) w' out' msg"
    using break_simulation(1) [OF env meaning, rule_format, OF st0(2) r wf _ _ _ _ _ out] len input(2) by auto
  then show ?thesis
    using st0(1) by (auto simp: render_def start_state_def buffer_unwind_loops_def stopped_def)
qed

end

end
