(* ===== verification/Cad_Stache_Ends.thy ===== *)
theory Cad_Stache_Ends
  imports Cad_Stache_Errors
begin

text \<open>
  Templates that end too early: inside a section, or inside the tag of a variable. The first is
  reported as such. The second is not: the name is left in the buffer as if it were text, but the
  end of the template has been seen, so that the engine stops after its first character.
\<close>

section \<open>Endings\<close>

datatype ending = Final cstring | Unclosed cstring | Opened loop_type cstring "node list" ending

definition open_tag :: "loop_type \<Rightarrow> cstring \<Rightarrow> cstring" where
  "open_tag lt n = ''{{'' @ (if lt = Loop_while then CHR ''#'' else CHR ''^'') # n @ ''}}''"

fun print_ending :: "ending \<Rightarrow> cstring" where
  "print_ending (Final t) = t"
| "print_ending (Unclosed n) = ''{{'' @ n"
| "print_ending (Opened lt n ns e) = open_tag lt n @ print_nodes ns @ print_ending e"

fun wf_ending :: "ending \<Rightarrow> bool" where
  "wf_ending (Final t) \<longleftrightarrow> t \<noteq> [] \<and> CHR ''{'' \<notin> set t"
| "wf_ending (Unclosed n) \<longleftrightarrow> 2 \<le> length n \<and> CHR ''}'' \<notin> set n \<and> \<not> blank (hd n) \<and> hd n \<notin> set ''{#/^=!>''"
| "wf_ending (Opened lt n ns e) \<longleftrightarrow> wf_name n \<and> list_all wf_node ns \<and> wf_ending e"

text \<open>Whether a section that is open puts out nothing.\<close>

definition hides :: "loop_type \<Rightarrow> bool \<Rightarrow> bool" where
  "hides lt b \<longleftrightarrow> (if lt = Loop_while then \<not> b else b)"

text \<open>The arguments are those of \<open>breaks\<close>; \<open>inner\<close> is whether a section is open.\<close>

inductive ends ::
    "('w, 'h, 'i) stache_client \<Rightarrow> (cstring \<Rightarrow> node list) \<Rightarrow> bool \<Rightarrow> bool \<Rightarrow> node list \<Rightarrow> ending \<Rightarrow> 'w \<Rightarrow> cstring list \<Rightarrow> 'w
      \<Rightarrow> cstring \<Rightarrow> cstring \<Rightarrow> nat \<Rightarrow> bool"
  for cl tree where
  e_final: "renders cl tree skip ns w ts w' us g \<Longrightarrow>
    ends cl tree True skip ns (Final t) w (ts @ shown skip (map (\<lambda>c. [c]) t)) w' (print_nodes us @ t) ''Unfinished loops'' g"
| e_unclosed: "renders cl tree skip ns w ts w' us g \<Longrightarrow>
    ends cl tree inner skip ns (Unclosed n) w (ts @ shown skip [[hd n]]) w' (print_nodes us @ ''{{'') ''Buffer end reached'' g"
| e_opened: "renders cl tree skip ns w ts w1 us g \<Longrightarrow> sc_resolve cl n w1 = ((type, h), w2) \<Longrightarrow>
    truth cl type h w2 = Some (b, w3) \<Longrightarrow> ends cl tree True (skip \<or> hides lt b) ns' e w3 ts' w' before msg g' \<Longrightarrow>
    ends cl tree inner skip ns (Opened lt n ns' e) w (ts @ ts') w' (print_nodes us @ open_tag lt n @ before) msg (g + g')"
| e_opened_list: "renders cl tree skip ns w ts w1 us g \<Longrightarrow> sc_resolve cl n w1 = ((Cad_stache_list, h), w2) \<Longrightarrow>
    sc_list_get cl h = Some get \<Longrightarrow> get 0 w2 = (b, w3) \<Longrightarrow>
    ends cl tree True (skip \<or> hides lt b) ns' e w3 ts' w' before msg g' \<Longrightarrow>
    ends cl tree inner skip ns (Opened lt n ns' e) w (ts @ ts') w' (print_nodes us @ open_tag lt n @ before) msg (g + g')"

lemma print_ending_not_Nil: "wf_ending e \<Longrightarrow> print_ending e \<noteq> []"
  by (cases e) (auto simp: open_tag_def)

section \<open>A tag that is not closed\<close>

context input_stream
begin

lemma parse_name_loop_ends:
  assumes env: "se_input env = ops" and "at_pos rest inv (se_client env) T st pos" "drop pos T = n" "n \<noteq> []" "CHR ''}'' \<notin> set n"
    and "length name + length n \<le> 2 ^ 29"
  shows "\<exists>st' d cap'. parse_name_loop env NULL st name cap = Some (False, d, cap', st') \<and> at_end T st' \<and> same_run st st'"
  using assms(2-)
proof (induction n arbitrary: st pos name cap)
  case (Cons c n)
  have c: "T ! pos = c" "drop (Suc pos) T = n" using drop_Cons_nth [of pos T c n] Cons.prems(2) by auto
  have look: "buffer_look_at env st ''}}'' = Some (False, st)"
    using look_at_differs [OF Cons.prems(1)] c(1) Cons.prems(4) by auto
  have close: "b_close st = ''}}''" using at_pos_delimiters [OF Cons.prems(1)] by simp
  let ?cap = "if cap = length name then cap * 2 else cap"
  have room: "c_int (length name * 2) = Some (length name * 2)"
    using Cons.prems(5) by (auto simp: c_int_def INT_MAX_def)
  have step: "parse_name_loop env NULL st name cap = parse_name_loop env NULL st1 (name @ [c]) ?cap"
    if "buffer_next env st = Some (True, st1)" for st1
    using look that c(1)
    by (subst parse_name_loop.simps)
      (auto simp: at_pos_not_eof [OF Cons.prems(1)] at_pos_item [OF Cons.prems(1)] close room simp del: c_int_Some_iff)
  show ?case
  proof (cases n)
    case Nil
    then have "\<not> Suc pos < length T" using c(2) by simp
    then obtain st1 where st1: "buffer_next env st = Some (True, st1)" "at_end T st1" "same_run st st1"
      using buffer_next_at [OF env Cons.prems(1)] by auto
    then show ?thesis
      using step [OF st1(1)] by (subst (asm) (2) parse_name_loop.simps) (auto simp: at_end_eof)
  next
    case left: (Cons c' n')
    then have "Suc pos < length T" using c(2) by (metis drop_eq_Nil list.distinct(1) not_le)
    then obtain st1 where st1: "buffer_next env st = Some (True, st1)" "at_pos rest inv (se_client env) T st1 (Suc pos)" "same_run st st1"
      using buffer_next_at [OF env Cons.prems(1)] by auto
    then show ?thesis
      using step [OF st1(1)] Cons.IH [OF st1(2) c(2), of "name @ [c]" ?cap] left Cons.prems(4,5) same_run_trans [OF st1(3)] by auto
  qed
qed simp

text \<open>What is put out, and where the engine stops.\<close>

lemma unclosed_stops:
  assumes env: "se_input env = ops" and at: "at_node env T st pos F ls w out" and ls: "named_loops ls"
    and drop: "drop pos T = print_ending (Unclosed n)" and n: "wf_ending (Unclosed n)"
    and out: "put_all (se_output env) out (shown (skips ls) [[hd n]]) = Some out'"
  shows "\<exists>st'. render_template env st = Some (False, st') \<and> stopped st' (pos + 2) w out' ''Buffer end reached''"
proof -
  obtain c m where nm: "n = c # m" using n by (cases n) auto
  have n': "n = c # m" "m \<noteq> []" using nm n by auto
  have tag: "drop pos T = ''{{'' @ c # m" using drop n'(1) by simp
  obtain st1 where st1: "at_node env T st1 (pos + 2) (max F (pos + 4)) ls w out"
      "render_template env st = turn env (render_stache_escape env st1)"
    using variable_turn [OF env at tag n'(2)] n n'(1) by auto
  have at1: "at_pos rest inv (se_client env) T st1 (pos + 2)" "b_loops st1 = ls" "b_world st1 = w" "b_output st1 = out" "b_index st1 = int (pos + 2)"
    using st1(1) by (auto simp: ready_def at_pos_def)
  have tl: "drop (pos + 2) T = n" using drop_append_length [of pos T "''{{''" n] drop by simp
  have c: "T ! (pos + 2) = c" "pos + 2 < length T" using drop_Cons_nth [of "pos + 2" T c m] tl n'(1) by auto
  have skip: "buffer_skip_blanks env st1 = Some st1"
    using skip_blanks_none [OF at1(1)] n n'(1) c(1) by simp
  have "length n \<le> length T" "length T \<le> 2 ^ 29" using arg_cong [OF tl, of length] at1(1) by (auto simp: at_pos_def reading_def)
  then obtain st2 d cap where st2: "parse_name_loop env NULL st1 [] 16 = Some (False, d, cap, st2)" "at_end T st2" "same_run st1 st2"
    using parse_name_loop_ends [OF env at1(1) tl, of "[]" 16] n n'(1) by auto
  define st3 where "st3 = st2\<lparr>b_error := ''Unclosed or invalid 'stache'', b_index := int (pos + 2)\<rparr>"
  have "render_stache_escape env st1 = Some (True, st3)"
    using skip st2(1) at1(5) by (simp add: render_stache_escape_def parse_name_def st3_def)
  then have turn: "render_template env st = render_template env st3" using st1(2) by simp
  have "b_data st2 ! (pos + 2) = c" using st2(2) c unfolding at_end_def by (metis nth_take)
  moreover have "nat (2 + int pos) = Suc (Suc pos)" by linarith
  ultimately have item: "buffer_item st3 = Some c" "\<not> buffer_eof st3"
    using st2(2) c(2) by (auto simp: st3_def at_end_def buffer_item_def buffer_eof_def c_access)
  have look: "buffer_look_at env st3 (b_open st3) = Some (False, st3)"
    using item(1) n n'(1) st2(2) by (auto simp: st3_def buffer_look_at_def at_end_def)
  have loops: "b_loops st3 = ls" "b_output st3 = out" "b_world st3 = w" using st2(3) at1 by (auto simp: st3_def same_run_def)
  have put: "buffer_output env st3 [c] = Some (st3\<lparr>b_output := out'\<rparr>)"
    using buffer_output_shown [of env st3 "[c]" out'] out n'(1) loops by (simp add: buffer_skip_output_def)
  have "buffer_next env (st3\<lparr>b_output := out'\<rparr>) = Some (False, st3\<lparr>b_output := out', b_error := ''Buffer end reached''\<rparr>)"
    using st2(2) by (simp add: st3_def buffer_next_def at_end_def fail_def)
  then have "render_template env st3 = Some (False, st3\<lparr>b_output := out', b_error := ''Buffer end reached''\<rparr>)"
    using item put by (subst render_template.simps) (simp add: look)
  moreover have "b_index st3 = int (pos + 2)" by (simp add: st3_def)
  ultimately show ?thesis using turn loops ls by (simp add: stopped_def)
qed

end

section \<open>A rendering that ends too early\<close>

context input_stream
begin

definition stops_early where
  "stops_early env st pos w out msg \<longleftrightarrow>
     (\<exists>ok st'. render_template env st = Some (ok, st') \<and> b_index st' = int pos \<and> b_world st' = w \<and> b_output st' = out \<and>
        named_loops (b_loops st') \<and> (if ok then b_loops st' \<noteq> [] \<and> msg = ''Unfinished loops'' else b_error st' = msg))"

lemma stopped_early: "render_template env st = Some (False, st') \<Longrightarrow> stopped st' pos w out msg \<Longrightarrow> msg \<noteq> list_error \<Longrightarrow>
    stops_early env st pos w out msg"
  by (auto simp: stops_early_def stopped_def)

lemma final_stops:
  assumes env: "se_input env = ops" and at: "at_node env T st pos F ls w out" and drop: "drop pos T = t"
    and t: "t \<noteq> []" "CHR ''{'' \<notin> set t" and out: "put_all (se_output env) out (shown (skips ls) (map (\<lambda>c. [c]) t)) = Some out'"
    and ls: "named_loops ls" "ls \<noteq> []"
  shows "stops_early env st (length T) w out' ''Unfinished loops''"
proof -
  obtain st1 where st1: "render_template env st = render_template env st1" "at_end T st1" "b_loops st1 = ls" "b_world st1 = w" "b_output st1 = out'"
    using text_ends [OF env at drop t out] by blast
  have "render_template env st1 = Some (True, st1)"
    by (subst render_template.simps) (simp add: at_end_eof [OF st1(2)])
  then show ?thesis using st1 ls by (auto simp: stops_early_def at_end_def)
qed

text \<open>A section that is opened; \<open>e\<close> is what follows its tag.\<close>

lemma opened_truth:
  assumes env: "se_input env = ops" and at: "at_node env (a @ open_tag lt n @ x) st (length a) F ls w out" and x: "x \<noteq> []" and n: "wf_name n"
    and resolved: "sc_resolve (se_client env) n w = ((type, h), w1)" and truth: "truth (se_client env) type h w1 = Some (b, w2)"
  shows "\<exists>l st'. render_template env st = render_template env st' \<and>
    at_node env ((a @ open_tag lt n) @ x) st' (length (a @ open_tag lt n)) F (ls @ [l]) w2 out \<and>
    sl_name l = Some n \<and> loop_skips l = hides lt b"
proof -
  let ?c = "if lt = Loop_while then CHR ''#'' else CHR ''^''"
  have drop: "drop (length a) (a @ open_tag lt n @ x) = ''{{'' @ ?c # n @ ''}}'' @ x" by (simp add: open_tag_def)
  obtain st1 where st1: "render_template env st = turn env (open_loop env lt n st1)"
      "at_node env (a @ open_tag lt n @ x) st1 (length a + length n + 5) F ls w out"
    using open_node [OF env at drop x n, of lt] by (cases lt) auto
  obtain l st2 where "open_loop env lt n st1 = Some (True, st2)"
      "at_node env (a @ open_tag lt n @ x) st2 (length a + length n + 5) F (ls @ [l]) w2 out"
      "sl_name l = Some n" "loop_skips l = hides lt b"
    using open_truth [OF st1(2) resolved truth, of lt] by (auto simp: hides_def)
  moreover have "length (a @ open_tag lt n) = length a + length n + 5" by (simp add: open_tag_def)
  ultimately show ?thesis using st1(1) by (intro exI [of _ l] exI [of _ st2]) (simp add: add.assoc)
qed

lemma opened_list:
  assumes env: "se_input env = ops" and at: "at_node env (a @ open_tag lt n @ x) st (length a) F ls w out" and x: "x \<noteq> []" and n: "wf_name n"
    and resolved: "sc_resolve (se_client env) n w = ((Cad_stache_list, h), w1)"
    and get: "sc_list_get (se_client env) h = Some get" "get 0 w1 = (b, w2)"
  shows "\<exists>l st'. render_template env st = render_template env st' \<and>
    at_node env ((a @ open_tag lt n) @ x) st' (length (a @ open_tag lt n)) F (ls @ [l]) w2 out \<and>
    sl_name l = Some n \<and> loop_skips l = hides lt b"
proof -
  let ?c = "if lt = Loop_while then CHR ''#'' else CHR ''^''"
  let ?l = "list_loop lt n h (length (a @ open_tag lt n)) (\<not> b) 0"
  have drop: "drop (length a) (a @ open_tag lt n @ x) = ''{{'' @ ?c # n @ ''}}'' @ x" by (simp add: open_tag_def)
  have p: "length a + length n + 5 = length (a @ open_tag lt n)" by (simp add: open_tag_def)
  obtain st' where "render_template env st = render_template env st'"
      "at_node env (a @ open_tag lt n @ x) st' (length (a @ open_tag lt n)) F (ls @ [?l]) w2 out"
    using open_list_node [OF env at x n _ drop resolved get, of lt] unfolding p by (cases lt) auto
  moreover have "sl_name ?l = Some n" "loop_skips ?l = hides lt b" by (auto simp: list_loop_def loop_skips_def hides_def)
  ultimately show ?thesis by auto
qed

end

context input_stream
begin

text \<open>The valid nodes before an ending.\<close>

lemma nodes_reach:
  assumes env: "se_input env = ops" and nodes: "renders (se_client env) tree skip ns w ts w1 us g"
    and at: "at_node env (a @ print_nodes ns @ x) st (length a) F ls w out" and x: "x \<noteq> []" and wf: "list_all wf_node ns"
    and skip: "skips ls = skip" and F: "F \<le> Suc (length a)" and g: "length (a @ print_nodes ns @ x) + g \<le> 2 ^ 29"
    and out: "put_all (se_output env) out (ts @ ts') = Some out'"
  shows "\<exists>out1 st'. put_all (se_output env) out1 ts' = Some out' \<and> render_template env st = render_template env st' \<and>
    at_node env ((a @ print_nodes us) @ x) st' (length (a @ print_nodes us)) F ls w1 out1 \<and>
    length ((a @ print_nodes us) @ x) \<le> length (a @ print_nodes ns @ x) + g \<and> F \<le> Suc (length (a @ print_nodes us))"
proof -
  obtain out1 where out1: "put_all (se_output env) out ts = Some out1" "put_all (se_output env) out1 ts' = Some out'"
    using out by (auto simp: put_all_append split: bind_splits)
  obtain st1 where "render_template env st = render_template env st1"
      "at_node env (a @ print_nodes us @ x) st1 (length (a @ print_nodes us)) F ls w1 out1"
    using simulation(1) [OF env nodes, rule_format, OF at x wf skip _ g out1(1)] F by blast
  then show ?thesis using out1(2) print_expanded(1) [OF nodes] F by (intro exI [of _ out1] exI [of _ st1]) simp
qed

abbreviation stops_at_end where
  "stops_at_end env inner skip ns e w ts w' before msg g \<equiv> \<forall>a st F ls out out'.
     at_node env (a @ print_nodes ns @ print_ending e) st (length a) F ls w out \<longrightarrow> list_all wf_node ns \<longrightarrow> wf_ending e \<longrightarrow>
     named_loops ls \<longrightarrow> (inner \<longrightarrow> ls \<noteq> []) \<longrightarrow> skips ls = skip \<longrightarrow> F \<le> Suc (length a) \<longrightarrow>
     length (a @ print_nodes ns @ print_ending e) + g \<le> 2 ^ 29 \<longrightarrow> put_all (se_output env) out ts = Some out' \<longrightarrow>
     stops_early env st (length (a @ before)) w' out' msg"

lemma opened_stops:
  fixes env :: "('s, 'o, 'w, 'h, 'i) stache_env"
  assumes env: "se_input env = ops" and nodes: "renders (se_client env) tree skip ns w ts w1 us g"
    and opens: "\<And>a x st F ls out. at_node env (a @ open_tag lt n @ x) st (length a) F ls w1 out \<Longrightarrow> x \<noteq> [] \<Longrightarrow> wf_name n \<Longrightarrow>
      \<exists>l st'. render_template env st = render_template env st' \<and>
        at_node env ((a @ open_tag lt n) @ x) st' (length (a @ open_tag lt n)) F (ls @ [l]) w3 out \<and>
        sl_name l = Some n \<and> loop_skips l = hides lt b"
    and left: "stops_at_end env True (skip \<or> hides lt b) ns' e w3 ts' w' before msg g'"
  shows "stops_at_end env inner skip ns (Opened lt n ns' e) w (ts @ ts') w' (print_nodes us @ open_tag lt n @ before) msg (g + g')"
proof (intro allI impI)
  fix a F ls out out' and st :: "('s, 'o, 'w, 'h, 'i) stache_state"
  assume at: "at_node env (a @ print_nodes ns @ print_ending (Opened lt n ns' e)) st (length a) F ls w out" and wf: "list_all wf_node ns"
    and n: "wf_ending (Opened lt n ns' e)" and ls: "named_loops ls" and skip: "skips ls = skip" and F: "F \<le> Suc (length a)"
    and g: "length (a @ print_nodes ns @ print_ending (Opened lt n ns' e)) + (g + g') \<le> 2 ^ 29"
    and out: "put_all (se_output env) out (ts @ ts') = Some out'"
  let ?x = "print_nodes ns' @ print_ending e" and ?a = "a @ print_nodes us"
  obtain out1 st1 where st1: "put_all (se_output env) out1 ts' = Some out'" "render_template env st = render_template env st1"
      "at_node env (?a @ open_tag lt n @ ?x) st1 (length ?a) F ls w1 out1"
      "length (?a @ open_tag lt n @ ?x) \<le> length (a @ print_nodes ns @ print_ending (Opened lt n ns' e)) + g" "F \<le> Suc (length ?a)"
    using nodes_reach [OF env nodes at print_ending_not_Nil [OF n] wf skip F _ out] g by auto
  have x: "?x \<noteq> []" using n print_ending_not_Nil by simp
  obtain l st2 where st2: "render_template env st1 = render_template env st2"
      "at_node env ((?a @ open_tag lt n) @ ?x) st2 (length (?a @ open_tag lt n)) F (ls @ [l]) w3 out1"
      "sl_name l = Some n" "loop_skips l = hides lt b"
    using opens [OF st1(3) x] n by auto
  have "stops_early env st2 (length ((?a @ open_tag lt n) @ before)) w' out' msg"
    using left [rule_format, OF st2(2) _ _ _ _ _ _ _ st1(1)] n ls skip st1(4,5) g st2(3,4) by auto
  then show "stops_early env st (length (a @ print_nodes us @ open_tag lt n @ before)) w' out' msg"
    using st1(2) st2(1) by (simp add: stops_early_def)
qed

lemma end_simulation:
  fixes env :: "('s, 'o, 'w, 'h, 'i) stache_env"
  assumes env: "se_input env = ops"
  shows "ends (se_client env) tree inner skip ns e w ts w' before msg g \<Longrightarrow>
    stops_at_end env inner skip ns e w ts w' before msg g"
proof (induction rule: ends.induct)
  case (e_final skip ns w ts w' us g t)
  show ?case
  proof (intro allI impI)
    fix a F ls out out' and st :: "('s, 'o, 'w, 'h, 'i) stache_state"
    assume at: "at_node env (a @ print_nodes ns @ print_ending (Final t)) st (length a) F ls w out" and wf: "list_all wf_node ns"
      and t: "wf_ending (Final t)" and ls: "named_loops ls" "True \<longrightarrow> ls \<noteq> []" and skip: "skips ls = skip" and F: "F \<le> Suc (length a)"
      and g: "length (a @ print_nodes ns @ print_ending (Final t)) + g \<le> 2 ^ 29"
      and out: "put_all (se_output env) out (ts @ shown skip (map (\<lambda>c. [c]) t)) = Some out'"
    obtain out1 st1 where st1: "put_all (se_output env) out1 (shown skip (map (\<lambda>c. [c]) t)) = Some out'"
        "render_template env st = render_template env st1"
        "at_node env ((a @ print_nodes us) @ print_ending (Final t)) st1 (length (a @ print_nodes us)) F ls w' out1"
      using nodes_reach [OF env e_final at print_ending_not_Nil [OF t] wf skip F g out] by blast
    have "stops_early env st1 (length ((a @ print_nodes us) @ print_ending (Final t))) w' out' ''Unfinished loops''"
      by (rule final_stops [OF env st1(3), of t]) (use t st1(1) ls skip in auto)
    then show "stops_early env st (length (a @ print_nodes us @ t)) w' out' ''Unfinished loops''"
      using st1(2) by (simp add: stops_early_def)
  qed
next
  case (e_unclosed skip ns w ts w' us g inner n)
  show ?case
  proof (intro allI impI)
    fix a F ls out out' and st :: "('s, 'o, 'w, 'h, 'i) stache_state"
    assume at: "at_node env (a @ print_nodes ns @ print_ending (Unclosed n)) st (length a) F ls w out" and wf: "list_all wf_node ns"
      and n: "wf_ending (Unclosed n)" and ls: "named_loops ls" and skip: "skips ls = skip" and F: "F \<le> Suc (length a)"
      and g: "length (a @ print_nodes ns @ print_ending (Unclosed n)) + g \<le> 2 ^ 29"
      and out: "put_all (se_output env) out (ts @ shown skip [[hd n]]) = Some out'"
    obtain out1 st1 where st1: "put_all (se_output env) out1 (shown skip [[hd n]]) = Some out'"
        "render_template env st = render_template env st1"
        "at_node env ((a @ print_nodes us) @ print_ending (Unclosed n)) st1 (length (a @ print_nodes us)) F ls w' out1"
      using nodes_reach [OF env e_unclosed at print_ending_not_Nil [OF n] wf skip F g out] by blast
    obtain st2 where st2: "render_template env st1 = Some (False, st2)" "stopped st2 (length (a @ print_nodes us) + 2) w' out' ''Buffer end reached''"
      using unclosed_stops [OF env st1(3) ls _ n] st1(1) skip by auto
    have "stops_early env st (length (a @ print_nodes us) + 2) w' out' ''Buffer end reached''"
      by (rule stopped_early [OF _ st2(2)]) (use st1(2) st2(1) in simp_all)
    then show "stops_early env st (length (a @ print_nodes us @ ''{{'')) w' out' ''Buffer end reached''"
      by (simp add: eval_nat_numeral)
  qed
next
  case (e_opened skip ns w ts w1 us g n type h w2 b w3 lt ns' e ts' w' before msg g' inner)
  show ?case by (rule opened_stops [OF env e_opened(1) opened_truth [OF env _ _ _ e_opened(2,3)] e_opened(5)])
next
  case (e_opened_list skip ns w ts w1 us g n h w2 get b w3 lt ns' e ts' w' before msg g' inner)
  show ?case by (rule opened_stops [OF env e_opened_list(1) opened_list [OF env _ _ _ e_opened_list(2,3,4)] e_opened_list(6)])
qed

lemma render_ends:
  assumes env: "se_input env = ops" and input: "inv input" "rest input = print_nodes ns @ print_ending e"
    and len: "length (rest input) + g \<le> 2 ^ 29" and bytes: "CHR 0xFF \<notin> set (rest input)" and wf: "list_all wf_node ns" "wf_ending e"
    and meaning: "ends (se_client env) tree False False ns e w ts w' before msg g" and out: "put_all (se_output env) out ts = Some out'"
  shows "\<exists>st. render env input out w = Some (-1, Some (msg, int (length before)), st) \<and> b_world st = w' \<and> b_output st = out'"
proof -
  obtain st0 where st0: "buffer_next env (start_state env input out w) = Some (True, st0)"
      "at_node env ([] @ print_nodes ns @ print_ending e) st0 (length ([] :: char list)) 0 [] w out"
    using start_at [OF env input(1,2) _ bytes [unfolded input(2)], of out w] len input(2) print_ending_not_Nil [OF wf(2)] by auto
  have "stops_early env st0 (length ([] @ before)) w' out' msg"
    using end_simulation [OF env meaning, rule_format, OF st0(2) wf _ _ _ _ _ out] len input(2) by auto
  then obtain ok st where st: "render_template env st0 = Some (ok, st)" "b_index st = int (length before)" "b_world st = w'"
      "b_output st = out'" "named_loops (b_loops st)" "if ok then b_loops st \<noteq> [] \<and> msg = ''Unfinished loops'' else b_error st = msg"
    by (auto simp: stops_early_def)
  then show ?thesis
    using st0(1) by (cases ok) (auto simp: render_def start_state_def buffer_unwind_loops_def)
qed

end

text \<open>A template fails when some of its nodes break, or when it ends too early.\<close>

inductive template_fails ::
    "('w, 'h, 'i) stache_client \<Rightarrow> (cstring \<Rightarrow> node list) \<Rightarrow> cstring \<Rightarrow> 'w \<Rightarrow> cstring list \<Rightarrow> 'w \<Rightarrow> cstring \<Rightarrow> cstring \<Rightarrow> nat \<Rightarrow> bool"
  for cl tree where
  fails_inside: "breaks cl tree None False ns w ts w' before msg g \<Longrightarrow> list_all wf_node ns \<Longrightarrow> t \<noteq> [] \<Longrightarrow>
    template_fails cl tree (print_nodes ns @ t) w ts w' before msg g"
| fails_at_end: "ends cl tree False False ns e w ts w' before msg g \<Longrightarrow> list_all wf_node ns \<Longrightarrow> wf_ending e \<Longrightarrow>
    template_fails cl tree (print_nodes ns @ print_ending e) w ts w' before msg g"

lemma ends_message: "ends cl tree inner skip ns e w ts w' before msg g \<Longrightarrow> msg \<noteq> list_error"
  by (induction rule: ends.induct) simp_all

context input_stream
begin

lemma render_fails:
  assumes fails: "template_fails (se_client env) tree T w ts w' before msg g" and env: "se_input env = ops"
    and input: "inv input" "rest input = T" and len: "length T + g \<le> 2 ^ 29" and bytes: "CHR 0xFF \<notin> set T"
    and out: "put_all (se_output env) out ts = Some out'"
  shows "if msg = list_error then render env input out w = None
    else \<exists>st. render env input out w = Some (-1, Some (msg, int (length before)), st) \<and> b_world st = w' \<and> b_output st = out'"
  using fails
proof cases
  case (fails_inside ns t)
  then show ?thesis using render_breaks [OF env input(1) _ fails_inside(4) _ _ fails_inside(3,2) out] input(2) len bytes by simp
next
  case (fails_at_end ns e)
  then show ?thesis
    using render_ends [OF env input(1) _ _ _ fails_at_end(3,4,2) out] input(2) len bytes ends_message [OF fails_at_end(2)] by simp
qed

end

end
