(* ===== verification/Cad_Stache_Delims.thy ===== *)
theory Cad_Stache_Delims
  imports Cad_Stache
begin

text \<open>
  Why a change of the delimiters cannot succeed: the name in front of the closing \<open>=}}\<close> is read with
  the suffix \<open>=\<close> and so has no \<open>=\<close>, but \<open>render_stache_delimiters\<close> asks for one at its end. This holds
  in every state, also inside partials: a move of the buffer keeps the bytes up to its index.
\<close>

section \<open>The bytes that a move keeps\<close>

definition keeps :: "int \<Rightarrow> ('s, 'o, 'w, 'h, 'i) stache_state \<Rightarrow> ('s, 'o, 'w, 'h, 'i) stache_state \<Rightarrow> bool" where
  "keeps k st st' \<longleftrightarrow> k \<le> b_index st' \<and>
     (\<forall>c. nth_opt (b_data st) (nat k) = Some c \<longrightarrow> nth_opt (b_data st') (nat k) = Some c)"

lemma keeps_refl: "k \<le> b_index st \<Longrightarrow> keeps k st st"
  by (simp add: keeps_def)

lemma keeps_trans: "keeps k st st' \<Longrightarrow> keeps k st' st'' \<Longrightarrow> keeps k st st''"
  by (simp add: keeps_def)

lemma source_frame:
  "source_item env st = Some (c, st') \<Longrightarrow> b_data st' = b_data st \<and> b_fill st' = b_fill st \<and> b_index st' = b_index st"
  "source_next env st = Some (c, st') \<Longrightarrow> b_data st' = b_data st \<and> b_index st' = b_index st"
  by (auto simp: source_item_def source_next_def call_def Let_def
      split: if_splits bind_splits partial_stream.splits prod.splits)

lemma buffer_put_keeps:
  "buffer_put c st = Some st' \<Longrightarrow> k < int (b_fill st) \<Longrightarrow> 0 \<le> k \<Longrightarrow> k \<le> b_index st \<Longrightarrow> keeps k st st'"
  by (auto simp: buffer_put_def keeps_def nth_opt_def upd_opt_def split: if_splits bind_splits)

lemma buffer_room_keeps: "buffer_room env st = Some st' \<Longrightarrow> k \<le> b_index st \<Longrightarrow>
    keeps k st st' \<and> b_fill st' = b_fill st \<and> b_index st' = b_index st"
  by (auto simp: buffer_room_def keeps_def nth_opt_def nth_append split: if_splits bind_splits)

lemma end_partial_keeps:
  assumes "end_partial env st = Some st'" "k < int (b_fill st)" "0 \<le> k" "k \<le> b_index st"
  shows "keeps k st st'"
  using assms
  by (auto simp: end_partial_def call_def Let_def keeps_def dest!: buffer_put_keeps [where k = k]
      split: cad_stache_lookup_type.splits bind_splits prod.splits)

lemma buffer_next_keeps:
  assumes step: "buffer_next env st = Some (r, st')" and k: "0 \<le> k" "k \<le> b_index st"
  shows "keeps k st st'"
proof (cases "b_eof st \<or> b_index st + 1 \<noteq> int (b_fill st)")
  case True
  then show ?thesis using assms by (auto simp: buffer_next_def fail_def keeps_def Let_def split: if_splits)
next
  case False
  let ?st1 = "st\<lparr>b_index := b_index st + 1\<rparr>"
  obtain st2 c st3 where st2: "buffer_room env ?st1 = Some st2" and st3: "source_item env st2 = Some (c, st3)"
    using step False by (auto simp: buffer_next_def Let_def split: bind_splits)
  have fill: "k < int (b_fill st3)" "k \<le> b_index st3" "keeps k ?st1 st2" "b_data st3 = b_data st2"
    using buffer_room_keeps [OF st2, of k] source_frame(1) [OF st3] False k(2) by auto
  have "keeps k st3 st'"
  proof (cases "c = EOF")
    case True
    then show ?thesis
      using step False st2 st3 end_partial_keeps [OF _ fill(1) k(1) fill(2)] fill(2)
      by (auto simp: buffer_next_def Let_def keeps_def split: if_splits bind_splits)
  next
    case c: False
    obtain st4 q st5 where st4: "buffer_put c st3 = Some st4" and st5: "source_next env st4 = Some (q, st5)"
        and st': "st' = (if q \<noteq> 0 then st5\<lparr>b_eof := True\<rparr> else st5)"
      using step False c st2 st3 by (auto simp: buffer_next_def Let_def split: bind_splits)
    then show ?thesis
      using buffer_put_keeps [OF st4 fill(1) k(1) fill(2)] source_frame(2) [OF st5] by (simp add: keeps_def)
  qed
  then show ?thesis using fill(3,4) by (simp add: keeps_def)
qed

lemma buffer_next_stops: "buffer_next env st = Some (False, st') \<longleftrightarrow> b_eof st \<and> st' = st\<lparr>b_error := ''Buffer end reached''\<rparr>"
  by (auto simp: buffer_next_def fail_def Let_def split: if_splits bind_splits)

lemma look_at_loop_keeps:
  "look_at_loop env st es = Some (r, st') \<Longrightarrow> 0 \<le> k \<Longrightarrow> k \<le> b_index st \<Longrightarrow> keeps k st st'"
proof (induction es arbitrary: st)
  case Nil
  then show ?case by (simp add: keeps_def)
next
  case (Cons e es)
  show ?case
  proof (cases "buffer_item st = Some e")
    case False
    then show ?thesis using Cons.prems by (auto simp: keeps_def split: bind_splits if_splits)
  next
    case True
    then obtain ok st1 where st1: "buffer_next env st = Some (ok, st1)"
        "if ok then look_at_loop env st1 es = Some (r, st') else st' = st1"
      using Cons.prems by (auto split: bind_splits if_splits)
    have "keeps k st st1" using buffer_next_keeps [OF st1(1)] Cons.prems by simp
    then show ?thesis
      using st1(2) Cons.IH [of st1] Cons.prems(2) keeps_trans by (auto simp: keeps_def split: if_splits)
  qed
qed

lemma look_at_loop_eof: "look_at_loop env st es = Some (r, st') \<Longrightarrow> b_eof st \<Longrightarrow> b_eof st'"
  by (cases es) (auto simp: buffer_next_def fail_def split: bind_splits if_splits)

text \<open>Looking at something else leaves the item, and the end, as they are.\<close>

lemma look_at_item:
  assumes "buffer_look_at env st e = Some (False, st')" "buffer_item st = Some c"
  shows "buffer_item st' = Some c"
proof -
  obtain st1 where st1: "look_at_loop env st e = Some (False, st1)" "st' = st1\<lparr>b_index := b_index st\<rparr>"
    using assms(1) by (auto simp: buffer_look_at_def split: bind_splits)
  have "0 \<le> b_index st" using assms(2) by (auto simp: buffer_item_def split: if_splits)
  then show ?thesis
    using look_at_loop_keeps [OF st1(1), of "b_index st"] st1(2) assms(2)
    by (auto simp: keeps_def buffer_item_def split: if_splits)
qed

lemma look_at_eof: "buffer_look_at env st e = Some (r, st') \<Longrightarrow> b_eof st \<Longrightarrow> b_eof st'"
  by (auto simp: buffer_look_at_def dest: look_at_loop_eof split: bind_splits)

lemma look_at_char:
  assumes "buffer_look_at env st [e] = Some (False, st')"
  shows "\<exists>c. buffer_item st = Some c \<and> (c \<noteq> e \<or> b_eof st)"
  using assms by (auto simp: buffer_look_at_def buffer_next_stops split: bind_splits if_splits)

section \<open>A name with a suffix\<close>

text \<open>One more character of the name: it is not the suffix, unless the buffer is at its end.\<close>

lemma name_step:
  assumes "buffer_look_at env st [e] = Some (False, st1)" "buffer_look_at env st1 close = Some (False, st2)"
    and "buffer_item st2 = Some c" "buffer_next env st2 = Some (True, st3)"
  shows "c \<noteq> e"
proof
  assume c: "c = e"
  obtain c' where c': "buffer_item st = Some c'" "c' \<noteq> e \<or> b_eof st" using look_at_char [OF assms(1)] by blast
  have "buffer_item st2 = Some c'" using look_at_item [OF assms(2) look_at_item [OF assms(1) c'(1)]] .
  then have "b_eof st2" using c' c assms(3) look_at_eof [OF assms(2)] look_at_eof [OF assms(1)] by simp
  then show False using assms(4) by (simp add: buffer_next_def fail_def)
qed

lemma suffixed_name:
  assumes "parse_name_loop env (Some [e]) st name cap = Some (True, d, cap', st')" "e \<notin> set name"
  shows "e \<notin> set d"
proof -
  let ?P = "\<lambda>env suffix st name cap y. suffix = Some [e] \<longrightarrow> fst y \<longrightarrow> e \<notin> set name \<longrightarrow> e \<notin> set (fst (snd y))"
  have "?P env (Some [e]) st name cap (True, d, cap', st')"
  proof (rule parse_name_loop.raw_induct [where P = ?P, OF _ assms(1)], intro impI, goal_cases)
    case (1 loop env suffix st name cap y)
    obtain suffixed st1 closed st2 where look: "buffer_look_at env st [e] = Some (suffixed, st1)"
        "buffer_look_at env st1 (b_close st1) = Some (closed, st2)"
      using 1(2-5) by (auto split: bind_splits if_splits)
    show ?case
    proof (cases "suffixed \<or> closed")
      case True
      then show ?thesis using 1(2-5) look by (auto split: if_splits)
    next
      case False
      then obtain c st3 cap' where c: "buffer_item st2 = Some c" "buffer_next env st2 = Some (True, st3)"
          "loop env suffix st3 (name @ [c]) cap' = Some y"
        using 1(2-5) look by (auto split: bind_splits if_splits)
      have "c \<noteq> e" using name_step [of env st e st1 "b_close st1" st2 c st3] look False c(1,2) by simp
      then show ?thesis using 1(1) [OF c(3)] 1(3-5) by simp
    qed
  qed
  then show ?thesis using assms(2) by simp
qed

lemma parse_name_suffixed:
  assumes "parse_name env (Some [e]) st = Some (Some d, st')"
  shows "e \<notin> set d"
  using assms suffixed_name [of env e]
  by (auto simp: parse_name_def split: bind_splits if_splits)

lemma no_delimiters:
  assumes "CHR ''='' \<notin> set d" "close = dropWhile blank (c_name rest)" "dropWhile (\<lambda>c. \<not> blank c) d = b # rest" "close \<noteq> []"
  shows "last close \<noteq> CHR ''=''"
proof -
  have "last close \<in> set close" using assms(4) by simp
  then have "last close \<in> set rest"
    unfolding assms(2) c_name_def by (blast dest: set_dropWhileD set_takeWhileD)
  then have "last close \<in> set d"
    using assms(3) by (metis list.set_intros(2) set_dropWhileD)
  then show ?thesis using assms(1) by metis
qed

section \<open>The delimiters while a name is read\<close>

definition same_delimiters :: "('s, 'o, 'w, 'h, 'i) stache_state \<Rightarrow> ('s, 'o, 'w, 'h, 'i) stache_state \<Rightarrow> bool" where
  "same_delimiters st st' \<longleftrightarrow> b_open st' = b_open st \<and> b_close st' = b_close st"

lemma same_delimiters_trans: "same_delimiters st st' \<Longrightarrow> same_delimiters st' st'' \<Longrightarrow> same_delimiters st st''"
  by (simp add: same_delimiters_def)

lemma buffer_steps_delimiters:
  "source_item env st = Some (c, st') \<Longrightarrow> same_delimiters st st'"
  "source_next env st = Some (c, st') \<Longrightarrow> same_delimiters st st'"
  "buffer_room env st = Some st' \<Longrightarrow> same_delimiters st st'"
  "buffer_put c st = Some st' \<Longrightarrow> same_delimiters st st'"
  "end_partial env st = Some st' \<Longrightarrow> same_delimiters st st'"
  by (auto simp: source_item_def source_next_def buffer_room_def buffer_put_def end_partial_def call_def Let_def
      same_delimiters_def split: if_splits bind_splits partial_stream.splits prod.splits cad_stache_lookup_type.splits)

lemma buffer_next_delimiters:
  assumes "buffer_next env st = Some (r, st')"
  shows "same_delimiters st st'"
  using assms
  by (auto simp: buffer_next_def fail_def Let_def same_delimiters_def dest!: buffer_steps_delimiters
      split: if_splits bind_splits)

lemma look_at_loop_delimiters: "look_at_loop env st es = Some (r, st') \<Longrightarrow> same_delimiters st st'"
proof (induction es arbitrary: st)
  case Nil
  then show ?case by (simp add: same_delimiters_def)
next
  case (Cons e es)
  then show ?case
    by (auto dest!: buffer_next_delimiters simp: same_delimiters_def split: bind_splits if_splits)
qed

lemma look_at_delimiters: "buffer_look_at env st e = Some (r, st') \<Longrightarrow> same_delimiters st st'"
  by (auto simp: buffer_look_at_def same_delimiters_def dest!: look_at_loop_delimiters split: bind_splits)

lemma skip_blanks_delimiters:
  assumes "buffer_skip_blanks env st = Some st'"
  shows "same_delimiters st st'"
proof (rule buffer_skip_blanks.raw_induct [where P = "\<lambda>env. same_delimiters", OF _ assms], goal_cases)
  case (1 loop env st st')
  show ?case
    using 1(2) by (auto simp: same_delimiters_def dest!: buffer_next_delimiters 1(1) split: bind_splits if_splits)
qed

lemma name_loop_delimiters:
  assumes "parse_name_loop env suffix st name cap = Some (found, d, cap', st')"
  shows "same_delimiters st st'"
proof -
  let ?P = "\<lambda>env suffix st name cap y. same_delimiters st (snd (snd (snd y)))"
  have "?P env suffix st name cap (found, d, cap', st')"
  proof (rule parse_name_loop.raw_induct [where P = ?P, OF _ assms], goal_cases)
    case (1 loop env suffix st name cap y)
    show ?case
    proof (cases "buffer_eof st")
      case True
      then show ?thesis using 1(2) by (auto simp: same_delimiters_def)
    next
      case False
      then obtain suffixed st1 closed st2 where
          look: "(case suffix of None \<Rightarrow> Some (False, st) | Some s \<Rightarrow> buffer_look_at env st s) = Some (suffixed, st1)"
            "buffer_look_at env st1 (b_close st1) = Some (closed, st2)"
        using 1(2) by (auto split: bind_splits)
      have st2: "same_delimiters st st2"
        using look by (auto simp: same_delimiters_def dest!: look_at_delimiters split: option.splits)
      show ?thesis
      proof (cases "suffixed \<or> closed")
        case True
        then show ?thesis using 1(2) False look st2 by (auto split: if_splits)
      next
        case more: False
        then obtain c more st3 cap' where step: "buffer_next env st2 = Some (more, st3)"
            "if more then loop env suffix st3 (name @ [c]) cap' = Some y else y = (False, name @ [c], cap', st3)"
          using 1(2) False look by (auto split: bind_splits if_splits)
        have "same_delimiters st3 (snd (snd (snd y)))"
          using step(2) 1(1) by (auto simp: same_delimiters_def split: if_splits)
        then show ?thesis using st2 buffer_next_delimiters [OF step(1)] same_delimiters_trans by blast
      qed
    qed
  qed
  then show ?thesis by simp
qed

lemma parse_name_delimiters:
  assumes "parse_name env suffix st = Some (name, st')"
  shows "same_delimiters st st'"
  using assms
  by (auto simp: parse_name_def same_delimiters_def dest!: skip_blanks_delimiters name_loop_delimiters
      split: bind_splits if_splits)

end
