(* ===== verification/Cad_Stache_Props.thy ===== *)
theory Cad_Stache_Props
  imports Cad_Stache_Ends Cad_Stache_Delims
begin

text \<open>
  Properties of the stache engine: a rendering puts out what the template means, and reports its
  errors; its buffer stays well formed, whatever the template; the names whose
  length makes \<open>parse_name\<close> write outside its block; and the change of delimiters, which never
  succeeds. The contract of input streams is the locale of Cad_Stream; the properties rest on its
  interpretations on the streams over file descriptors and over strings.
\<close>

section \<open>The meaning of a template\<close>

text \<open>C2: a template read from a file descriptor, made of nodes and a final text, is rendered without
  an error; the string stream then holds the texts that the meaning of the template lists, in order,
  followed by the final text, and the client has been called as its meaning says. The partials of the
  template, also those in the body of a list and those of partials, mean what their trees mean; their
  bytes count in the bound on the template.\<close>

theorem stache_renders_reference:
  assumes "fd_ok fd" "fd_bytes fd = print_nodes ns @ t" "length (fd_bytes fd) + g \<le> 2 ^ 29" "CHR 0xFF \<notin> set (fd_bytes fd)"
    and "list_all wf_node ns" "t \<noteq> []" "CHR ''{'' \<notin> set t" "valid_cstring t"
    and "se_input env = fd_input" "se_output env = string_output" "new_cad_output_stream_from_string True = Some out"
    and "renders (se_client env) tree False ns w ts w' us g" "\<forall>x \<in> set ts. valid_cstring x"
    and "length (concat ts) + length t \<le> INT_MAX div 2 - 1"
  shows "\<exists>input st. new_cad_input_stream_from_file_descriptor True fd = Some (Some input) \<and>
    render env input out w = Some (0, NULL, st) \<and> b_world st = w' \<and> string_written (b_output st) = concat ts @ t"
proof -
  obtain input where input: "new_cad_input_stream_from_file_descriptor True fd = Some (Some input)" "fd_inv input"
      "fd_rest input = fd_bytes fd"
    using new_fd_stream [OF assms(1)] by blast
  have new: "oss_inv out" "string_written out = []"
    using assms(11) by (auto simp: new_cad_output_stream_from_string_def oss_inv_def string_written_def)
  have "concat (map (\<lambda>c. [c]) t) = t" by (induction t) simp_all
  then obtain out' where out': "put_all (se_output env) out (ts @ map (\<lambda>c. [c]) t) = Some out'"
      "string_written out' = concat ts @ t"
    using string_out.put_all_appends [of out "ts @ map (\<lambda>c. [c]) t"] new assms(8,10,13,14)
    by (force simp: valid_cstring_def)
  show ?thesis
    using fd_in.render_follows [OF assms(9) input(2) _ _ _ assms(5-7,12) out'(1)] input(1,3) assms(2-4) out'(2) by auto
qed

text \<open>A client with one list of names, and a partial that prints one; its world is the element that the
  list is at.\<close>

definition names_client :: "(nat, nat, unit) stache_client" where
  "names_client =
     \<lparr>sc_resolve = (\<lambda>n w. (if n = ''names'' then (Cad_stache_list, 0) else if n = ''n'' then (Cad_stache_string, 1)
        else if n = ''name'' then (Cad_stache_string, 2) else (Cad_stache_not_found, 0), w)),
      sc_string_get = (\<lambda>h. Some (\<lambda>w. (Some (if h = 2 then ''{{n}}, '' else if w = 0 then ''Ann'' else ''B<b''), w))),
      sc_string_free = (\<lambda>_. Some (\<lambda>w. (True, w))),
      sc_list_get = (\<lambda>_. Some (\<lambda>i w. (i < 2, i))), sc_list_close = (\<lambda>_. Some (\<lambda>w. (True, w))),
      sc_partial_get = (\<lambda>_. NULL), sc_partial_free = (\<lambda>_. NULL),
      sc_item = (\<lambda>_ w. (EOF, w)), sc_next = (\<lambda>_ w. (-1, w))\<rparr>"

definition names_env :: "'s cad_input_stream \<Rightarrow> ('s, cad_output_stream_string, nat, nat, unit) stache_env" where
  "names_env ops = \<lparr>se_input = ops, se_output = string_output, se_client = names_client, se_junk = (\<lambda>_. NUL)\<rparr>"

lemma names_client_simps [simp]:
  "sc_resolve names_client n w = (if n = ''names'' then (Cad_stache_list, 0) else if n = ''n'' then (Cad_stache_string, 1)
     else if n = ''name'' then (Cad_stache_string, 2) else (Cad_stache_not_found, 0), w)"
  "string_value names_client (Suc 0) w = Some (if w = 0 then ''Ann'' else ''B<b'', w)"
  "sc_string_get names_client 2 = Some (\<lambda>w. (Some ''{{n}}, '', w))"
  "sc_list_get names_client h = Some (\<lambda>i w. (i < 2, i))" "sc_list_close names_client h = Some (\<lambda>w. (True, w))"
  "quiet_free names_client h"
  by (auto simp: names_client_def string_value_def quiet_free_def)

abbreviation names_body :: "node list" where
  "names_body \<equiv> [Variable ''n'', Text '', '']"

lemma short_name: "m < 16 \<Longrightarrow> m = 16 * 2 ^ j \<Longrightarrow> False" for m :: nat
  using one_le_power [of "2 :: nat" j] by linarith

lemma names_wf [simp]: "wf_name ''names''" "wf_name ''n''" "wf_name ''name''"
  by (auto simp: wf_name_def blank_def dest: short_name [rotated])

lemma names_parsed: "parsed (\<lambda>_. names_body) ''{{n}}, ''"
  by (simp add: parsed_def valid_cstring_def)

lemma names_body_renders:
  "renders names_client tree False names_body i (map escape_char (if i = 0 then ''Ann'' else ''B<b'') @ ['','', '' '']) i names_body 0"
proof -
  have "renders names_client tree False [Text '', ''] i ['','', '' ''] i [Text '', ''] 0"
    using r_text [OF r_nil, where cl = names_client and skip = False and w = i and t = "'', ''"] by (simp add: shown_def)
  then have "renders names_client tree False names_body i
      (shown False (map escape_char (if i = 0 then ''Ann'' else ''B<b'')) @ ['','', '' '']) i names_body 0"
    by (intro r_variable [where ?w1.0 = i and h = 1]) simp_all
  then show ?thesis by (simp add: shown_def)
qed

lemma names_renders:
  "renders names_client (\<lambda>_. names_body) False [Text ''Hi '', Section ''names'' [Partial ''name'']] 0
     [''H'', ''i'', '' '', ''A'', ''n'', ''n'', '','', '' '', ''B'', ''&lt;'', ''b'', '','', '' ''] 2
     [Text ''Hi '', Section ''names'' names_body] 7"
proof -
  let ?tree = "\<lambda>_ :: cstring. names_body"
  have last: "iterates names_client ?tree False 0 names_body 1 1 [''B'', ''&lt;'', ''b'', '','', '' ''] 2 names_body 0"
    using names_body_renders [of ?tree 1]
    by (intro i_last [where ?w1.0 = 1 and ?w2.0 = 2 and get = "\<lambda>i w. (i < 2, i)" and close = "\<lambda>w. (True, w)"])
      (simp_all add: escape_char_def)
  have "renders names_client ?tree False (names_body @ []) 0 [''A'', ''n'', ''n'', '','', '' ''] 0 names_body 0"
    using names_body_renders [of ?tree 0] by (simp add: escape_char_def)
  then have first: "renders names_client ?tree False [Partial ''name''] 0 [''A'', ''n'', ''n'', '','', '' ''] 0 names_body (length ''{{n}}, '' + 0)"
    by (intro r_partial [where ?w1.0 = 0 and ?w2.0 = 0 and h = 2 and get = "\<lambda>w. (Some ''{{n}}, '', w)"])
      (simp_all add: names_parsed)
  have "iterates names_client ?tree False 0 [Partial ''name''] 0 0
      ([''A'', ''n'', ''n'', '','', '' ''] @ [''B'', ''&lt;'', ''b'', '','', '' '']) 2 names_body (length ''{{n}}, '' + 0 + 0)"
    by (rule i_more [where ?w1.0 = 0 and ?w2.0 = 1 and get = "\<lambda>i w. (i < 2, i)", OF first]) (use last in simp_all)
  then have "renders names_client ?tree False [Section ''names'' [Partial ''name'']] 0
      (([''A'', ''n'', ''n'', '','', '' ''] @ [''B'', ''&lt;'', ''b'', '','', '' '']) @ []) 2
      [Section ''names'' names_body] (length ''{{n}}, '' + 0 + 0 + 0)"
    by (intro r_section_list [where ?w1.0 = 0 and ?w2.0 = 0 and ?w3.0 = 2 and b = True and get = "\<lambda>i w. (i < 2, i)"])
      (simp_all, rule r_nil)
  then show ?thesis
    using r_text [where cl = names_client and skip = False and ns = "[Section ''names'' [Partial ''name'']]" and w = 0 and w' = 2
        and t = "''Hi ''"] by (simp add: shown_def eval_nat_numeral)
qed

lemma stache_renders_reference_witness:
  "\<exists>out input st. new_cad_output_stream_from_string True = Some out \<and>
     new_cad_input_stream_from_file_descriptor True
       \<lparr>fd_reads = [Data ''Hi {{#names}}{{>na'', Data ''me}}{{/names}}bye'']\<rparr> = Some (Some input) \<and>
     render (names_env fd_input) input out 0 = Some (0, NULL, st) \<and>
     string_written (b_output st) = ''Hi Ann, B&lt;b, bye''"
proof -
  obtain out where out: "new_cad_output_stream_from_string True = Some out"
    by (simp add: new_cad_output_stream_from_string_def)
  have meaning: "renders (se_client (names_env fd_input)) (\<lambda>_. names_body) False [Text ''Hi '', Section ''names'' [Partial ''name'']] 0
      [''H'', ''i'', '' '', ''A'', ''n'', ''n'', '','', '' '', ''B'', ''&lt;'', ''b'', '','', '' ''] 2
      [Text ''Hi '', Section ''names'' names_body] 7"
    using names_renders by (simp add: names_env_def)
  show ?thesis
    using stache_renders_reference [of "\<lparr>fd_reads = [Data ''Hi {{#names}}{{>na'', Data ''me}}{{/names}}bye'']\<rparr>"
        _ "''bye''", OF _ _ _ _ _ _ _ _ _ _ out meaning] out
    by (auto simp: fd_ok_def fd_bytes_def names_env_def INT_MAX_def)
qed

section \<open>Errors\<close>

text \<open>C7: a template with an error is rendered up to it: what its meaning lists before the error has been
  put out and the client has been called for it, also in the turns of lists and in partials; then
  \<open>render\<close> returns -1 and reports the message and the position of the error. A template that ends inside a
  section or inside a tag is an error too, but the name of an unclosed tag is put out as text, up to its first
  character. A list that cannot be closed is another matter: its name is released twice.\<close>

theorem stache_reports_errors:
  assumes "fd_ok fd" "length (fd_bytes fd) + g \<le> 2 ^ 29" "CHR 0xFF \<notin> set (fd_bytes fd)"
    and "template_fails (se_client env) tree (fd_bytes fd) w ts w' before msg g"
    and "se_input env = fd_input" "se_output env = string_output" "new_cad_output_stream_from_string True = Some out"
    and "\<forall>x \<in> set ts. valid_cstring x" "length (concat ts) \<le> INT_MAX div 2 - 1"
  shows "\<exists>input. new_cad_input_stream_from_file_descriptor True fd = Some (Some input) \<and>
    (if msg = ''could not close loop list'' then render env input out w = None
     else \<exists>st. render env input out w = Some (-1, Some (msg, int (length before)), st) \<and> b_world st = w' \<and>
       string_written (b_output st) = concat ts)"
proof -
  obtain input where input: "new_cad_input_stream_from_file_descriptor True fd = Some (Some input)" "fd_inv input"
      "fd_rest input = fd_bytes fd"
    using new_fd_stream [OF assms(1)] by blast
  have new: "oss_inv out" "string_written out = []"
    using assms(7) by (auto simp: new_cad_output_stream_from_string_def oss_inv_def string_written_def)
  obtain out' where out': "put_all (se_output env) out ts = Some out'" "string_written out' = concat ts"
    using string_out.put_all_appends [of out ts] new assms(6,8,9) by auto
  show ?thesis using fd_in.render_fails [OF assms(4,5) input(2,3) assms(2,3) out'(1)] input(1) out'(2) by auto
qed

lemma names_break:
  "breaks names_client tree None False [Text ''Hi '', Section ''names'' [Variable ''n'', Text '': '', Variable ''names'']] 0
     [''H'', ''i'', '' '', ''A'', ''n'', ''n'', '':'', '' ''] 0 ''Hi {{#names}}{{n}}: {{names}}'' ''unexpected list'' 0"
proof -
  have "renders names_client tree False [Text '': ''] 0 ['':'', '' ''] 0 [Text '': ''] 0"
    using r_text [OF r_nil, where cl = names_client and skip = False and w = 0 and t = "'': ''"] by (simp add: shown_def)
  then have "renders names_client tree False [Variable ''n'', Text '': ''] 0 (shown False (map escape_char ''Ann'') @ ['':'', '' '']) 0
      [Variable ''n'', Text '': ''] 0"
    by (intro r_variable [where ?w1.0 = 0 and h = 1]) simp_all
  then have valid: "renders names_client tree False [Variable ''n'', Text '': ''] 0 [''A'', ''n'', ''n'', '':'', '' ''] 0
      [Variable ''n'', Text '': ''] 0"
    by (simp add: shown_def escape_char_def)
  have "breaks names_client tree (Some ''names'') False [Variable ''names''] 0 [] 0 (print_node (Variable ''names'')) ''unexpected list'' 0"
    by (rule b_type [where type = Cad_stache_list and h = 0]) (simp_all add: type_error_def)
  then have "breaks names_client tree (Some ''names'') False [Variable ''n'', Text '': '', Variable ''names''] 0
      [''A'', ''n'', ''n'', '':'', '' ''] 0 ''{{n}}: {{names}}'' ''unexpected list'' 0"
    using b_then [OF valid] by fastforce
  then have "list_breaks names_client tree ''names'' (False \<or> \<not> True) 0 [Variable ''n'', Text '': '', Variable ''names''] 0 0
      [''A'', ''n'', ''n'', '':'', '' ''] 0 ''{{n}}: {{names}}'' ''unexpected list'' 0"
    by (intro l_body) simp
  then have "breaks names_client tree None False [Section ''names'' [Variable ''n'', Text '': '', Variable ''names'']] 0
      [''A'', ''n'', ''n'', '':'', '' ''] 0 (''{{#'' @ ''names'' @ ''}}'' @ ''{{n}}: {{names}}'') ''unexpected list'' 0"
    by (intro b_section_list [where ?w1.0 = 0 and ?w2.0 = 0 and b = True and get = "\<lambda>i w. (i < 2, i)"]) simp_all
  moreover have "renders names_client tree False [Text ''Hi ''] 0 [''H'', ''i'', '' ''] 0 [Text ''Hi ''] 0"
    using r_text [OF r_nil, where cl = names_client and skip = False and w = 0 and t = "''Hi ''"] by (simp add: shown_def)
  ultimately show ?thesis using b_then by fastforce
qed

lemma names_fail:
  "template_fails names_client tree ''Hi {{#names}}{{n}}: {{names}}{{/names}}bye'' 0
     [''H'', ''i'', '' '', ''A'', ''n'', ''n'', '':'', '' ''] 0 ''Hi {{#names}}{{n}}: {{names}}'' ''unexpected list'' 0"
  "template_fails names_client tree ''Hi {{name'' 0 [''H'', ''i'', '' '', ''n''] 0 ''Hi {{'' ''Buffer end reached'' 0"
proof -
  show "template_fails names_client tree ''Hi {{#names}}{{n}}: {{names}}{{/names}}bye'' 0
     [''H'', ''i'', '' '', ''A'', ''n'', ''n'', '':'', '' ''] 0 ''Hi {{#names}}{{n}}: {{names}}'' ''unexpected list'' 0"
    using fails_inside [OF names_break, of "''bye''"] by simp
  have "renders names_client tree False [Text ''Hi ''] 0 [''H'', ''i'', '' ''] 0 [Text ''Hi ''] 0"
    using r_text [OF r_nil, where cl = names_client and skip = False and w = 0 and t = "''Hi ''"] by (simp add: shown_def)
  then have "ends names_client tree False False [Text ''Hi ''] (Unclosed ''name'') 0 [''H'', ''i'', '' '', ''n''] 0 ''Hi {{'' ''Buffer end reached'' 0"
    using e_unclosed [where n = "''name''" and inner = False] by (fastforce simp: shown_def)
  then show "template_fails names_client tree ''Hi {{name'' 0 [''H'', ''i'', '' '', ''n''] 0 ''Hi {{'' ''Buffer end reached'' 0"
    using fails_at_end by (fastforce simp: blank_def)
qed

lemma stache_reports_errors_witness:
  "\<exists>out input input' st st'. new_cad_output_stream_from_string True = Some out \<and>
     new_cad_input_stream_from_file_descriptor True
       \<lparr>fd_reads = [Data ''Hi {{#names}}{{n}}: {{na'', Data ''mes}}{{/names}}bye'']\<rparr> = Some (Some input) \<and>
     render (names_env fd_input) input out 0 = Some (-1, Some (''unexpected list'', 29), st) \<and>
     string_written (b_output st) = ''Hi Ann: '' \<and>
     new_cad_input_stream_from_file_descriptor True \<lparr>fd_reads = [Data ''Hi {{name'']\<rparr> = Some (Some input') \<and>
     render (names_env fd_input) input' out 0 = Some (-1, Some (''Buffer end reached'', 5), st') \<and>
     string_written (b_output st') = ''Hi n''"
proof -
  obtain out where out: "new_cad_output_stream_from_string True = Some out"
    by (simp add: new_cad_output_stream_from_string_def)
  have fds: "fd_ok \<lparr>fd_reads = [Data ''Hi {{#names}}{{n}}: {{na'', Data ''mes}}{{/names}}bye'']\<rparr>" "fd_ok \<lparr>fd_reads = [Data ''Hi {{name'']\<rparr>"
      "fd_bytes \<lparr>fd_reads = [Data ''Hi {{#names}}{{n}}: {{na'', Data ''mes}}{{/names}}bye'']\<rparr> = ''Hi {{#names}}{{n}}: {{names}}{{/names}}bye''"
      "fd_bytes \<lparr>fd_reads = [Data ''Hi {{name'']\<rparr> = ''Hi {{name''"
    by (simp_all add: fd_ok_def fd_bytes_def)
  have env: "se_input (names_env fd_input) = fd_input" "se_output (names_env fd_input) = string_output"
      "se_client (names_env fd_input) = names_client"
    by (simp_all add: names_env_def)
  show ?thesis
    using stache_reports_errors [OF fds(1) _ _ _ env(1,2) out, unfolded env fds, OF _ _ names_fail(1)]
      stache_reports_errors [OF fds(2) _ _ _ env(1,2) out, unfolded env fds, OF _ _ names_fail(2)] out
    by (simp add: INT_MAX_def valid_cstring_def) blast
qed

section \<open>The buffer\<close>

text \<open>C6: the buffer of the engine stays well formed, for every template, valid or not, every input stream
  and every client. From a well-formed state, the item is read inside the block; a new byte is
  stored inside the block; the next item leaves a well-formed state; and so does the whole rendering, but
  that an error may leave the index before the beginning.\<close>

theorem stache_buffer_well_formed:
  assumes "stache_ok st"
  shows "(\<exists>c. buffer_item st = Some c) \<and>
    (case buffer_room env st of None \<Rightarrow> True | Some st' \<Rightarrow> \<exists>st''. buffer_put b st' = Some st'') \<and>
    (case buffer_next env st of None \<Rightarrow> True | Some (ok, st') \<Rightarrow> stache_ok st') \<and>
    (case render_template env st of None \<Rightarrow> True | Some (ok, st') \<Rightarrow> stache_shape st' \<and> (ok \<longrightarrow> stache_ok st'))"
proof (intro conjI)
  show "\<exists>c. buffer_item st = Some c" using stache_ok_item [OF assms] .
  show "case buffer_room env st of None \<Rightarrow> True | Some st' \<Rightarrow> \<exists>st''. buffer_put b st' = Some st''"
    using buffer_room_shape [of env st] assms
    by (auto simp: stache_ok_def stache_shape_def buffer_put_def c_access split: option.split)
  show "case buffer_next env st of None \<Rightarrow> True | Some (ok, st') \<Rightarrow> stache_ok st'"
    by (auto split: option.split intro: moves_ok [OF buffer_next_moves [OF assms]])
  show "case render_template env st of None \<Rightarrow> True | Some (ok, st') \<Rightarrow> stache_shape st' \<and> (ok \<longrightarrow> stache_ok st')"
    using render_template_ok [of env st] assms by (auto simp: outcome_ok_def split: option.split)
qed

lemma stache_buffer_well_formed_witness:
  "\<exists>out input st. new_cad_output_stream_from_string True = Some out \<and>
     new_cad_input_stream_from_string True ''{{#names}}{{>name'' = Some input \<and>
     buffer_next (names_env string_input) (start_state (names_env string_input) input out 0) = Some (True, st) \<and>
     (case render_template (names_env string_input) st of None \<Rightarrow> True | Some (ok, st') \<Rightarrow> stache_shape st' \<and> (ok \<longrightarrow> stache_ok st'))"
proof -
  obtain out where out: "new_cad_output_stream_from_string True = Some out"
    by (simp add: new_cad_output_stream_from_string_def)
  obtain input where input: "new_cad_input_stream_from_string True ''{{#names}}{{>name'' = Some input"
    by (simp add: new_cad_input_stream_from_string_def)
  then have "string_inv input" "string_rest input = ''{{#names}}{{>name''"
    by (auto simp: new_cad_input_stream_from_string_def string_inv_def string_rest_def valid_cstring_def)
  then obtain st where st: "buffer_next (names_env string_input) (start_state (names_env string_input) input out 0) = Some (True, st)"
    using string_in.start_at [of "names_env string_input" input _ out 0] by (auto simp: names_env_def)
  then show ?thesis
    using out input stache_buffer_well_formed [OF start_state_ok [OF st], where env = "names_env string_input"] by blast
qed

section \<open>Names and delimiters\<close>

text \<open>C39: a template over a string in which, after some nodes, a variable has a name of 16, 32, 64,
  128, ... characters: \<open>parse_name\<close> stores the terminating NUL of the name one byte past its
  block, so that the rendering is undefined.\<close>

theorem stache_name_overflows:
  assumes "valid_cstring T" "T = print_nodes ns @ ''{{'' @ n @ ''}}'' @ t" "t \<noteq> []" "length T + g \<le> 2 ^ 29" "CHR 0xFF \<notin> set T"
    and "list_all wf_node ns" "CHR ''}'' \<notin> set n" "\<not> blank (hd n)" "hd n \<notin> set ''{#/^=!>''" "length n = 16 * 2 ^ j"
    and "new_cad_input_stream_from_string True T = Some input" "se_input env = string_input"
    and "renders (se_client env) tree False ns w ts w' us g" "put_all (se_output env) out ts = Some out'"
  shows "render env input out w = None"
proof -
  have input: "string_inv input" "string_rest input = T"
    using assms(1,11) by (auto simp: new_cad_input_stream_from_string_def string_inv_def string_rest_def)
  show ?thesis
    using string_in.render_name_overflows [OF assms(12) input(1) _ assms(3) _ _ assms(6-10,13,14)] assms(2,4,5)
    unfolding input(2) by blast
qed

lemma stache_name_overflows_witness:
  "\<exists>input. new_cad_input_stream_from_string True ''Dear {{recipient_name_1}}!'' = Some input \<and>
     (\<forall>out out'. put_all string_output out (map (\<lambda>c. [c]) ''Dear '') = Some out' \<longrightarrow>
       render (names_env string_input) input out 0 = None)"
proof -
  obtain input where input: "new_cad_input_stream_from_string True ''Dear {{recipient_name_1}}!'' = Some input"
    by (simp add: new_cad_input_stream_from_string_def)
  have meaning: "renders (se_client (names_env string_input)) (\<lambda>_. []) False [Text ''Dear ''] 0 (map (\<lambda>c. [c]) ''Dear '') 0 [Text ''Dear ''] 0"
    using r_text [OF r_nil, where skip = False and t = "''Dear ''"] by (simp add: shown_def names_env_def)
  have "render (names_env string_input) input out 0 = None"
    if "put_all string_output out (map (\<lambda>c. [c]) ''Dear '') = Some out'" for out out'
    by (rule stache_name_overflows [where n = "''recipient_name_1''" and t = "''!''" and j = 0, OF _ _ _ _ _ _ _ _ _ _ input _ meaning])
      (use that in \<open>simp_all add: names_env_def blank_def\<close>)
  then show ?thesis using input by blast
qed

text \<open>C40: no change of the delimiters succeeds, in any state of the engine: where
  \<open>render_stache_delimiters\<close> returns, it reports an error and the delimiters are what they were.\<close>

theorem stache_delimiters_fail:
  "case render_stache_delimiters env st of
     None \<Rightarrow> True
   | Some (ok, st') \<Rightarrow> \<not> ok \<and> b_open st' = b_open st \<and> b_close st' = b_close st"
proof (cases "render_stache_delimiters env st")
  case (Some r)
  obtain ok st' where run: "render_stache_delimiters env st = Some (ok, st')" using Some by (cases r) simp
  obtain name st1 where name: "parse_name env (Some ''='') st = Some (name, st1)"
    using run by (auto simp: render_stache_delimiters_def split: bind_splits)
  have same: "b_open st1 = b_open st \<and> b_close st1 = b_close st"
    using parse_name_delimiters [OF name] by (simp add: same_delimiters_def)
  show ?thesis
  proof (cases name)
    case None
    then show ?thesis using run name same by (simp add: render_stache_delimiters_def)
  next
    case d: (Some d)
    then obtain b rest where rest: "dropWhile (\<lambda>c. \<not> blank c) d = b # rest"
      using run name by (auto simp: render_stache_delimiters_def split: list.splits)
    then have "dropWhile blank (c_name rest) \<noteq> [] \<Longrightarrow> last (dropWhile blank (c_name rest)) \<noteq> CHR ''=''"
      using no_delimiters [OF parse_name_suffixed refl rest] name d by blast
    then show ?thesis
      using run name d rest same by (auto simp: render_stache_delimiters_def Let_def fail_def split: if_splits)
  qed
qed simp

end
