(* ===== verification/Spec2Isabelle.thy ===== *)
theory Spec2Isabelle
  imports Cad_Hash_Props Cad_Array_Props Cad_Stream_Props Cad_Cgi_Props Cad_Cgi_Session_Props Cad_Events_Props Cad_Event_Queue_Props
    Cad_Stache_Props
begin

text \<open>
  Verification of libCad, a C library of containers, streams, CGI support, events and templates
  (src/ and include/ of the repository).

  \<^bold>\<open>The program.\<close> The hash table and the dynamic array stand alone. A stream is a struct of function
  pointers, with implementations on strings, on \<open>FILE\<close>s and on file descriptors. The CGI support reads the
  request from the environment and from an input stream, keeps parameters, headers and cookies in hash
  tables, and collects the body of the response in a string stream. The events loops wait for
  descriptors and call the client back; the event queue is a thread that passes data through a pipe.
  The stache engine reads a template from any input stream, asks a callback of the client for the values
  of its names, and writes to any output stream; it keeps its open loops and partials in arrays.

  \<^bold>\<open>The theories and the code.\<close> Each group is: the model, its laws, its properties.

  \<^item> Cad_Prelude: C's \<open>char\<close>, \<open>int\<close>, pointers and memory accesses, and the doubling capacities. Every call that may
    fault returns an option, where \<open>None\<close> is undefined behaviour or no return.
  \<^item> src/cad_hash.c: Cad_Probe (\<open>next_index_of\<close> and its order of slots), Cad_Hash (the table:
    \<open>cad_hash_impl\<close> with its array of entries, \<open>index_of\<close>, \<open>rehash\<close>, \<open>grow\<close> and the operations), Cad_Hash_Laws (the locale
    \<open>hash_keys\<close> of the keys manager's contract), Cad_Hash_Ops (invariant, abstraction to a map, one law
    for each operation), Cad_Table (the locale \<open>assoc_table\<close> that the clients rely on), Cad_Hash_Props.
  \<^item> src/cad_array.c: Cad_Array (cells of one element, of which some are indeterminate), Cad_Stack (the array as
    the stack that the stache engine uses, a locale and its interpretation), Cad_Array_Props.
  \<^item> src/cad_stream_*.c: Cad_Stream (the locales \<open>input_stream\<close> and \<open>output_stream\<close>), Cad_Stream_String,
    Cad_Stream_File and Cad_Stream_Fd (the implementations, which interpret them), Cad_Stream_Props.
  \<^item> src/cad_cgi.c and src/cad_cgi_cookies.c: Cad_Format (decimal numbers), Cad_Cgi_Query (\<open>parse_query_or_form\<close>),
    Cad_Cgi_Meta (\<open>meta_impl\<close>), Cad_Cookies (cookies at addresses of a store, the jar), Cad_Cgi_Response
    (\<open>response_impl\<close> and the runner), with Cad_Cgi_Laws, Cad_Cookies_Laws and Cad_Cgi_Props. Cad_Cgi_Session puts
    them together: the handler of a client as a tree of the calls it makes through the tables of functions,
    the page that it makes of plain data and maps, and the relation between a response and its page;
    Cad_Cgi_Session_Laws follows the page through flush and release, Cad_Cgi_Session_Props has what then goes out.
  \<^item> src/cad_events.c: Cad_Events (selector and poller), Cad_Events_Laws (the locale \<open>event_loop\<close>) and
    Cad_Poller_Laws (its two interpretations), Cad_Events_Props.
  \<^item> src/cad_event_queue_pthread.c: Cad_Event_Queue (step relations of the worker and of the client, one step
    for each statement that touches what they share), Cad_Event_Queue_Laws (the invariant),
    Cad_Event_Queue_Props.
  \<^item> src/cad_stache.c: Cad_Stache (the buffer, the names, the tags, \<open>render\<close>), Cad_Stache_Spec (templates as
    trees and their meaning as a big-step relation, which is deterministic), Cad_Stache_Laws (the buffer and
    its open partials as a position in the template), Cad_Stache_Tags (one turn of the renderer: a partial
    replaces its tag in the template when it is first read), Cad_Stache_Sim (the engine follows the meaning), Cad_Stache_Safe (the buffer stays well
    formed in any state), Cad_Stache_Errors (the errors of a template as a second relation, at which
    the engine stops), Cad_Stache_Ends (templates that end inside a section or a tag), Cad_Stache_Delims (names with a suffix, in any state), Cad_Stache_Props.

  The public structs of function pointers are records (\<open>cad_hash\<close>, \<open>cad_array\<close>, \<open>cad_events\<close>, \<open>cad_cgi_response\<close> and
  the others), and each implementation's table (\<open>hash_fn\<close>, \<open>fn_selector\<close>, \<open>fn_poller\<close>, \<open>response_fn\<close>) is a value of its record.

  \<^bold>\<open>What is shown.\<close> Refinements: a run of hash table operations is a run on a map, of stack operations a run on
    a list; a rendering puts out what the template, with its partials, means, up to its first error, which
    it reports; a CGI handler that ends with 0, whatever it asks of the request, serves the page that it describes if it has
    put a body (without one the flush faults), and one that fails is answered with a page of status 500 and its response
    released. What goes out is stated byte by byte from the data of the response and of its cookies. Equivalence and round trips: the query parser computes a reference parser,
    and reads back what is percent-encoded; cookies and version numbers are read back. Streams deliver
    their bytes in order whatever the sizes of the reads. Loops: which calls of each loop and in what order. Queue: first in, first
    out under every interleaving, exclusion, ends of a stop, states that only advance. Bounds and
    faults: where memory accesses stay inside their objects, and exactly which inputs make them leave
    them (deletion in an array, the polled descriptors, the names of a template, a cookie set twice).

  \<^bold>\<open>Bounds.\<close> An \<open>int\<close> has 32 bits, a plain \<open>char\<close> is signed, and an overflow is undefined. The hash table is
    followed for up to \<open>2 ^ 27\<close> operations, so that its capacity stays an \<open>int\<close>; a template and a form for
    up to \<open>2 ^ 29\<close> bytes; a string stream up to \<open>INT_MAX / 2\<close>. No model uses fuel: a loop that ends is a
    function with a measure, or structural; the others are \<open>partial_function (option)\<close>, where the
    theorems prove \<open>Some\<close> wherever the code returns.

  \<^bold>\<open>Assumptions.\<close> Memory is allocated where the code does not test for failure. The formatted text of \<open>printf\<close> is an
    argument. What the system does is an argument: the environment, the results of \<open>read\<close> and \<open>write\<close>, the ready
    descriptors, the values of uninitialised memory. The theorems on sessions suppose that what \<open>new_meta\<close> does not initialise,
  \<open>input_as_form\<close>, holds \<open>NULL\<close>, and that fresh memory holds no wild value pointer when the request has cookies: the code
  needs both. \<open>qsort\<close>, the client's callbacks and keys managers are
    parameters. Releases are kept for the keys of the hash table, the cookies and the names of loops. The threads' accesses are
    sequentially consistent. A mutex has the default type, and a thread that locks one it holds waits for ever, as it does with
  glibc; POSIX leaves that undefined.

  \<^bold>\<open>Not modelled.\<close> src/cad_shared.c (a table of the C library's allocation functions), the table of functions of the event
  queue and its \<open>get_fd\<close> (its operations are steps, not functions), the release of the streams, the test programs
  and the build. The handlers of a session make no call on the output of the runner and do not read the
  meta-variables other than the query and the form. The meaning of
  templates leaves out empty names, tags of other kinds than variables that are not closed, and sections
  over partials; its partials are strings whose release leaves the client's world alone. The model of the
  engine has all of them.
\<close>

end
